(* ===== verification/BootPrelude.thy ===== *)
theory BootPrelude
  imports Main "HOL-Library.Word" "HOL-Library.Monad_Syntax"
begin

text \<open>
  Prelude of the development: the machine integer types of the C sources, the bus through
  which every volatile access of the boot loader goes, the state record that all components
  extend, and the generic lemmas the component theories share.

  The hardware behind the bus (flash controller, USB peripheral, clock unit, GPIO ports, CRC
  unit) is not code of the repository. It is a parameter: a record of functions on an
  arbitrary hardware state. A theorem that says nothing about the bus holds for every
  hardware behaviour; a theorem that needs documented behaviour states it as a hypothesis.
\<close>

unbundle bit_operations_syntax

type_synonym u8 = "8 word"
type_synonym u16 = "16 word"
type_synonym u32 = "32 word"
type_synonym u64 = "64 word"

named_theorems frame
  \<open>what an operation leaves alone, as destruction rules for its result\<close>

section \<open>The bus\<close>

text \<open>Loads return the value and the hardware's next state: reading a status register may
  let time pass, reading a data register may have an effect.\<close>

record 'h bus =
  ld8 :: "u32 \<Rightarrow> 'h \<Rightarrow> u8 \<times> 'h"
  ld16 :: "u32 \<Rightarrow> 'h \<Rightarrow> u16 \<times> 'h"
  ld32 :: "u32 \<Rightarrow> 'h \<Rightarrow> u32 \<times> 'h"
  st8 :: "u32 \<Rightarrow> u8 \<Rightarrow> 'h \<Rightarrow> 'h"
  st16 :: "u32 \<Rightarrow> u16 \<Rightarrow> 'h \<Rightarrow> 'h"
  st32 :: "u32 \<Rightarrow> u32 \<Rightarrow> 'h \<Rightarrow> 'h"

text \<open>The root of the state records: each component extends it with its static variables.\<close>

record 'h world =
  hw :: "'h"

definition rd8 :: "'h bus \<Rightarrow> u32 \<Rightarrow> ('h, 'm) world_scheme \<Rightarrow> u8 \<times> ('h, 'm) world_scheme" where
  "rd8 b a s = (let (v, h) = ld8 b a (hw s) in (v, s\<lparr>hw := h\<rparr>))"

definition rd16 :: "'h bus \<Rightarrow> u32 \<Rightarrow> ('h, 'm) world_scheme \<Rightarrow> u16 \<times> ('h, 'm) world_scheme" where
  "rd16 b a s = (let (v, h) = ld16 b a (hw s) in (v, s\<lparr>hw := h\<rparr>))"

definition rd32 :: "'h bus \<Rightarrow> u32 \<Rightarrow> ('h, 'm) world_scheme \<Rightarrow> u32 \<times> ('h, 'm) world_scheme" where
  "rd32 b a s = (let (v, h) = ld32 b a (hw s) in (v, s\<lparr>hw := h\<rparr>))"

definition wr8 :: "'h bus \<Rightarrow> u32 \<Rightarrow> u8 \<Rightarrow> ('h, 'm) world_scheme \<Rightarrow> ('h, 'm) world_scheme" where
  "wr8 b a v s = s\<lparr>hw := st8 b a v (hw s)\<rparr>"

definition wr16 :: "'h bus \<Rightarrow> u32 \<Rightarrow> u16 \<Rightarrow> ('h, 'm) world_scheme \<Rightarrow> ('h, 'm) world_scheme" where
  "wr16 b a v s = s\<lparr>hw := st16 b a v (hw s)\<rparr>"

definition wr32 :: "'h bus \<Rightarrow> u32 \<Rightarrow> u32 \<Rightarrow> ('h, 'm) world_scheme \<Rightarrow> ('h, 'm) world_scheme" where
  "wr32 b a v s = s\<lparr>hw := st32 b a v (hw s)\<rparr>"

text \<open>\<open>*reg op= x\<close> on a volatile register: one load, one store.\<close>

definition mod32 :: "'h bus \<Rightarrow> u32 \<Rightarrow> (u32 \<Rightarrow> u32) \<Rightarrow> ('h, 'm) world_scheme \<Rightarrow> ('h, 'm) world_scheme" where
  "mod32 b a f s = (let (v, s') = rd32 b a s in wr32 b a (f v) s')"

text \<open>\<open>world.more\<close> is everything but the hardware: every static variable of every component.\<close>

lemma more_ops [simp]:
  "world.more (wr8 b a x s) = world.more s"
  "world.more (wr16 b a w s) = world.more s"
  "world.more (wr32 b a v s) = world.more s"
  "world.more (snd (rd8 b a s)) = world.more s"
  "world.more (snd (rd16 b a s)) = world.more s"
  "world.more (snd (rd32 b a s)) = world.more s"
  "world.more (mod32 b a f s) = world.more s"
  by (auto simp: wr8_def wr16_def wr32_def rd8_def rd16_def rd32_def mod32_def split: prod.splits)

lemma more_rd [dest, frame]:
  "rd8 b a s = (x, s') \<Longrightarrow> world.more s' = world.more s"
  "rd16 b a s = (w, s') \<Longrightarrow> world.more s' = world.more s"
  "rd32 b a s = (v, s') \<Longrightarrow> world.more s' = world.more s"
  by (auto simp: rd8_def rd16_def rd32_def split: prod.splits)

lemma more_eq_iff: "world.more s' = world.more s \<longleftrightarrow> s' = s\<lparr>hw := hw s'\<rparr>"
  by (cases s; cases s') auto

lemma hw_wr [simp]:
  "hw (wr8 b a x s) = st8 b a x (hw s)"
  "hw (wr16 b a w s) = st16 b a w (hw s)"
  "hw (wr32 b a v s) = st32 b a v (hw s)"
  by (simp_all add: wr8_def wr16_def wr32_def)

lemma hw_rd [simp]:
  "hw (snd (rd8 b a s)) = snd (ld8 b a (hw s))"
  "hw (snd (rd16 b a s)) = snd (ld16 b a (hw s))"
  "hw (snd (rd32 b a s)) = snd (ld32 b a (hw s))"
  by (simp_all add: rd8_def rd16_def rd32_def split: prod.splits)

lemma fst_rd [simp]:
  "fst (rd8 b a s) = fst (ld8 b a (hw s))"
  "fst (rd16 b a s) = fst (ld16 b a (hw s))"
  "fst (rd32 b a s) = fst (ld32 b a (hw s))"
  by (simp_all add: rd8_def rd16_def rd32_def split: prod.splits)

lemma hw_mod32 [simp]:
  "hw (mod32 b a f s) = st32 b a (f (fst (ld32 b a (hw s)))) (snd (ld32 b a (hw s)))"
  by (simp add: mod32_def rd32_def wr32_def split: prod.splits)

section \<open>Which stores an operation issues\<close>

datatype store = St8 u32 u8 | St16 u32 u16 | St32 u32 u32

text \<open>A bus that records every store, in order, on top of any other bus.\<close>

definition trace_bus :: "'h bus \<Rightarrow> ('h \<times> store list) bus" where
  "trace_bus b =
     \<lparr>ld8 = (\<lambda>a (h, tr). let (v, h') = ld8 b a h in (v, (h', tr))),
      ld16 = (\<lambda>a (h, tr). let (v, h') = ld16 b a h in (v, (h', tr))),
      ld32 = (\<lambda>a (h, tr). let (v, h') = ld32 b a h in (v, (h', tr))),
      st8 = (\<lambda>a v (h, tr). (st8 b a v h, tr @ [St8 a v])),
      st16 = (\<lambda>a v (h, tr). (st16 b a v h, tr @ [St16 a v])),
      st32 = (\<lambda>a v (h, tr). (st32 b a v h, tr @ [St32 a v]))\<rparr>"

text \<open>
  The interface between the drivers and an arbitrary hardware invariant \<open>P\<close>: loads keep it,
  and so do the stores that a policy \<open>G\<close> allows. A driver lemma proved in this locale says
  which stores the driver needs; instantiated on \<open>trace_bus\<close> it bounds the stores issued.
\<close>

locale guarded_bus =
  fixes b :: "'h bus" and G :: "store \<Rightarrow> bool" and P :: "'h \<Rightarrow> bool"
  assumes ld8_P: "P h \<Longrightarrow> P (snd (ld8 b a h))"
    and ld16_P: "P h \<Longrightarrow> P (snd (ld16 b a h))"
    and ld32_P: "P h \<Longrightarrow> P (snd (ld32 b a h))"
    and st8_P: "P h \<Longrightarrow> G (St8 a x) \<Longrightarrow> P (st8 b a x h)"
    and st16_P: "P h \<Longrightarrow> G (St16 a w) \<Longrightarrow> P (st16 b a w h)"
    and st32_P: "P h \<Longrightarrow> G (St32 a v) \<Longrightarrow> P (st32 b a v h)"
begin

lemma rd_P [intro]:
  "P (hw s) \<Longrightarrow> P (hw (snd (rd8 b a s)))"
  "P (hw s) \<Longrightarrow> P (hw (snd (rd16 b a s)))"
  "P (hw s) \<Longrightarrow> P (hw (snd (rd32 b a s)))"
  by (simp_all add: ld8_P ld16_P ld32_P)

lemma wr_P [intro]:
  "P (hw s) \<Longrightarrow> G (St8 a x) \<Longrightarrow> P (hw (wr8 b a x s))"
  "P (hw s) \<Longrightarrow> G (St16 a w) \<Longrightarrow> P (hw (wr16 b a w s))"
  "P (hw s) \<Longrightarrow> G (St32 a v) \<Longrightarrow> P (hw (wr32 b a v s))"
  by (simp_all add: st8_P st16_P st32_P)

lemma mod_P [intro]:
  "P (hw s) \<Longrightarrow> (\<And>v. G (St32 a (f v))) \<Longrightarrow> P (hw (mod32 b a f s))"
  by (simp add: st32_P ld32_P)

end

interpretation traced: guarded_bus "trace_bus b" G "\<lambda>(h, tr). list_all G tr" for b G
  by unfold_locales (auto simp: trace_bus_def split: prod.splits)

section \<open>Bytes, half words and words in memory order\<close>

text \<open>The target is little endian.\<close>

definition lo8 :: "u16 \<Rightarrow> u8" where "lo8 w = ucast w"

definition hi8 :: "u16 \<Rightarrow> u8" where "hi8 w = ucast (drop_bit 8 w)"

definition mk16 :: "u8 \<Rightarrow> u8 \<Rightarrow> u16" where
  "mk16 l h = ucast l OR push_bit 8 (ucast h)"

definition mk32 :: "u8 \<Rightarrow> u8 \<Rightarrow> u8 \<Rightarrow> u8 \<Rightarrow> u32" where
  "mk32 b0 b1 b2 b3 =
     ucast b0 OR push_bit 8 (ucast b1) OR push_bit 16 (ucast b2) OR push_bit 24 (ucast b3)"

definition byte_of32 :: "nat \<Rightarrow> u32 \<Rightarrow> u8" where
  "byte_of32 i v = ucast (drop_bit (8 * i) v)"

lemma lo8_mk16 [simp]: "lo8 (mk16 l h) = l"
  unfolding lo8_def mk16_def by (rule bit_word_eqI) (auto simp: bit_simps)

lemma hi8_mk16 [simp]: "hi8 (mk16 l h) = h"
  unfolding hi8_def mk16_def
  by (rule bit_word_eqI) (auto simp: bit_simps dest: bit_imp_le_length)

lemma mk16_lo8_hi8 [simp]: "mk16 (lo8 w) (hi8 w) = w"
  unfolding lo8_def hi8_def mk16_def
  by (rule bit_word_eqI) (auto simp: bit_simps)

lemma byte_of32_mk32 [simp]:
  "byte_of32 0 (mk32 b0 b1 b2 b3) = b0"
  "byte_of32 (Suc 0) (mk32 b0 b1 b2 b3) = b1"
  "byte_of32 2 (mk32 b0 b1 b2 b3) = b2"
  "byte_of32 3 (mk32 b0 b1 b2 b3) = b3"
  unfolding byte_of32_def mk32_def
  by (rule bit_word_eqI; auto simp: bit_simps dest: bit_imp_le_length)+

lemma ucast_ucast_16 [simp]: "ucast (ucast (w :: u16) :: u32) = w"
  by (rule bit_word_eqI) (simp add: bit_simps)

lemma unat_ucast16 [simp]: "unat (ucast (w :: u16) :: u32) = unat w"
  using unsigned_less [of w, where 'a = nat] by (simp add: unsigned_ucast_eq take_bit_nat_eq_self)

lemma mk32_bytes [simp]:
  "mk32 (byte_of32 0 v) (byte_of32 (Suc 0) v) (byte_of32 2 v) (byte_of32 3 v) = v"
  unfolding byte_of32_def mk32_def
proof (rule bit_word_eqI)
  fix n
  show "bit (ucast (ucast (drop_bit (8 * 0) v) :: u8) OR push_bit 8 (ucast (ucast (drop_bit (8 * Suc 0) v) :: u8)) OR
      push_bit 16 (ucast (ucast (drop_bit (8 * 2) v) :: u8)) OR
      push_bit 24 (ucast (ucast (drop_bit (8 * 3) v) :: u8)) :: u32) n = bit v n" if "n < LENGTH(32)"
    using that by (cases "n < 16"; cases "n < 24") (auto simp: bit_simps)
qed

lemma mk32_inject:
  "mk32 b0 b1 b2 b3 = mk32 c0 c1 c2 c3 \<longleftrightarrow> b0 = c0 \<and> b1 = c1 \<and> b2 = c2 \<and> b3 = c3"
  by (metis byte_of32_mk32)

lemma mk32_ones: "mk32 0xFF 0xFF 0xFF 0xFF = 0xFFFFFFFF"
  by (simp add: mk32_def)

lemma mk32_eq_ones:
  "mk32 b0 b1 b2 b3 = 0xFFFFFFFF \<longleftrightarrow> b0 = 0xFF \<and> b1 = 0xFF \<and> b2 = 0xFF \<and> b3 = 0xFF"
  by (simp only: mk32_ones [symmetric] mk32_inject)

text \<open>The word at an address of a byte memory, and a word put there.\<close>

definition word_at :: "(u32 \<Rightarrow> u8) \<Rightarrow> u32 \<Rightarrow> u32" where
  "word_at m a = mk32 (m a) (m (a + 1)) (m (a + 2)) (m (a + 3))"

definition put_word :: "(u32 \<Rightarrow> u8) \<Rightarrow> u32 \<Rightarrow> u32 \<Rightarrow> u32 \<Rightarrow> u8" where
  "put_word m a v = m(a := byte_of32 0 v, a + 1 := byte_of32 1 v, a + 2 := byte_of32 2 v, a + 3 := byte_of32 3 v)"

lemma word_at_put_word [simp]: "word_at (put_word m a v) a = v"
  by (simp add: word_at_def put_word_def)

text \<open>The addresses of \<open>n\<close> bytes from \<open>a\<close> on.\<close>

definition span :: "u32 \<Rightarrow> nat \<Rightarrow> u32 set" where
  "span a n = (\<lambda>k. a + of_nat k) ` {..<n}"

lemma span_mono: "n \<le> m \<Longrightarrow> span a n \<subseteq> span a m"
  by (auto simp: span_def)

lemma in_span: "k < n \<Longrightarrow> a + of_nat k \<in> span a n"
  by (auto simp: span_def)

lemma span_Suc: "span a (Suc n) = insert (a + of_nat n) (span a n)"
  by (simp add: span_def lessThan_Suc)

lemma span_add: "k + m \<le> n \<Longrightarrow> span (a + of_nat k) m \<subseteq> span a n"
proof
  fix x assume k: "k + m \<le> n" and "x \<in> span (a + of_nat k) m"
  then obtain j where "j < m" "x = a + of_nat (k + j)" by (auto simp: span_def add.assoc)
  with k show "x \<in> span a n" using in_span [of "k + j" n a] by simp
qed

lemma span_word: "span a 4 = {a, a + 1, a + 2, a + 3}"
  by (simp add: eval_nat_numeral span_Suc) (auto simp: span_def)

end
