(* ===== verification/Soc.thy ===== *)
theory Soc
  imports BootPrelude
begin

text \<open>
  The memories and the CRC unit as the first stage sees them: the locale \<open>soc\<close> states their
  documented behaviour, and one hardware satisfies it.
\<close>

section \<open>The CRC unit\<close>

text \<open>Documented: polynomial 0x04C11DB7, most significant bit first, a word at a time, no final
  exclusive or; writing 1 to the control register sets the remainder to all ones.\<close>

definition crc_shift :: "u32 \<Rightarrow> u32" where
  "crc_shift c = (if bit c 31 then push_bit 1 c XOR 0x04C11DB7 else push_bit 1 c)"

definition crc32_word :: "u32 \<Rightarrow> u32 \<Rightarrow> u32" where
  "crc32_word c v = (crc_shift ^^ 32) (c XOR v)"

definition crc32_words :: "u32 list \<Rightarrow> u32" where
  "crc32_words ws = foldl crc32_word 0xFFFFFFFF ws"

text \<open>The \<open>n\<close> words of a memory from \<open>a\<close> on.\<close>

definition words_at :: "(u32 \<Rightarrow> u8) \<Rightarrow> u32 \<Rightarrow> nat \<Rightarrow> u32 list" where
  "words_at m a n = map (\<lambda>i. word_at m (a + 4 * of_nat i)) [0..<n]"

lemma words_at_Suc: "words_at m a (Suc n) = word_at m a # words_at m (a + 4) n"
  by (simp add: words_at_def upt_conv_Cons map_Suc_upt [symmetric] comp_def add.assoc del: upt_Suc)

section \<open>The laws\<close>

text \<open>\<open>M\<close> are the addresses of the memories that can be read, \<open>W\<close> those of the RAM, \<open>istat\<close> is the
  input register of port B, with the level of the DFU button, which does not change meanwhile.
  The CRC unit works while its clock is enabled. A store to a register of the flash controller is
  left open.\<close>

locale soc =
  fixes b :: "'h bus" and mem :: "'h \<Rightarrow> u32 \<Rightarrow> u8" and crc :: "'h \<Rightarrow> u32" and crc_on :: "'h \<Rightarrow> bool"
    and istat :: u32 and M W :: "u32 set"
  assumes mem_value: "span a 4 \<subseteq> M \<Longrightarrow> fst (ld32 b a h) = word_at (mem h) a"
    and load_keeps: "mem (snd (ld32 b a h)) = mem h" "crc (snd (ld32 b a h)) = crc h"
      "crc_on (snd (ld32 b a h)) = crc_on h"
    and store_reg: "0x40000000 \<le> a \<Longrightarrow> a < 0x40022000 \<or> 0x40022400 \<le> a \<Longrightarrow> mem (st32 b a v h) = mem h"
    and store_ram: "span a 4 \<subseteq> W \<Longrightarrow> mem (st32 b a v h) = put_word (mem h) a v"
    and store_byte: "a \<in> W \<Longrightarrow> mem (st8 b a x h) = (mem h)(a := x)"
    and store_keeps: "a \<noteq> 0x40021014 \<Longrightarrow> crc_on (st32 b a v h) = crc_on h"
    and clock: "crc_on (st32 b 0x40021014 v h) \<longleftrightarrow> bit v 6"
    and crc_reset: "crc_on h \<Longrightarrow> crc (st32 b 0x40023008 1 h) = 0xFFFFFFFF"
    and crc_feed: "crc_on h \<Longrightarrow> crc (st32 b 0x40023000 v h) = crc32_word (crc h) v"
    and crc_value: "fst (ld32 b 0x40023000 h) = crc h"
    and button: "fst (ld32 b 0x40010C08 h) = istat"
    and ram: "W \<subseteq> M"
begin

lemmas soc_simps [simp] = load_keeps store_reg store_keeps clock crc_reset crc_feed crc_value button

end

section \<open>One hardware that satisfies the laws\<close>

record soc_dev =
  sd_mem :: "u32 \<Rightarrow> u8"
  sd_crc :: u32
  sd_on :: bool

definition soc_mem :: "u32 set" where
  "soc_mem = {0x8000000 .. 0x8080000} \<union> {0x20000000 .. 0x20005000}"

definition soc_ram :: "u32 set" where
  "soc_ram = {0x20000000 .. 0x20005000}"

definition soc_ld32 :: "u32 \<Rightarrow> u32 \<Rightarrow> soc_dev \<Rightarrow> u32 \<times> soc_dev" where
  "soc_ld32 istat a d =
     (if a = 0x40023000 then (sd_crc d, d) else if a = 0x40010C08 then (istat, d)
      else if a = 0x40021014 then (0, d)
      else (word_at (sd_mem d) a, d))"

definition soc_st32 :: "u32 \<Rightarrow> u32 \<Rightarrow> soc_dev \<Rightarrow> soc_dev" where
  "soc_st32 a v d =
     (if a = 0x40021014 then d\<lparr>sd_on := bit v 6\<rparr>
      else if a = 0x40023008 then (if sd_on d then d\<lparr>sd_crc := 0xFFFFFFFF\<rparr> else d)
      else if a = 0x40023000 then (if sd_on d then d\<lparr>sd_crc := crc32_word (sd_crc d) v\<rparr> else d)
      else if a < 0x40000000 then d\<lparr>sd_mem := put_word (sd_mem d) a v\<rparr>
      else d)"

definition soc_bus :: "u32 \<Rightarrow> soc_dev bus" where
  "soc_bus istat =
     \<lparr>ld8 = (\<lambda>a d. (sd_mem d a, d)), ld16 = (\<lambda>a d. (mk16 (sd_mem d a) (sd_mem d (a + 1)), d)),
      ld32 = soc_ld32 istat, st8 = (\<lambda>a x d. d\<lparr>sd_mem := (sd_mem d)(a := x)\<rparr>), st16 = (\<lambda>a w d. d),
      st32 = soc_st32\<rparr>"

lemma span_in: "span a 4 \<subseteq> A \<Longrightarrow> a \<in> A"
  by (auto simp: span_word)

lemma soc_mem_low: "a \<in> soc_mem \<Longrightarrow> a < 0x40000000" "soc_ram \<subseteq> soc_mem"
  by (auto simp: soc_mem_def soc_ram_def word_le_nat_alt word_less_nat_alt)

interpretation soc0: soc "soc_bus istat" sd_mem sd_crc sd_on istat soc_mem soc_ram for istat
proof (unfold_locales, goal_cases)
  case (1 a h)
  then show ?case using soc_mem_low(1) [OF span_in [OF 1]] by (auto simp: soc_bus_def soc_ld32_def)
next
  case (6 a v h)
  then show ?case using soc_mem_low span_in [OF 6] by (auto simp: soc_bus_def soc_st32_def)
qed (auto simp: soc_bus_def soc_ld32_def soc_st32_def soc_mem_def soc_ram_def)

end
