(* ===== verification/BootConfig.thy ===== *)
theory BootConfig
  imports BootPrelude
begin

text \<open>
  The build configuration: the constants that CMake writes into \<open>flash_config.h\<close> and
  \<open>memory_config.h\<close>, the switches that the sources test with \<open>#ifdef\<close>, and
  \<open>src_common/registers.h\<close>.
\<close>

section \<open>Constants of flash_config.h\<close>

text \<open>\<open>APP_START\<close> and \<open>BOOTLOADER_SIZE\<close> are set in CMakeLists.txt: 0x8000000 and 8.\<close>

abbreviation FLASH_BASE_ADDR :: u32 where "FLASH_BASE_ADDR \<equiv> 0x8000000"
abbreviation FLASH_BOOTLDR_SIZE_KB :: int where "FLASH_BOOTLDR_SIZE_KB \<equiv> 8"

section \<open>The switches of the build\<close>

text \<open>
  The sources are conditional on these macros. Every definition that depends on one takes the
  switches as an argument, so the theorems cover every build, and not only the one
  CMakeLists.txt configures (which defines none of the first three).
\<close>

record build =
  ENABLE_SAFEWRITE :: bool
  ENABLE_DFU_UPLOAD :: bool
  ENABLE_PROTECTIONS :: bool
  USE_GD32_CRYSTALLESS :: bool

definition cmake_build :: "bool \<Rightarrow> build" where
  "cmake_build crystalless =
     \<lparr>ENABLE_SAFEWRITE = False, ENABLE_DFU_UPLOAD = False, ENABLE_PROTECTIONS = False,
      USE_GD32_CRYSTALLESS = crystalless\<rparr>"

section \<open>src_common/registers.h\<close>

text \<open>\<open>APP_ADDRESS\<close> is \<open>FLASH_BASE_ADDR + FLASH_BOOTLDR_SIZE_KB * 1024\<close>.\<close>

definition APP_ADDRESS :: u32 where
  "APP_ADDRESS = FLASH_BASE_ADDR + word_of_int (FLASH_BOOTLDR_SIZE_KB * 1024)"

abbreviation RCC_CSR :: u32 where "RCC_CSR \<equiv> 0x40021024"
abbreviation RCC_CSR_RMVF :: u32 where "RCC_CSR_RMVF \<equiv> 0x1000000"

abbreviation configTICK_RATE_HZ :: u32 where "configTICK_RATE_HZ \<equiv> 1000"

definition configSYSTICK_CLOCK_HZ :: "build \<Rightarrow> u32" where
  "configSYSTICK_CLOCK_HZ cfg =
     (if USE_GD32_CRYSTALLESS cfg then 36 * 1000 * 1000 else 72 * 1000 * 1000)"

abbreviation portNVIC_SYSTICK_CTRL_REG :: u32 where "portNVIC_SYSTICK_CTRL_REG \<equiv> 0xe000e010"
abbreviation portNVIC_SYSTICK_LOAD_REG :: u32 where "portNVIC_SYSTICK_LOAD_REG \<equiv> 0xe000e014"
abbreviation portNVIC_SYSTICK_CURRENT_VALUE_REG :: u32 where
  "portNVIC_SYSTICK_CURRENT_VALUE_REG \<equiv> 0xe000e018"
abbreviation portNVIC_SYSTICK_CLK_BIT :: u32 where "portNVIC_SYSTICK_CLK_BIT \<equiv> 4"
abbreviation portNVIC_SYSTICK_INT_BIT :: u32 where "portNVIC_SYSTICK_INT_BIT \<equiv> 2"
abbreviation portNVIC_SYSTICK_ENABLE_BIT :: u32 where "portNVIC_SYSTICK_ENABLE_BIT \<equiv> 1"

lemma APP_ADDRESS_eq [simp]: "APP_ADDRESS = 0x8002000"
  by (simp add: APP_ADDRESS_def)

end
