(* ===== verification/CpuId.thy ===== *)
theory CpuId
  imports BootConfig
begin

text \<open>
  \<open>esprit_mini/lnCpuID_arm_gd32fx.cpp\<close> and \<open>lnCpuID.h\<close>: what chip the code runs on. The
  density register at 0x1FFFF7E0 holds the flash size in kB (low half) and, on GigaDevice
  chips only, the RAM size (high half, 0xffff on ST chips).
\<close>

datatype LN_VENDOR = LN_VENDOR_UNKOWN | LN_VENDOR_STM | LN_VENDOR_GD | LN_VENDOR_WCH | LN_VENDOR_ESP

datatype LN_MCU = LN_MCU_UNKNOWN | LN_MCU_ARM_F3 | LN_MCU_ARM_F4 | LN_MCU_RISCV | LN_MCU_XTENSA

text \<open>The file's static variables; \<open>SystemCoreClock\<close> is the clock module's global.\<close>

record 'h cpu_world = "'h world" +
  cpu_mcu :: LN_MCU
  cpu_vendor :: LN_VENDOR
  cpu_cpuId :: u32
  cpu_flashSize :: int
  cpu_ramSize :: int
  SystemCoreClock :: u32

abbreviation SCB_CPUID :: u32 where "SCB_CPUID \<equiv> 0xE000ED00"
abbreviation DENSITY_REG :: u32 where "DENSITY_REG \<equiv> 0x1FFFF7E0"

definition lnCpuID_identify :: "'h bus \<Rightarrow> ('h, 'm) cpu_world_scheme \<Rightarrow> ('h, 'm) cpu_world_scheme" where
  "lnCpuID_identify b s =
     (if cpu_flashSize s \<noteq> 0 then s
      else
        let (cpuid, s1) = rd32 b SCB_CPUID s;
            s2 = s1\<lparr>cpu_cpuId := cpuid\<rparr>;
            (density, s3) = rd32 b DENSITY_REG s2;
            ramSize = uint (drop_bit 16 density);
            s4 = s3\<lparr>cpu_flashSize := uint (density AND 0xffff)\<rparr>
        in if ramSize \<noteq> 0xffff then s4\<lparr>cpu_vendor := LN_VENDOR_GD\<rparr>
           else s4\<lparr>cpu_vendor := LN_VENDOR_STM\<rparr>)"

definition lnCpuID_vendor :: "('h, 'm) cpu_world_scheme \<Rightarrow> LN_VENDOR" where
  "lnCpuID_vendor s = cpu_vendor s"

definition lnCpuID_mcu :: "('h, 'm) cpu_world_scheme \<Rightarrow> LN_MCU" where
  "lnCpuID_mcu s = cpu_mcu s"

definition lnCpuID_flashSize :: "('h, 'm) cpu_world_scheme \<Rightarrow> int" where
  "lnCpuID_flashSize s = cpu_flashSize s"

definition lnCpuID_ramSize :: "('h, 'm) cpu_world_scheme \<Rightarrow> int" where
  "lnCpuID_ramSize s = cpu_ramSize s"

definition lnCpuID_clockSpeed :: "('h, 'm) cpu_world_scheme \<Rightarrow> int" where
  "lnCpuID_clockSpeed s = sint (SystemCoreClock s)"

section \<open>The flash size is a 16-bit quantity\<close>

text \<open>Every size the chip can report keeps the address arithmetic of the flash code far from
  the 32-bit limit.\<close>

definition cpu_inv :: "('h, 'm) cpu_world_scheme \<Rightarrow> bool" where
  "cpu_inv s \<longleftrightarrow> 0 \<le> cpu_flashSize s \<and> cpu_flashSize s < 0x10000"

lemma density_low: "uint (d AND 0xffff :: u32) < 0x10000"
proof -
  have "d AND 0xffff = take_bit 16 d"
    by (simp add: take_bit_eq_mask mask_numeral)
  then show ?thesis
    using take_bit_int_less_exp [of 16 "uint d"] by (simp add: unsigned_take_bit_eq)
qed

lemma cpu_inv_identify: "cpu_inv s \<Longrightarrow> cpu_inv (lnCpuID_identify b s)"
  by (auto simp: cpu_inv_def lnCpuID_identify_def rd32_def density_low Let_def split: prod.splits)

text \<open>Static variables survive whatever leaves \<open>world.more\<close> alone.\<close>

lemma cpu_more_eq:
  assumes "world.more s' = world.more s"
  shows "cpu_vendor s' = cpu_vendor s" "cpu_flashSize s' = cpu_flashSize s"
  using assms by (cases s; cases s'; simp)+

end
