(* ===== verification/Registers.thy ===== *)
theory Registers
  imports BootPrelude
begin

text \<open>
  Registers that read back what was written to them (clock unit, port configuration, remapping):
  the locale \<open>plain_registers\<close>, and a hardware in which every word is such a register.
\<close>

text \<open>Documented behaviour of configuration registers: reading has no effect, a write is read
  back. \<open>regs\<close> is what they hold.\<close>

locale plain_registers =
  fixes b :: "'h bus" and regs :: "'h \<Rightarrow> u32 \<Rightarrow> u32" and R :: "u32 set"
  assumes reg_value: "a \<in> R \<Longrightarrow> fst (ld32 b a h) = regs h a"
    and reg_load: "a \<in> R \<Longrightarrow> regs (snd (ld32 b a h)) = regs h"
    and reg_store: "a \<in> R \<Longrightarrow> regs (st32 b a v h) = (regs h)(a := v)"
begin

lemmas regs_simps = reg_value reg_load reg_store

end

text \<open>The hardware in which every word is such a register.\<close>

definition reg_bus :: "(u32 \<Rightarrow> u32) bus" where
  "reg_bus =
     \<lparr>ld8 = (\<lambda>a h. (ucast (h a), h)), ld16 = (\<lambda>a h. (ucast (h a), h)), ld32 = (\<lambda>a h. (h a, h)),
      st8 = (\<lambda>a v h. h(a := ucast v)), st16 = (\<lambda>a v h. h(a := ucast v)), st32 = (\<lambda>a v h. h(a := v))\<rparr>"

interpretation plain: plain_registers reg_bus "\<lambda>h. h" R for R
  by unfold_locales (simp_all add: reg_bus_def)

end
