(* ===== verification/Rcu.thy ===== *)
theory Rcu
  imports CpuId Registers
begin

text \<open>
  \<open>esprit_mini/lnRCU.cpp\<close> with \<open>lnRCU.h\<close>, \<open>lnRCU_priv.h\<close> and \<open>lnPeripherals.h\<close>: enabling,
  disabling and resetting peripherals through the clock unit's registers, and the ADC prescaler.
\<close>

section \<open>Registers and peripherals\<close>

datatype LN_RCUx =
    RCU_CTL | RCU_CFG0 | RCU_INT | RCU_APB2RST | RCU_APB1RST | RCU_AHBEN | RCU_APB2EN
  | RCU_APB1EN | RCU_BDCTL | RCU_RSTCLK | RCU_AHBRST | RCU_CFG1 | RCU_DSV

text \<open>\<open>LN_RCU_ADR\<close> plus the field's offset.\<close>

fun rcu_reg :: "LN_RCUx \<Rightarrow> u32" where
  "rcu_reg RCU_CTL = 0x40021000"
| "rcu_reg RCU_CFG0 = 0x40021004"
| "rcu_reg RCU_INT = 0x40021008"
| "rcu_reg RCU_APB2RST = 0x4002100C"
| "rcu_reg RCU_APB1RST = 0x40021010"
| "rcu_reg RCU_AHBEN = 0x40021014"
| "rcu_reg RCU_APB2EN = 0x40021018"
| "rcu_reg RCU_APB1EN = 0x4002101C"
| "rcu_reg RCU_BDCTL = 0x40021020"
| "rcu_reg RCU_RSTCLK = 0x40021024"
| "rcu_reg RCU_AHBRST = 0x40021028"
| "rcu_reg RCU_CFG1 = 0x4002102C"
| "rcu_reg RCU_DSV = 0x40021030"

datatype Peripherals =
    pNONE | pSPI0 | pSPI1 | pSPI2 | pUART0 | pUART1 | pUART2 | pUART3 | pUART4 | pI2C0 | pI2C1
  | pCAN0 | pCAN1 | pDAC | pPMU | pBKPI | pWWDGT | pTIMER0 | pTIMER1 | pTIMER2 | pTIMER3 | pTIMER4
  | pTIMER5 | pTIMER6 | pUSB | pADC0 | pADC1 | pGPIOA | pGPIOB | pGPIOC | pGPIOD | pGPIOE | pAF
  | pDMA0 | pDMA1 | pETHERNET | pUSBHS_CH32v3x | pUSBFS_OTG_CH32v3x | pAPB1 | pAPB2 | pSYSCLOCK

abbreviation LN_RCU_APB2_AFEN :: u32 where "LN_RCU_APB2_AFEN \<equiv> 0x1"
abbreviation LN_RCU_APB2_PAEN :: u32 where "LN_RCU_APB2_PAEN \<equiv> 0x4"
abbreviation LN_RCU_APB2_PBEN :: u32 where "LN_RCU_APB2_PBEN \<equiv> 0x8"
abbreviation LN_RCU_APB2_PCEN :: u32 where "LN_RCU_APB2_PCEN \<equiv> 0x10"
abbreviation LN_RCU_APB1_USBDEN :: u32 where "LN_RCU_APB1_USBDEN \<equiv> 0x800000"

section \<open>Enable, disable, reset\<close>

datatype rcu_action = RCU_RESET | RCU_ENABLE | RCU_DISABLE

text \<open>The first \<open>switch\<close>: the enable bit and whether it is in the APB1 registers; \<open>None\<close> is the
  early return for a peripheral the boot loader does not use.\<close>

fun rcu_bit :: "Peripherals \<Rightarrow> (u32 \<times> bool) option" where
  "rcu_bit pGPIOA = Some (LN_RCU_APB2_PAEN, False)"
| "rcu_bit pGPIOB = Some (LN_RCU_APB2_PBEN, False)"
| "rcu_bit pGPIOC = Some (LN_RCU_APB2_PCEN, False)"
| "rcu_bit pAF = Some (LN_RCU_APB2_AFEN, False)"
| "rcu_bit pUSB = Some (LN_RCU_APB1_USBDEN, True)"
| "rcu_bit _ = None"

definition rcuAction ::
  "'h bus \<Rightarrow> Peripherals \<Rightarrow> rcu_action \<Rightarrow> ('h, 'm) world_scheme \<Rightarrow> ('h, 'm) world_scheme" where
  "rcuAction b periph action s =
     (case rcu_bit periph of
        None \<Rightarrow> s
      | Some (enable_bit, is_apb1) \<Rightarrow>
          let en_reg = (if is_apb1 then rcu_reg RCU_APB1EN else rcu_reg RCU_APB2EN);
              rst_reg = (if is_apb1 then rcu_reg RCU_APB1RST else rcu_reg RCU_APB2RST)
          in case action of
               RCU_RESET \<Rightarrow>
                 mod32 b rst_reg (\<lambda>v. v AND NOT enable_bit) (mod32 b rst_reg (\<lambda>v. v OR enable_bit) s)
             | RCU_ENABLE \<Rightarrow> mod32 b en_reg (\<lambda>v. v OR enable_bit) s
             | RCU_DISABLE \<Rightarrow> mod32 b en_reg (\<lambda>v. v AND NOT enable_bit) s)"

definition lnPeripherals_reset ::
  "'h bus \<Rightarrow> Peripherals \<Rightarrow> ('h, 'm) world_scheme \<Rightarrow> ('h, 'm) world_scheme" where
  "lnPeripherals_reset b periph = rcuAction b periph RCU_RESET"

definition lnPeripherals_enable ::
  "'h bus \<Rightarrow> Peripherals \<Rightarrow> ('h, 'm) world_scheme \<Rightarrow> ('h, 'm) world_scheme" where
  "lnPeripherals_enable b periph = rcuAction b periph RCU_ENABLE"

definition lnPeripherals_disable ::
  "'h bus \<Rightarrow> Peripherals \<Rightarrow> ('h, 'm) world_scheme \<Rightarrow> ('h, 'm) world_scheme" where
  "lnPeripherals_disable b periph = rcuAction b periph RCU_DISABLE"

section \<open>The ADC prescaler\<close>

datatype lnADC_DIVIDER =
    lnADC_CLOCK_DIV_BY_2 | lnADC_CLOCK_DIV_BY_4 | lnADC_CLOCK_DIV_BY_6 | lnADC_CLOCK_DIV_BY_8
  | lnADC_CLOCK_DIV_BY_12 | lnADC_CLOCK_DIV_BY_16

fun adc_code :: "lnADC_DIVIDER \<Rightarrow> u32" where
  "adc_code lnADC_CLOCK_DIV_BY_2 = 0"
| "adc_code lnADC_CLOCK_DIV_BY_4 = 1"
| "adc_code lnADC_CLOCK_DIV_BY_6 = 2"
| "adc_code lnADC_CLOCK_DIV_BY_8 = 3"
| "adc_code lnADC_CLOCK_DIV_BY_12 = 5"
| "adc_code lnADC_CLOCK_DIV_BY_16 = 7"

definition LN_RCU_ADC_PRESCALER_MASK :: u32 where
  "LN_RCU_ADC_PRESCALER_MASK = NOT (push_bit 28 1 + push_bit 14 3)"

definition LN_RCU_ADC_PRESCALER_LOWBIT :: "u32 \<Rightarrow> u32" where
  "LN_RCU_ADC_PRESCALER_LOWBIT x = push_bit 14 (x AND 3)"

abbreviation LN_RCU_ADC_PRESCALER_HIGHBIT :: u32 where "LN_RCU_ADC_PRESCALER_HIGHBIT \<equiv> 0x10000000"

definition setAdcDivider ::
  "'h bus \<Rightarrow> lnADC_DIVIDER \<Rightarrow> ('h, 'm) cpu_world_scheme \<Rightarrow> ('h, 'm) cpu_world_scheme" where
  "setAdcDivider b divider s =
     (let (v0, s1) = rd32 b (rcu_reg RCU_CFG0) s;
          v = v0 AND LN_RCU_ADC_PRESCALER_MASK;
          r = adc_code divider;
          v' = (if r AND 4 \<noteq> 0 then
                  if lnCpuID_vendor s1 = LN_VENDOR_GD
                  then v OR LN_RCU_ADC_PRESCALER_HIGHBIT OR LN_RCU_ADC_PRESCALER_LOWBIT (r AND 3)
                  else v OR LN_RCU_ADC_PRESCALER_LOWBIT (adc_code lnADC_CLOCK_DIV_BY_8)
                else v OR LN_RCU_ADC_PRESCALER_LOWBIT r)
      in wr32 b (rcu_reg RCU_CFG0) v' s1)"

section \<open>What they leave alone\<close>

lemma more_rcuAction [simp]: "world.more (rcuAction b p a s) = world.more s"
  by (auto simp: rcuAction_def Let_def split: option.splits rcu_action.splits)

lemma more_lnPeripherals [simp]:
  "world.more (lnPeripherals_reset b p s) = world.more s"
  "world.more (lnPeripherals_enable b p s) = world.more s"
  "world.more (lnPeripherals_disable b p s) = world.more s"
  by (simp_all add: lnPeripherals_reset_def lnPeripherals_enable_def lnPeripherals_disable_def)

section \<open>Properties\<close>

definition rcu_regs :: "u32 set" where
  "rcu_regs = {0x4002100C, 0x40021010, 0x40021018, 0x4002101C}"

lemma rcu_regsD:
  assumes "rcu_regs \<subseteq> R"
  shows "0x4002100C \<in> R" "0x40021010 \<in> R" "0x40021018 \<in> R" "0x4002101C \<in> R"
  using assms by (auto simp: rcu_regs_def)

lemma or_and_not: "(v OR e) AND NOT e = v AND NOT e" for v e :: u32
  by (rule bit_word_eqI) (auto simp: bit_simps)

context plain_registers begin

lemma enable_regs:
  assumes "rcu_regs \<subseteq> R" "rcu_bit p = Some (e, apb1)"
  shows "regs (hw (lnPeripherals_enable b p s)) =
    (regs (hw s))(if apb1 then 0x4002101C else 0x40021018 :=
      regs (hw s) (if apb1 then 0x4002101C else 0x40021018) OR e)"
  using assms(2) rcu_regsD [OF assms(1)]
  by (cases apb1) (simp_all add: lnPeripherals_enable_def rcuAction_def Let_def regs_simps)

lemma reset_regs:
  assumes "rcu_regs \<subseteq> R" "rcu_bit p = Some (e, apb1)"
  shows "regs (hw (lnPeripherals_reset b p s)) =
    (regs (hw s))(if apb1 then 0x40021010 else 0x4002100C :=
      (regs (hw s) (if apb1 then 0x40021010 else 0x4002100C)) AND NOT e)"
  using assms(2) rcu_regsD [OF assms(1)]
  by (cases apb1) (simp_all add: lnPeripherals_reset_def rcuAction_def Let_def regs_simps or_and_not)

lemma disable_regs:
  assumes "rcu_regs \<subseteq> R" "rcu_bit p = Some (e, apb1)"
  shows "regs (hw (lnPeripherals_disable b p s)) =
    (regs (hw s))(if apb1 then 0x4002101C else 0x40021018 :=
      regs (hw s) (if apb1 then 0x4002101C else 0x40021018) AND NOT e)"
  using assms(2) rcu_regsD [OF assms(1)]
  by (cases apb1) (simp_all add: lnPeripherals_disable_def rcuAction_def Let_def regs_simps)

end

context guarded_bus begin

lemma rcuAction_P:
  assumes "P (hw s)" "\<And>a v. a \<in> rcu_regs \<Longrightarrow> G (St32 a v)"
  shows "P (hw (rcuAction b p act s))"
proof (cases "rcu_bit p")
  case (Some r)
  obtain e apb1 where r: "r = (e, apb1)" by fastforce
  show ?thesis using Some assms
    by (cases apb1; cases act) (simp_all add: rcuAction_def Let_def r rcu_regs_def st32_P ld32_P)
qed (use assms in \<open>simp add: rcuAction_def\<close>)

end

section \<open>Properties\<close>

text \<open>On a clock unit whose enable and reset registers read back what was written, enabling
  a peripheral sets its one enable bit, disabling clears it, and the reset pulse leaves only its
  reset bit cleared; no other register changes.\<close>

theorem rcu_actions:
  assumes "plain_registers b regs R" "rcu_regs \<subseteq> R" "rcu_bit p = Some (e, is_apb)"
  shows "regs (hw (lnPeripherals_enable b p s)) =
      (regs (hw s))(if is_apb then 0x4002101C else 0x40021018 :=
        regs (hw s) (if is_apb then 0x4002101C else 0x40021018) OR e) \<and>
    regs (hw (lnPeripherals_disable b p s)) =
      (regs (hw s))(if is_apb then 0x4002101C else 0x40021018 :=
        regs (hw s) (if is_apb then 0x4002101C else 0x40021018) AND NOT e) \<and>
    regs (hw (lnPeripherals_reset b p s)) =
      (regs (hw s))(if is_apb then 0x40021010 else 0x4002100C :=
        (regs (hw s) (if is_apb then 0x40021010 else 0x4002100C)) AND NOT e)"
  by (intro conjI plain_registers.enable_regs plain_registers.disable_regs
      plain_registers.reset_regs) (rule assms)+

lemma rcu_actions_witness:
  "hw (lnPeripherals_enable reg_bus pUSB \<lparr>hw = (\<lambda>a. 1)\<rparr>) = (\<lambda>a. 1)(0x4002101C := 0x800001)"
  using rcu_actions [OF plain.plain_registers_axioms, where R = UNIV and p = pUSB and e = "0x800000"
      and is_apb = True and s = "\<lparr>hw = (\<lambda>a. 1)\<rparr>"]
  by simp

end
