(* ===== verification/Gpio.thy ===== *)
theory Gpio
  imports Registers
begin

text \<open>
  \<open>esprit_mini/lnGPIO.cpp\<close> with \<open>lnGPIO.h\<close>, \<open>lnGPIO_priv.h\<close>, \<open>lnGPIO_pins.h\<close> and
  \<open>lnFastGpio.h\<close>. A result \<open>None\<close> is a failed \<open>xAssert\<close>, which never returns, or an access outside
  the table of ports.
\<close>

section \<open>Pins and ports\<close>

text \<open>\<open>enum lnPin\<close>: sixteen pins per port, \<open>PA0 = 0\<close>, \<open>PB0 = 16\<close>, and so on; \<open>NoPin = -1\<close>.\<close>

datatype port_letter = PortA | PortB | PortC | PortD | PortE

fun lnPin :: "port_letter \<Rightarrow> int \<Rightarrow> int" where
  "lnPin PortA n = n"
| "lnPin PortB n = 16 + n"
| "lnPin PortC n = 32 + n"
| "lnPin PortD n = 48 + n"
| "lnPin PortE n = 64 + n"

abbreviation NoPin :: int where "NoPin \<equiv> -1"

datatype LN_GPIOx = GPIO_CTL0 | GPIO_CTL1 | GPIO_ISTAT | GPIO_OCTL | GPIO_BOP | GPIO_BC | GPIO_LOCK

fun gpio_offset :: "LN_GPIOx \<Rightarrow> u32" where
  "gpio_offset GPIO_CTL0 = 0x00"
| "gpio_offset GPIO_CTL1 = 0x04"
| "gpio_offset GPIO_ISTAT = 0x08"
| "gpio_offset GPIO_OCTL = 0x0C"
| "gpio_offset GPIO_BOP = 0x10"
| "gpio_offset GPIO_BC = 0x14"
| "gpio_offset GPIO_LOCK = 0x18"

definition gpio :: "u32 list" where
  "gpio = [0x40010800, 0x40010C00, 0x40011000, 0x40011400, 0x40011800]"

definition gpios :: "u32 list" where
  "gpios = [0x40010800, 0x40010C00, 0x40011000]"

text \<open>\<open>gpio[xpin >> 4]\<close>; the shift of a negative pin gives a negative index.\<close>

definition port_of :: "int \<Rightarrow> u32 option" where
  "port_of xpin = (if 0 \<le> xpin \<and> xpin div 16 < 5 then Some (gpio ! nat (xpin div 16)) else None)"

definition pin_of :: "int \<Rightarrow> nat" where
  "pin_of xpin = nat (xpin mod 16)"

section \<open>Modes\<close>

datatype lnGpioMode =
    lnFLOATING | lnINPUT_FLOATING | lnINPUT_PULLUP | lnINPUT_PULLDOWN | lnOUTPUT
  | lnOUTPUT_OPEN_DRAIN | lnALTERNATE_PP | lnALTERNATE_OD | lnPWM | lnADC_MODE | lnDAC_MODE
  | lnUART | lnSPI_MODE | lnUART_Alt

abbreviation SPEED_50MHZ :: u32 where "SPEED_50MHZ \<equiv> 3"
abbreviation SPEED_10MHZ :: u32 where "SPEED_10MHZ \<equiv> 1"
abbreviation SPEED_2MHZ :: u32 where "SPEED_2MHZ \<equiv> 2"
abbreviation LN_CTL_MD_INPUT :: u32 where "LN_CTL_MD_INPUT \<equiv> 0"
abbreviation LN_CTL_INPUT_ANALOG :: u32 where "LN_CTL_INPUT_ANALOG \<equiv> 0"
abbreviation LN_CTL_INPUT_FLOATING :: u32 where "LN_CTL_INPUT_FLOATING \<equiv> 1"
abbreviation LN_CTL_INPUT_PULLUPPULLDOWN :: u32 where "LN_CTL_INPUT_PULLUPPULLDOWN \<equiv> 2"
abbreviation LN_CTL_OUTPUT_PP :: u32 where "LN_CTL_OUTPUT_PP \<equiv> 0"
abbreviation LN_CTL_OUTPUT_OD :: u32 where "LN_CTL_OUTPUT_OD \<equiv> 1"
abbreviation LN_CTL_OUTPUT_ALTERNAT_PP :: u32 where "LN_CTL_OUTPUT_ALTERNAT_PP \<equiv> 2"
abbreviation LN_CTL_OUTPUT_ALTERNAT_OD :: u32 where "LN_CTL_OUTPUT_ALTERNAT_OD \<equiv> 3"

definition LNGPIOSET :: "u32 \<Rightarrow> u32 \<Rightarrow> u32" where
  "LNGPIOSET md ctl = push_bit 2 ctl + md"

text \<open>
  Two local variables of \<open>lnPinMode\<close> are read before they are set: \<open>speed\<close> in its own first
  condition, and \<open>value\<close> after \<open>lnSPI_MODE\<close>. Their contents are arguments (\<open>speed0\<close>, \<open>value0\<close>).
\<close>

definition pin_speed :: "u32 \<Rightarrow> u32 \<Rightarrow> u32" where
  "pin_speed speed0 speedInMhz =
     (if speedInMhz = 0 \<or> speed0 \<ge> 50 then SPEED_50MHZ
      else if speedInMhz \<ge> 10 then SPEED_10MHZ
      else SPEED_2MHZ)"

text \<open>The \<open>switch\<close>: the bits of the mode, and the value stored in BOP beforehand for the two pulled
  inputs.\<close>

fun mode_value :: "u32 \<Rightarrow> u32 \<Rightarrow> nat \<Rightarrow> lnGpioMode \<Rightarrow> (u32 \<times> u32 option) option" where
  "mode_value speed value0 pin lnDAC_MODE = Some (LNGPIOSET LN_CTL_MD_INPUT LN_CTL_INPUT_ANALOG, None)"
| "mode_value speed value0 pin lnADC_MODE = Some (LNGPIOSET LN_CTL_MD_INPUT LN_CTL_INPUT_ANALOG, None)"
| "mode_value speed value0 pin lnFLOATING = Some (LNGPIOSET LN_CTL_MD_INPUT LN_CTL_INPUT_FLOATING, None)"
| "mode_value speed value0 pin lnINPUT_FLOATING = Some (LNGPIOSET LN_CTL_MD_INPUT LN_CTL_INPUT_FLOATING, None)"
| "mode_value speed value0 pin lnINPUT_PULLUP =
     Some (LNGPIOSET LN_CTL_MD_INPUT LN_CTL_INPUT_PULLUPPULLDOWN, Some (push_bit pin 1))"
| "mode_value speed value0 pin lnINPUT_PULLDOWN =
     Some (LNGPIOSET LN_CTL_MD_INPUT LN_CTL_INPUT_PULLUPPULLDOWN, Some (push_bit (16 + pin) 1))"
| "mode_value speed value0 pin lnOUTPUT = Some (LNGPIOSET speed LN_CTL_OUTPUT_PP, None)"
| "mode_value speed value0 pin lnOUTPUT_OPEN_DRAIN = Some (LNGPIOSET speed LN_CTL_OUTPUT_OD, None)"
| "mode_value speed value0 pin lnSPI_MODE = Some (value0, None)"
| "mode_value speed value0 pin lnPWM = Some (LNGPIOSET speed LN_CTL_OUTPUT_ALTERNAT_PP, None)"
| "mode_value speed value0 pin lnALTERNATE_PP = Some (LNGPIOSET speed LN_CTL_OUTPUT_ALTERNAT_PP, None)"
| "mode_value speed value0 pin lnALTERNATE_OD = Some (LNGPIOSET speed LN_CTL_OUTPUT_ALTERNAT_OD, None)"
| "mode_value speed value0 pin lnUART = None"
| "mode_value speed value0 pin lnUART_Alt = None"

definition lnPinMode ::
  "u32 \<Rightarrow> u32 \<Rightarrow> 'h bus \<Rightarrow> int \<Rightarrow> lnGpioMode \<Rightarrow> u32 \<Rightarrow> ('h, 'm) world_scheme \<Rightarrow> ('h, 'm) world_scheme option" where
  "lnPinMode speed0 value0 b xpin mode speedInMhz s = do {
     port \<leftarrow> port_of xpin;
     let pin = pin_of xpin;
     (val, bop) \<leftarrow> mode_value (pin_speed speed0 speedInMhz) value0 pin mode;
     let s1 = (case bop of None \<Rightarrow> s | Some v \<Rightarrow> wr32 b (port + gpio_offset GPIO_BOP) v s);
     let ctl = port + (if 7 < pin then gpio_offset GPIO_CTL1 else gpio_offset GPIO_CTL0);
     let p = pin mod 8;
     let (ref, s2) = rd32 b ctl s1;
     Some (wr32 b ctl ((ref AND NOT (push_bit (p * 4) 0x0f)) OR push_bit (p * 4) val) s2)
   }"

section \<open>Digital input and output\<close>

definition lnDigitalWrite :: "'h bus \<Rightarrow> int \<Rightarrow> bool \<Rightarrow> ('h, 'm) world_scheme \<Rightarrow> ('h, 'm) world_scheme option" where
  "lnDigitalWrite b pin val s = do {
     port \<leftarrow> port_of pin;
     let radix = (if val then 1 else 0x10000 :: u32);
     Some (wr32 b (port + gpio_offset GPIO_BOP) (push_bit (pin_of pin) radix) s)
   }"

definition lnOpenDrainClose :: "'h bus \<Rightarrow> int \<Rightarrow> bool \<Rightarrow> ('h, 'm) world_scheme \<Rightarrow> ('h, 'm) world_scheme option" where
  "lnOpenDrainClose b pin close = lnDigitalWrite b pin (\<not> close)"

definition lnDigitalToggle :: "'h bus \<Rightarrow> int \<Rightarrow> ('h, 'm) world_scheme \<Rightarrow> ('h, 'm) world_scheme option" where
  "lnDigitalToggle b pin s = do {
     port \<leftarrow> port_of pin;
     Some (mod32 b (port + gpio_offset GPIO_OCTL) (\<lambda>v. v XOR push_bit (pin_of pin) 1) s)
   }"

definition lnDigitalRead :: "'h bus \<Rightarrow> int \<Rightarrow> ('h, 'm) world_scheme \<Rightarrow> (bool \<times> ('h, 'm) world_scheme) option" where
  "lnDigitalRead b pin s = do {
     port \<leftarrow> port_of pin;
     let (v, s') = rd32 b (port + gpio_offset GPIO_ISTAT) s;
     Some (v AND push_bit (pin_of pin) 1 \<noteq> 0, s')
   }"

definition lnReadPort :: "'h bus \<Rightarrow> nat \<Rightarrow> ('h, 'm) world_scheme \<Rightarrow> (u32 \<times> ('h, 'm) world_scheme) option" where
  "lnReadPort b port s =
     (if port < 3 then Some (rd32 b (gpios ! port + gpio_offset GPIO_ISTAT) s) else None)"

definition lnGetGpioToggleRegister :: "nat \<Rightarrow> u32 option" where
  "lnGetGpioToggleRegister port = (if port < 3 then Some (gpios ! port + gpio_offset GPIO_BOP) else None)"

definition lnGetGpioDirectionRegister :: "nat \<Rightarrow> u32 option" where
  "lnGetGpioDirectionRegister port = (if port < 3 then Some (gpios ! port + gpio_offset GPIO_CTL0) else None)"

definition lnGetGpioValueRegister :: "nat \<Rightarrow> u32 option" where
  "lnGetGpioValueRegister port = (if port < 3 then Some (gpios ! port + gpio_offset GPIO_OCTL) else None)"

section \<open>Timer remapping\<close>

datatype LnRemapTimer = NoRemap | PartialRemap | FullRemap

fun remap_code :: "LnRemapTimer \<Rightarrow> u32" where
  "remap_code NoRemap = 0"
| "remap_code PartialRemap = 1"
| "remap_code FullRemap = 3"

abbreviation AFIO_PCF0 :: u32 where "AFIO_PCF0 \<equiv> 0x40010004"

definition TimerMaskArray :: "nat list" where
  "TimerMaskArray = [6, 8, 10, 0]"

definition lnRemapTimerPin :: "'h bus \<Rightarrow> u32 \<Rightarrow> LnRemapTimer \<Rightarrow> ('h, 'm) world_scheme \<Rightarrow> ('h, 'm) world_scheme option" where
  "lnRemapTimerPin b timer mp s =
     (if timer > 2 then None
      else
        let pos = TimerMaskArray ! unat timer;
            m = (if timer = 2 \<and> mp = PartialRemap then 2 else remap_code mp)
        in Some (mod32 b AFIO_PCF0 (\<lambda>v. (v AND NOT (push_bit pos 3)) OR push_bit pos m) s))"

section \<open>lnFastIO\<close>

text \<open>The class holds the port's BOP register and the two words that set and clear the pin.\<close>

record lnFastIO =
  onoff :: u32
  onbit :: u32
  offbit :: u32

definition lnFastIO_new ::
  "u32 \<Rightarrow> u32 \<Rightarrow> 'h bus \<Rightarrow> int \<Rightarrow> ('h, 'm) world_scheme \<Rightarrow> (lnFastIO \<times> ('h, 'm) world_scheme) option" where
  "lnFastIO_new speed0 value0 b pin s = do {
     s1 \<leftarrow> lnPinMode speed0 value0 b pin lnOUTPUT 0 s;
     port \<leftarrow> port_of pin;
     let bt = push_bit (pin_of pin) (1 :: u32);
     Some (\<lparr>onoff = port + gpio_offset GPIO_BOP, onbit = bt, offbit = push_bit 16 bt\<rparr>, s1)
   }"

definition fastio_on :: "'h bus \<Rightarrow> lnFastIO \<Rightarrow> ('h, 'm) world_scheme \<Rightarrow> ('h, 'm) world_scheme" where
  "fastio_on b io = wr32 b (onoff io) (onbit io)"

definition fastio_off :: "'h bus \<Rightarrow> lnFastIO \<Rightarrow> ('h, 'm) world_scheme \<Rightarrow> ('h, 'm) world_scheme" where
  "fastio_off b io = wr32 b (onoff io) (offbit io)"

definition fastio_pulseLow :: "'h bus \<Rightarrow> lnFastIO \<Rightarrow> ('h, 'm) world_scheme \<Rightarrow> ('h, 'm) world_scheme" where
  "fastio_pulseLow b io s = fastio_on b io (fastio_off b io s)"

definition fastio_pulseHigh :: "'h bus \<Rightarrow> lnFastIO \<Rightarrow> ('h, 'm) world_scheme \<Rightarrow> ('h, 'm) world_scheme" where
  "fastio_pulseHigh b io s = fastio_off b io (fastio_on b io s)"

section \<open>What they leave alone\<close>

lemma more_lnPinMode [frame]:
  "lnPinMode sp v0 b pin md mhz s = Some s' \<Longrightarrow> world.more s' = world.more s"
  by (auto simp: lnPinMode_def Let_def bind_eq_Some_conv case_prod_beta split: option.splits)

lemma more_lnDigitalWrite [frame]:
  "lnDigitalWrite b pin v s = Some s' \<Longrightarrow> world.more s' = world.more s"
  by (auto simp: lnDigitalWrite_def Let_def bind_eq_Some_conv)

section \<open>Properties\<close>

text \<open>The four bits of one pin in its configuration register.\<close>

definition pin_field :: "nat \<Rightarrow> u32" where
  "pin_field pin = push_bit (pin mod 8 * 4) 0xF"

definition config_reg :: "u32 \<Rightarrow> nat \<Rightarrow> u32" where
  "config_reg port pin = port + (if 7 < pin then 4 else 0)"

lemma pin_of_lt: "pin_of x < 16"
  by (simp add: pin_of_def nat_less_iff)

lemma field_insert:
  fixes v :: u32
  assumes "val < 16" "p < 8"
  shows "((ref AND NOT (push_bit (p * 4) 0x0f)) OR push_bit (p * 4) val) AND push_bit (p * 4) 0x0f = push_bit (p * 4) (val :: u32)"
    "((ref AND NOT (push_bit (p * 4) 0x0f)) OR push_bit (p * 4) val) AND NOT (push_bit (p * 4) 0x0f) = ref AND NOT (push_bit (p * 4) 0x0f)"
proof -
  have m: "(0x0f :: u32) = mask 4" by (simp add: mask_eq_exp_minus_1)
  have v: "take_bit 4 val = val"
    using assms(1)
    by (intro unsigned_word_eqI [where 'a = nat])
      (simp add: unsigned_take_bit_eq take_bit_nat_eq_self word_less_nat_alt)
  have b: "bit val n \<Longrightarrow> n < 4" for n
    using arg_cong [OF v, of "\<lambda>x. bit x n"] by (simp add: bit_simps)
  show "((ref AND NOT (push_bit (p * 4) 0x0f)) OR push_bit (p * 4) val) AND push_bit (p * 4) 0x0f = push_bit (p * 4) (val :: u32)"
    unfolding m by (rule bit_word_eqI) (auto simp: bit_simps dest: b)
  show "((ref AND NOT (push_bit (p * 4) 0x0f)) OR push_bit (p * 4) val) AND NOT (push_bit (p * 4) 0x0f) = ref AND NOT (push_bit (p * 4) 0x0f)"
    unfolding m by (rule bit_word_eqI) (auto simp: bit_simps dest: b)
qed

lemma mode_value_lt:
  assumes "mode_value (pin_speed sp mhz) v0 pin md = Some (val, bop)" "md \<noteq> lnSPI_MODE"
  shows "val < 16"
  using assms by (cases md) (auto simp: LNGPIOSET_def pin_speed_def split: if_splits)

text \<open>Configuring a pin stores once in its configuration register and changes the four bits of
  that pin only, to the bits of the mode; before that at most one store goes to the set/reset
  register, for the pulled inputs. (Not for \<open>lnSPI_MODE\<close>, where the value is indeterminate.)\<close>

theorem lnPinMode_field:
  assumes "lnPinMode sp v0 b pin md mhz s = Some s'" "md \<noteq> lnSPI_MODE"
  shows "\<exists>port val bop s1 old s2 v.
    port_of pin = Some port \<and>
    mode_value (pin_speed sp mhz) v0 (pin_of pin) md = Some (val, bop) \<and>
    s1 = (case bop of None \<Rightarrow> s | Some w \<Rightarrow> wr32 b (port + gpio_offset GPIO_BOP) w s) \<and>
    rd32 b (config_reg port (pin_of pin)) s1 = (old, s2) \<and>
    s' = wr32 b (config_reg port (pin_of pin)) v s2 \<and>
    v AND NOT (pin_field (pin_of pin)) = old AND NOT (pin_field (pin_of pin)) \<and>
    v AND pin_field (pin_of pin) = push_bit (pin_of pin mod 8 * 4) val"
proof -
  obtain port where port: "port_of pin = Some port"
    using assms(1) by (auto simp: lnPinMode_def bind_eq_Some_conv)
  obtain val bop where val: "mode_value (pin_speed sp mhz) v0 (pin_of pin) md = Some (val, bop)"
    using assms(1) by (auto simp: lnPinMode_def bind_eq_Some_conv Let_def)
  define s1 where "s1 = (case bop of None \<Rightarrow> s | Some w \<Rightarrow> wr32 b (port + gpio_offset GPIO_BOP) w s)"
  obtain old s2 where rd: "rd32 b (config_reg port (pin_of pin)) s1 = (old, s2)" by fastforce
  let ?v = "(old AND NOT (push_bit (pin_of pin mod 8 * 4) 0x0f)) OR push_bit (pin_of pin mod 8 * 4) val"
  have "s' = wr32 b (config_reg port (pin_of pin)) ?v s2"
    using assms(1) rd
    by (simp add: lnPinMode_def port val Let_def s1_def [symmetric] config_reg_def split: if_splits)
  moreover note field_insert [OF mode_value_lt [OF val assms(2)], of "pin_of pin mod 8" old]
  ultimately show ?thesis
    using port val rd s1_def unfolding pin_field_def by (intro exI conjI) (assumption | simp)+
qed

lemma lnPinMode_field_witness:
  "\<exists>s' old s2 v. lnPinMode 7 7 reg_bus 45 lnOUTPUT 0 \<lparr>hw = (\<lambda>a. 0x44444444)\<rparr> = Some s' \<and>
     s' = wr32 reg_bus 0x40011004 v s2 \<and> v AND NOT 0xF00000 = old AND NOT 0xF00000 \<and>
     v AND 0xF00000 = 0x300000"
proof -
  have "\<exists>s'. lnPinMode 7 7 reg_bus 45 lnOUTPUT 0 \<lparr>hw = (\<lambda>a. 0x44444444)\<rparr> = Some s'"
    by (simp add: lnPinMode_def port_of_def Let_def case_prod_beta)
  then obtain s' where s': "lnPinMode 7 7 reg_bus 45 lnOUTPUT 0 \<lparr>hw = (\<lambda>a. 0x44444444)\<rparr> = Some s'" ..
  show ?thesis
    using lnPinMode_field [OF s'] s'
    by (auto simp: port_of_def pin_of_def gpio_def config_reg_def pin_field_def pin_speed_def LNGPIOSET_def)
qed

end
