(* ===== verification/Stage1.thy ===== *)
theory Stage1
  imports Soc Rcu Gpio CpuId BootConfig
begin

text \<open>
  \<open>src_stage1/main.cpp\<close> and \<open>ch32_crc.c\<close>: the first stage, which starts the application when its
  image is intact and the second stage otherwise. The second stage is generated code
  (\<open>stage2_payload.h\<close>): its bytes are the parameter \<open>payload\<close>.
\<close>

section \<open>State\<close>

record 'h stage1_world = "'h cpu_world" +
  go_dfu :: u32

abbreviation FORCE_DFU_IO :: int where "FORCE_DFU_IO \<equiv> lnPin PortB 14"
abbreviation FLASH_START_ADDR :: u32 where "FLASH_START_ADDR \<equiv> 0x8000000"
abbreviation RAM_START_ADDR :: u32 where "RAM_START_ADDR \<equiv> 0x20000000"
abbreviation VTOR_ADDR :: u32 where "VTOR_ADDR \<equiv> 0xE000ED08"
abbreviation MARKER_MAGIC :: u64 where "MARKER_MAGIC \<equiv> 0xDEADBEEFCC00FFEE"

section \<open>The marker\<close>

text \<open>A 64-bit access is two words, the low one first.\<close>

definition mk64 :: "u32 \<Rightarrow> u32 \<Rightarrow> u64" where
  "mk64 l h = ucast l OR push_bit 32 (ucast h)"

definition rd64 :: "'h bus \<Rightarrow> u32 \<Rightarrow> ('h, 'm) world_scheme \<Rightarrow> u64 \<times> ('h, 'm) world_scheme" where
  "rd64 b a s =
     (let (l, s1) = rd32 b a s; (h, s2) = rd32 b (a + 4) s1 in (mk64 l h, s2))"

definition wr64 :: "'h bus \<Rightarrow> u32 \<Rightarrow> u64 \<Rightarrow> ('h, 'm) world_scheme \<Rightarrow> ('h, 'm) world_scheme" where
  "wr64 b a v s = wr32 b (a + 4) (ucast (drop_bit 32 v)) (wr32 b a (ucast v) s)"

definition reboot_into_bootloader :: "'h bus \<Rightarrow> ('h, 'm) world_scheme \<Rightarrow> ('h, 'm) world_scheme" where
  "reboot_into_bootloader b = wr64 b RAM_START_ADDR MARKER_MAGIC"

definition clear_reboot_flags :: "'h bus \<Rightarrow> ('h, 'm) world_scheme \<Rightarrow> ('h, 'm) world_scheme" where
  "clear_reboot_flags b = wr64 b RAM_START_ADDR 0"

definition rebooted_into_dfu :: "'h bus \<Rightarrow> ('h, 'm) world_scheme \<Rightarrow> bool \<times> ('h, 'm) world_scheme" where
  "rebooted_into_dfu b s = (let (m, s') = rd64 b RAM_START_ADDR s in (m = MARKER_MAGIC, s'))"

section \<open>Leaving the first stage\<close>

text \<open>What the processor goes on with: both stack pointers and the program counter.\<close>

record jump =
  msp :: u32
  psp :: u32
  pc :: u32

definition chain_to :: "'h bus \<Rightarrow> u32 \<Rightarrow> ('h, 'm) world_scheme \<Rightarrow> jump \<times> ('h, 'm) world_scheme" where
  "chain_to b addr s =
     (let s1 = wr32 b VTOR_ADDR addr s;
          (sp, s2) = rd32 b addr s1;
          (entry, s3) = rd32 b (addr + 4) s2
      in (\<lparr>msp = sp, psp = sp, pc = entry\<rparr>, s3))"

section \<open>The checksum\<close>

abbreviation AHBPCENR :: u32 where "AHBPCENR \<equiv> 0x40021014"
abbreviation CRC_DATA :: u32 where "CRC_DATA \<equiv> 0x40023000"
abbreviation CRC_CONTROL :: u32 where "CRC_CONTROL \<equiv> 0x40023008"

partial_function (option) crc_loop ::
  "'h bus \<Rightarrow> u32 \<Rightarrow> u32 \<Rightarrow> ('h, 'm) world_scheme \<Rightarrow> ('h, 'm) world_scheme option" where
  "crc_loop b lim p s =
     (if p < lim then
        (let (v, s1) = rd32 b p s in crc_loop b lim (p + 4) (wr32 b CRC_DATA v s1))
      else Some s)"

definition ch32_crc ::
  "'h bus \<Rightarrow> u32 \<Rightarrow> u32 \<Rightarrow> ('h, 'm) world_scheme \<Rightarrow> (u32 \<times> ('h, 'm) world_scheme) option" where
  "ch32_crc b addr len_in_u32 s =
     (let s1 = mod32 b AHBPCENR (\<lambda>v. v OR push_bit 6 1) s;
          s2 = wr32 b CRC_CONTROL 1 s1;
          lim = addr + 4 * len_in_u32
      in map_option (rd32 b CRC_DATA) (crc_loop b lim addr s2))"

section \<open>The first stage\<close>

definition lnExtiSWDOnly :: "'h bus \<Rightarrow> ('h, 'm) world_scheme \<Rightarrow> ('h, 'm) world_scheme" where
  "lnExtiSWDOnly b s =
     (let s1 = mod32 b AFIO_PCF0 (\<lambda>v. (v AND NOT (push_bit 24 7)) OR push_bit 24 0) s
      in mod32 b AFIO_PCF0 (\<lambda>v. (v AND NOT (push_bit 8 3)) OR push_bit 8 1) s1)"

text \<open>\<open>memcpy\<close> of a constant array.\<close>

fun copy_bytes :: "'h bus \<Rightarrow> u32 \<Rightarrow> u8 list \<Rightarrow> ('h, 'm) world_scheme \<Rightarrow> ('h, 'm) world_scheme" where
  "copy_bytes b a [] s = s"
| "copy_bytes b a (x # xs) s = copy_bytes b (a + 1) xs (wr8 b a x s)"

text \<open>\<open>main\<close> in three parts: what forces the second stage before the image is looked at
  (\<open>stage1_probe\<close>, which also returns words 2 and 3 of the image), the check of the image, and the
  jump. \<open>FORCE_DFU_IO\<close> is an input, so what \<open>lnPinMode\<close> leaves indeterminate does not matter.\<close>

definition stage1_check ::
  "'h bus \<Rightarrow> u32 \<Rightarrow> u32 \<Rightarrow> u32 \<Rightarrow> ('h, 'm) stage1_world_scheme \<Rightarrow> ('h, 'm) stage1_world_scheme option" where
  "stage1_check b start_addr imageSize checksum s =
     (if go_dfu s = 0 then
        if imageSize < 256 * 1024 then
          if imageSize \<noteq> 0x1234 \<or> checksum \<noteq> 0x5678 then
            map_option (\<lambda>(computed, s1).
                if computed \<noteq> checksum then s1\<lparr>go_dfu := go_dfu s1 OR 4\<rparr> else s1)
              (ch32_crc b (start_addr + 16) (drop_bit 2 imageSize) s)
          else Some s
        else Some (s\<lparr>go_dfu := 1\<rparr>)
      else Some s)"

definition button_flag :: "bool \<Rightarrow> ('h, 'm) stage1_world_scheme \<Rightarrow> ('h, 'm) stage1_world_scheme" where
  "button_flag level s = (if \<not> level then s\<lparr>go_dfu := go_dfu s OR 1\<rparr> else s)"

definition stack_flag :: "u32 \<Rightarrow> ('h, 'm) stage1_world_scheme \<Rightarrow> ('h, 'm) stage1_world_scheme" where
  "stack_flag sig s =
     (if go_dfu s = 0 \<and> drop_bit 20 sig \<noteq> 0x200 then s\<lparr>go_dfu := go_dfu s OR 2\<rparr> else s)"

definition stage1_probe ::
  "u32 \<Rightarrow> u32 \<Rightarrow> 'h bus \<Rightarrow> u32 \<Rightarrow> ('h, 'm) stage1_world_scheme \<Rightarrow>
     ((u32 \<times> u32) \<times> ('h, 'm) stage1_world_scheme) option" where
  "stage1_probe speed0 value0 b start_addr s = do {
     let (sig, s) = rd32 b start_addr s;
     let (imageSize, s) = rd32 b (start_addr + 8) s;
     let (checksum, s) = rd32 b (start_addr + 12) s;
     let s = s\<lparr>go_dfu := 0\<rparr>;
     let (again, s) = rebooted_into_dfu b s;
     let s = s\<lparr>go_dfu := of_bool again\<rparr>;
     let s = lnExtiSWDOnly b (lnPeripherals_enable b pAF (lnPeripherals_enable b pGPIOC
               (lnPeripherals_enable b pGPIOB s)));
     s \<leftarrow> lnPinMode speed0 value0 b FORCE_DFU_IO lnINPUT_PULLUP 0 s;
     (level, s) \<leftarrow> lnDigitalRead b FORCE_DFU_IO s;
     let s = stack_flag sig (button_flag level s);
     let s = mod32 b RCC_CSR (\<lambda>v. v OR RCC_CSR_RMVF) s;
     Some ((imageSize, checksum), lnCpuID_identify b s)
   }"

definition stage1_boot ::
  "u8 list \<Rightarrow> 'h bus \<Rightarrow> ('h, 'm) stage1_world_scheme \<Rightarrow> jump \<times> ('h, 'm) stage1_world_scheme" where
  "stage1_boot payload b s =
     (let s1 = clear_reboot_flags b s
      in if go_dfu s1 = 0 then chain_to b (APP_ADDRESS AND NOT 0xF) s1
         else chain_to b RAM_START_ADDR (copy_bytes b RAM_START_ADDR payload s1))"

definition stage1_main ::
  "u32 \<Rightarrow> u32 \<Rightarrow> u8 list \<Rightarrow> 'h bus \<Rightarrow> ('h, 'm) stage1_world_scheme \<Rightarrow>
     (jump \<times> ('h, 'm) stage1_world_scheme) option" where
  "stage1_main speed0 value0 payload b s = do {
     let start_addr = FLASH_START_ADDR + word_of_int (FLASH_BOOTLDR_SIZE_KB * 1024);
     ((imageSize, checksum), s) \<leftarrow> stage1_probe speed0 value0 b start_addr s;
     s \<leftarrow> stage1_check b start_addr imageSize checksum s;
     Some (stage1_boot payload b s)
   }"

section \<open>Words and bytes in memory\<close>

lemma mk64_inject: "mk64 l h = mk64 l' h' \<longleftrightarrow> l = l' \<and> h = h'"
proof
  assume eq: "mk64 l h = mk64 l' h'"
  have "ucast (mk64 l h) = l" "ucast (drop_bit 32 (mk64 l h)) = h" for l h
    unfolding mk64_def by (rule bit_word_eqI; auto simp: bit_simps dest: bit_imp_le_length)+
  with eq show "l = l' \<and> h = h'" by metis
qed simp

lemma word_at_other:
  "a \<notin> {x, x + 1, x + 2, x + 3} \<Longrightarrow> a + 1 \<notin> {x, x + 1, x + 2, x + 3} \<Longrightarrow>
   a + 2 \<notin> {x, x + 1, x + 2, x + 3} \<Longrightarrow> a + 3 \<notin> {x, x + 1, x + 2, x + 3} \<Longrightarrow>
   word_at (put_word m x v) a = word_at m a"
  by (simp add: word_at_def put_word_def)

text \<open>\<open>xs\<close> copied to \<open>a\<close>.\<close>

definition put_bytes :: "(u32 \<Rightarrow> u8) \<Rightarrow> u32 \<Rightarrow> u8 list \<Rightarrow> u32 \<Rightarrow> u8" where
  "put_bytes m a xs = (\<lambda>x. if unat (x - a) < length xs then xs ! unat (x - a) else m x)"

lemma put_bytes_Nil [simp]: "put_bytes m a [] = m"
  by (simp add: put_bytes_def)

lemma put_bytes_Cons:
  assumes "length xs < 2 ^ 32 - 1"
  shows "put_bytes (m(a := x)) (a + 1) xs = put_bytes m a (x # xs)"
proof
  fix y
  show "put_bytes (m(a := x)) (a + 1) xs y = put_bytes m a (x # xs) y"
  proof (cases "y = a")
    case True
    have "unat (- 1 :: u32) = 2 ^ 32 - 1" by (simp add: unsigned_minus_1_eq_mask mask_eq_exp_minus_1)
    then show ?thesis using assms True by (simp add: put_bytes_def)
  next
    case False
    then have "y - a \<noteq> 0" by simp
    then have "unat (y - a) = Suc (unat (y - a - 1))"
      using unat_minus_one [of "y - a"] unat_gt_0 [of "y - a"] by simp
    then show ?thesis using False by (simp add: put_bytes_def diff_diff_add)
  qed
qed

definition marker_set :: "(u32 \<Rightarrow> u8) \<Rightarrow> bool" where
  "marker_set m \<longleftrightarrow> word_at m RAM_START_ADDR = 0xCC00FFEE \<and> word_at m (RAM_START_ADDR + 4) = 0xDEADBEEF"

definition clear_marker :: "(u32 \<Rightarrow> u8) \<Rightarrow> u32 \<Rightarrow> u8" where
  "clear_marker m = put_word (put_word m RAM_START_ADDR 0) (RAM_START_ADDR + 4) 0"

text \<open>An image that the first stage accepts: a stack pointer in the first megabyte of the RAM
  region, a size below 256 kB, and a matching CRC or the two magic numbers in place of both.\<close>

definition image_ok :: "(u32 \<Rightarrow> u8) \<Rightarrow> bool" where
  "image_ok m \<longleftrightarrow>
     (let sig = word_at m APP_ADDRESS;
          sz = word_at m (APP_ADDRESS + 8);
          csum = word_at m (APP_ADDRESS + 12)
      in drop_bit 20 sig = 0x200 \<and> sz < 0x40000 \<and>
         (sz = 0x1234 \<and> csum = 0x5678 \<or>
          crc32_words (words_at m (APP_ADDRESS + 16) (unat sz div 4)) = csum))"

section \<open>The steps of the first stage on a system with memories and a CRC unit\<close>

lemma more_crc [simp]:
  "world.more (snd (rebooted_into_dfu b s)) = world.more s"
  "world.more (clear_reboot_flags b s) = world.more s"
  "world.more (lnExtiSWDOnly b s) = world.more s"
  "world.more (snd (chain_to b a s)) = world.more s"
  "world.more (copy_bytes b a xs s) = world.more s"
  by (auto simp: rebooted_into_dfu_def rd64_def clear_reboot_flags_def wr64_def lnExtiSWDOnly_def
      chain_to_def Let_def case_prod_beta) (induction xs arbitrary: a s; simp)

lemma go_dfu_eq:
  fixes s s' :: "('h, 'm) stage1_world_scheme"
  assumes "world.more s' = world.more s"
  shows "go_dfu s' = go_dfu s"
  using assms by (cases s; cases s') simp

lemma go_dfu_identify [simp]: "go_dfu (lnCpuID_identify b s) = go_dfu s"
proof -
  have rd: "go_dfu (snd (rd32 b a s)) = go_dfu s" for a and s :: "('a, 'b) stage1_world_scheme"
    by (rule go_dfu_eq) simp
  show ?thesis by (simp add: lnCpuID_identify_def Let_def case_prod_beta rd)
qed

context soc begin

lemma M_word: "span a n \<subseteq> M \<Longrightarrow> k + 4 \<le> n \<Longrightarrow> span (a + of_nat k) 4 \<subseteq> M"
  using span_add [of k 4 n a] by blast

lemma crc_loop_sums:
  assumes "crc_on (hw s)" "span p (4 * n) \<subseteq> M" "unat p + 4 * n < 2 ^ 32"
  shows "\<exists>s'. crc_loop b (p + 4 * of_nat n) p s = Some s' \<and> mem (hw s') = mem (hw s) \<and>
    crc (hw s') = foldl crc32_word (crc (hw s)) (words_at (mem (hw s)) p n) \<and>
    world.more s' = world.more s"
  using assms
proof (induction n arbitrary: p s)
  case 0
  then show ?case by (subst crc_loop.simps) (simp add: words_at_def)
next
  case (Suc n)
  let ?s = "wr32 b CRC_DATA (fst (rd32 b p s)) (snd (rd32 b p s))"
  have lim: "p + 4 * of_nat (Suc n) = p + 4 + 4 * of_nat n" by (simp add: algebra_simps)
  have "unat (4 * of_nat (Suc n) :: u32) = 4 * Suc n"
    using Suc.prems(3) unsigned_of_nat [of "4 * Suc n", where 'b = 32 and 'a = nat]
    by (simp add: take_bit_nat_eq_self)
  then have up: "unat (p + 4 * of_nat (Suc n)) = unat p + 4 * Suc n"
    using Suc.prems(3) by (simp add: unat_word_ariths(1))
  have p4: "unat (p + 4) = unat p + 4" using Suc.prems(3) by (simp add: unat_word_ariths)
  have w: "span p 4 \<subseteq> M" using Suc.prems(2) span_mono [of 4 "4 * Suc n" p] by auto
  have rest: "span (p + 4) (4 * n) \<subseteq> M"
    using Suc.prems(2) span_add [of 4 "4 * n" "4 * Suc n" p] by auto
  have "crc_on (hw ?s)" using Suc.prems(1) by simp
  from Suc.IH [OF this rest] obtain s' where s':
    "crc_loop b (p + 4 + 4 * of_nat n) (p + 4) ?s = Some s'" "mem (hw s') = mem (hw ?s)"
    "crc (hw s') = foldl crc32_word (crc (hw ?s)) (words_at (mem (hw ?s)) (p + 4) n)"
    "world.more s' = world.more ?s"
    using Suc.prems(3) p4 by auto
  have "p < p + 4 * of_nat (Suc n)" unfolding word_less_nat_alt up by simp
  then have "crc_loop b (p + 4 * of_nat (Suc n)) p s = Some s'"
    using s'(1) by (subst crc_loop.simps) (simp only: lim case_prod_beta Let_def if_True)
  moreover have "crc (hw ?s) = crc32_word (crc (hw s)) (word_at (mem (hw s)) p)"
    using Suc.prems(1) mem_value [OF w] by simp
  ultimately show ?case using s' by (simp add: words_at_Suc)
qed

lemma ch32_crc_sums:
  assumes "span p (4 * unat n) \<subseteq> M" "unat p + 4 * unat n < 2 ^ 32"
  shows "\<exists>s'. ch32_crc b p n s = Some (crc32_words (words_at (mem (hw s)) p (unat n)), s') \<and>
    mem (hw s') = mem (hw s) \<and> world.more s' = world.more s"
proof -
  let ?s = "wr32 b CRC_CONTROL 1 (mod32 b AHBPCENR (\<lambda>v. v OR push_bit 6 1) s)"
  have on: "crc_on (hw ?s)" by (simp add: bit_simps)
  have start: "crc (hw ?s) = 0xFFFFFFFF" "mem (hw ?s) = mem (hw s)" by (simp_all add: bit_simps)
  obtain s' where s': "crc_loop b (p + 4 * n) p ?s = Some s'" "mem (hw s') = mem (hw s)"
    "crc (hw s') = crc32_words (words_at (mem (hw s)) p (unat n))" "world.more s' = world.more s"
    using crc_loop_sums [OF on assms] start by (auto simp: crc32_words_def)
  then have "ch32_crc b p n s = Some (rd32 b CRC_DATA s')"
    by (simp add: ch32_crc_def Let_def)
  then show ?thesis using s'
    by (intro exI [of _ "snd (rd32 b CRC_DATA s')"]) (simp add: prod_eq_iff)
qed

lemma mem_keeps [simp]:
  "mem (hw (lnPeripherals_enable b p s)) = mem (hw s)"
  "mem (hw (lnExtiSWDOnly b s)) = mem (hw s)"
  "mem (hw (snd (rebooted_into_dfu b s))) = mem (hw s)"
  "mem (hw (lnCpuID_identify b s')) = mem (hw s')"
  by (simp_all add: lnPeripherals_enable_def rcuAction_def lnExtiSWDOnly_def Let_def rebooted_into_dfu_def
      rd64_def case_prod_beta lnCpuID_identify_def split: option.split)

lemma marker_value:
  assumes "span RAM_START_ADDR 8 \<subseteq> M"
  shows "fst (rebooted_into_dfu b s) \<longleftrightarrow> marker_set (mem (hw s))"
proof -
  have "MARKER_MAGIC = mk64 0xCC00FFEE 0xDEADBEEF" by (simp add: mk64_def)
  then have "mk64 l h = MARKER_MAGIC \<longleftrightarrow> l = 0xCC00FFEE \<and> h = 0xDEADBEEF" for l h
    by (simp only: mk64_inject)
  then show ?thesis
    using mem_value [OF M_word [OF assms, of 0]] mem_value [OF M_word [OF assms, of 4]]
    by (simp add: rebooted_into_dfu_def rd64_def case_prod_beta Let_def marker_set_def)
qed

lemma pin_mode_input:
  "\<exists>s'. lnPinMode speed0 value0 b FORCE_DFU_IO lnINPUT_PULLUP 0 s = Some s' \<and>
     mem (hw s') = mem (hw s) \<and> world.more s' = world.more s"
  by (simp add: lnPinMode_def port_of_def pin_of_def gpio_def Let_def case_prod_beta)

lemma button_read:
  "lnDigitalRead b FORCE_DFU_IO s = Some (bit istat 14, snd (rd32 b 0x40010C08 s))"
  using and_exp_eq_0_iff_not_bit [of istat 14]
  by (simp add: lnDigitalRead_def port_of_def pin_of_def gpio_def Let_def case_prod_beta)

lemma check_decides:
  assumes "span p 0x40000 \<subseteq> M" "unat p + 0x40000 < 2 ^ 32" "p = start + 16"
  shows "\<exists>s'. stage1_check b start sz csum s = Some s' \<and> mem (hw s') = mem (hw s) \<and>
    (go_dfu s' = 0 \<longleftrightarrow> go_dfu s = 0 \<and> sz < 0x40000 \<and>
      (sz = 0x1234 \<and> csum = 0x5678 \<or> crc32_words (words_at (mem (hw s)) p (unat sz div 4)) = csum))"
proof (cases "go_dfu s = 0 \<and> sz < 0x40000 \<and> (sz \<noteq> 0x1234 \<or> csum \<noteq> 0x5678)")
  case True
  have n: "unat (drop_bit 2 sz) = unat sz div 4" by (simp add: drop_bit_eq_div unat_div_distrib)
  have "unat sz < 0x40000" using True by (simp add: word_less_nat_alt)
  then have "4 * unat (drop_bit 2 sz) \<le> 0x40000" unfolding n by simp
  then have "span p (4 * unat (drop_bit 2 sz)) \<subseteq> M" "unat p + 4 * unat (drop_bit 2 sz) < 2 ^ 32"
    using assms(1, 2) span_mono [of "4 * unat (drop_bit 2 sz)" "0x40000" p] by auto
  from ch32_crc_sums [OF this, of s] obtain s' where s': "mem (hw s') = mem (hw s)"
    "ch32_crc b p (drop_bit 2 sz) s = Some (crc32_words (words_at (mem (hw s)) p (unat sz div 4)), s')"
    "world.more s' = world.more s"
    unfolding n by blast
  then show ?thesis using True go_dfu_eq [OF s'(3)] assms(3) by (auto simp: stage1_check_def)
qed (auto simp: stage1_check_def)

lemma clear_reboot_flags_mem:
  assumes "span RAM_START_ADDR 8 \<subseteq> W"
  shows "mem (hw (clear_reboot_flags b s)) = clear_marker (mem (hw s))"
  using store_ram [of RAM_START_ADDR] store_ram [of "RAM_START_ADDR + 4"] assms
    span_add [of 0 4 8 RAM_START_ADDR] span_add [of 4 4 8 RAM_START_ADDR]
  by (simp add: clear_reboot_flags_def wr64_def clear_marker_def)

lemma copy_bytes_mem:
  assumes "span a (length xs) \<subseteq> W" "length xs < 2 ^ 32"
  shows "mem (hw (copy_bytes b a xs s)) = put_bytes (mem (hw s)) a xs"
  using assms
proof (induction xs arbitrary: a s)
  case (Cons x xs)
  have "a \<in> W" "span (a + 1) (length xs) \<subseteq> W"
    using Cons.prems(1) in_span [of 0 "length (x # xs)" a] span_add [of 1 "length xs" "length (x # xs)" a] by auto
  then show ?case using Cons.IH [of "a + 1" "wr8 b a x s"] Cons.prems(2)
    by (simp add: put_bytes_Cons store_byte del: fun_upd_apply)
qed simp

lemma chain_to_jump:
  assumes "span a 8 \<subseteq> M"
  shows "fst (chain_to b a s) =
      \<lparr>msp = word_at (mem (hw s)) a, psp = word_at (mem (hw s)) a, pc = word_at (mem (hw s)) (a + 4)\<rparr>"
    "mem (hw (snd (chain_to b a s))) = mem (hw s)"
  using mem_value [OF M_word [OF assms, of 0]] mem_value [OF M_word [OF assms, of 4]]
  by (simp_all add: chain_to_def Let_def case_prod_beta)

end

context soc begin

lemma marker_found:
  assumes "span RAM_START_ADDR 8 \<subseteq> W"
  shows "fst (rebooted_into_dfu b (reboot_into_bootloader b s)) \<and>
    \<not> fst (rebooted_into_dfu b (clear_reboot_flags b s))"
proof -
  have M8: "span RAM_START_ADDR 8 \<subseteq> M" using assms ram by blast
  have "mem (hw (wr64 b RAM_START_ADDR v s)) =
      put_word (put_word (mem (hw s)) RAM_START_ADDR (ucast v)) (RAM_START_ADDR + 4) (ucast (drop_bit 32 v))" for v
    using store_ram [of RAM_START_ADDR] store_ram [of "RAM_START_ADDR + 4"] assms
      span_add [of 0 4 8 RAM_START_ADDR] span_add [of 4 4 8 RAM_START_ADDR]
    by (simp add: wr64_def)
  then show ?thesis
    by (simp add: marker_value [OF M8] reboot_into_bootloader_def clear_reboot_flags_def marker_set_def
        word_at_other drop_bit_eq_div)
qed

end

section \<open>Properties\<close>

definition boots_app :: "u32 \<Rightarrow> (u32 \<Rightarrow> u8) \<Rightarrow> bool" where
  "boots_app istat m \<longleftrightarrow> \<not> marker_set m \<and> bit istat 14 \<and> image_ok m"

text \<open>The vectors at \<open>a\<close>.\<close>

definition vectors :: "(u32 \<Rightarrow> u8) \<Rightarrow> u32 \<Rightarrow> jump" where
  "vectors m a = \<lparr>msp = word_at m a, psp = word_at m a, pc = word_at m (a + 4)\<rparr>"

context soc begin

lemma rd32_word:
  assumes "span a n \<subseteq> M" "k + 4 \<le> n"
  obtains s' where "rd32 b (a + of_nat k) s = (word_at (mem (hw s)) (a + of_nat k), s')"
    "mem (hw s') = mem (hw s)"
  using mem_value [OF M_word [OF assms], of "hw s"] that [of "snd (rd32 b (a + of_nat k) s)"]
  by (simp add: prod_eq_iff)

lemma probe_decides:
  assumes M: "span 0x8002000 0x40010 \<subseteq> M" and M8: "span RAM_START_ADDR 8 \<subseteq> M"
  shows "\<exists>s'. stage1_probe speed0 value0 b 0x8002000 s =
      Some ((word_at (mem (hw s)) 0x8002008, word_at (mem (hw s)) 0x800200C), s') \<and>
    mem (hw s') = mem (hw s) \<and>
    (go_dfu s' = 0 \<longleftrightarrow> \<not> marker_set (mem (hw s)) \<and> bit istat 14 \<and>
      drop_bit 20 (word_at (mem (hw s)) 0x8002000) = 0x200)"
proof -
  let ?m = "mem (hw s)"
  obtain sa where sa: "rd32 b 0x8002000 s = (word_at ?m 0x8002000, sa)" "mem (hw sa) = ?m"
    using rd32_word [OF M, of 0 s] by auto
  obtain sb where sb: "rd32 b 0x8002008 sa = (word_at ?m 0x8002008, sb)" "mem (hw sb) = ?m"
    using rd32_word [OF M, of 8 sa] sa by auto
  obtain sc where sc: "rd32 b 0x800200C sb = (word_at ?m 0x800200C, sc)" "mem (hw sc) = ?m"
    using rd32_word [OF M, of 12 sb] sb by auto
  obtain s1 where s1: "rebooted_into_dfu b (sc\<lparr>go_dfu := 0\<rparr>) = (marker_set ?m, s1)" "mem (hw s1) = ?m"
    using marker_value [OF M8, of "sc\<lparr>go_dfu := 0\<rparr>"] mem_keeps(3) [of "sc\<lparr>go_dfu := 0\<rparr>"] sc
    by (cases "rebooted_into_dfu b (sc\<lparr>go_dfu := 0\<rparr>)") simp
  define s2 where "s2 = lnExtiSWDOnly b (lnPeripherals_enable b pAF (lnPeripherals_enable b pGPIOC
     (lnPeripherals_enable b pGPIOB (s1\<lparr>go_dfu := of_bool (marker_set ?m)\<rparr>))))"
  have s2: "mem (hw s2) = ?m" "go_dfu s2 = of_bool (marker_set ?m)"
    using s1 go_dfu_eq [of s2 "s1\<lparr>go_dfu := of_bool (marker_set ?m)\<rparr>"] by (simp_all add: s2_def)
  obtain s3 where s3: "lnPinMode speed0 value0 b FORCE_DFU_IO lnINPUT_PULLUP 0 s2 = Some s3"
    "mem (hw s3) = ?m" "world.more s3 = world.more s2"
    using pin_mode_input [of speed0 value0 s2] s2 by auto
  define s4 where "s4 = snd (rd32 b 0x40010C08 s3)"
  have s4: "mem (hw s4) = ?m" "go_dfu s4 = of_bool (marker_set ?m)"
    using s3 go_dfu_eq [of s3 s2] go_dfu_eq [of s4 s3] s2 by (simp_all add: s4_def)
  define s6 where "s6 = stack_flag (word_at ?m 0x8002000) (button_flag (bit istat 14) s4)"
  have s6: "mem (hw s6) = ?m" "go_dfu s6 = 0 \<longleftrightarrow>
      \<not> marker_set ?m \<and> bit istat 14 \<and> drop_bit 20 (word_at ?m 0x8002000) = 0x200"
    using s4 by (auto simp: s6_def stack_flag_def button_flag_def)
  define s7 where "s7 = lnCpuID_identify b (mod32 b RCC_CSR (\<lambda>v. v OR RCC_CSR_RMVF) s6)"
  have s7: "mem (hw s7) = ?m" "go_dfu s7 = go_dfu s6"
    using s6 go_dfu_eq [of "mod32 b RCC_CSR (\<lambda>v. v OR RCC_CSR_RMVF) s6" s6] by (simp_all add: s7_def)
  have "stage1_probe speed0 value0 b 0x8002000 s =
      Some ((word_at ?m 0x8002008, word_at ?m 0x800200C), s7)"
    unfolding stage1_probe_def
    by (subst sa(1), unfold Let_def prod.case numeral_plus_numeral add_num_simps, unfold sb(1) sc(1) prod.case,
        unfold s1(1) prod.case, fold s2_def, unfold s3(1) bind.bind_lunit,
        unfold button_read bind.bind_lunit prod.case, fold s4_def, fold s6_def, fold s7_def, rule refl)
  then show ?thesis using s6 s7 by simp
qed

lemma main_decides:
  assumes M: "span 0x8002000 0x40010 \<subseteq> M" and W: "span RAM_START_ADDR (max 8 (length payload)) \<subseteq> W"
    and n: "length payload < 2 ^ 32"
  shows "\<exists>j s'. stage1_main speed0 value0 payload b s = Some (j, s') \<and>
    (if boots_app istat (mem (hw s))
     then mem (hw s') = clear_marker (mem (hw s)) \<and> j = vectors (clear_marker (mem (hw s))) 0x8002000
     else mem (hw s') = put_bytes (clear_marker (mem (hw s))) RAM_START_ADDR payload \<and>
       j = vectors (mem (hw s')) RAM_START_ADDR)"
proof -
  let ?m = "mem (hw s)"
  have W8: "span RAM_START_ADDR 8 \<subseteq> W" "span RAM_START_ADDR (length payload) \<subseteq> W"
    using W span_mono [of 8 "max 8 (length payload)" RAM_START_ADDR]
      span_mono [of "length payload" "max 8 (length payload)" RAM_START_ADDR] by auto
  have M8: "span RAM_START_ADDR 8 \<subseteq> M" using W8 ram by blast
  have app: "span 0x8002010 0x40000 \<subseteq> M" using M span_add [of 16 "0x40000" "0x40010" "0x8002000"] by simp
  obtain s7 where s7: "stage1_probe speed0 value0 b 0x8002000 s =
      Some ((word_at ?m 0x8002008, word_at ?m 0x800200C), s7)" "mem (hw s7) = ?m"
    "go_dfu s7 = 0 \<longleftrightarrow> \<not> marker_set ?m \<and> bit istat 14 \<and> drop_bit 20 (word_at ?m 0x8002000) = 0x200"
    using probe_decides [OF M M8] by blast
  have lim: "unat (0x8002010 :: u32) + 0x40000 < 2 ^ 32" "(0x8002010 :: u32) = 0x8002000 + 16" by simp_all
  obtain s8 where s8: "stage1_check b 0x8002000 (word_at ?m 0x8002008) (word_at ?m 0x800200C) s7 = Some s8"
    "mem (hw s8) = mem (hw s7)" "go_dfu s8 = 0 \<longleftrightarrow> go_dfu s7 = 0 \<and> word_at ?m 0x8002008 < 0x40000 \<and>
      (word_at ?m 0x8002008 = 0x1234 \<and> word_at ?m 0x800200C = 0x5678 \<or>
       crc32_words (words_at (mem (hw s7)) 0x8002010 (unat (word_at ?m 0x8002008) div 4)) = word_at ?m 0x800200C)"
    using check_decides [OF app, of "0x8002000" "word_at ?m 0x8002008" "word_at ?m 0x800200C" s7] lim
    by blast
  have boots: "go_dfu s8 = 0 \<longleftrightarrow> boots_app istat ?m"
    unfolding s8(3) s7(2, 3) boots_app_def image_ok_def Let_def APP_ADDRESS_eq by simp
  define s9 where "s9 = clear_reboot_flags b s8"
  have s9: "mem (hw s9) = clear_marker ?m" "go_dfu s9 = 0 \<longleftrightarrow> boots_app istat ?m"
    using s7(2) s8(2) boots clear_reboot_flags_mem [OF W8(1), of s8] go_dfu_eq [of s9 s8]
    by (simp_all add: s9_def)
  have main: "stage1_main speed0 value0 payload b s = Some (stage1_boot payload b s8)"
    using s7(1) s8(1) by (simp add: stage1_main_def)
  show ?thesis
  proof (cases "boots_app istat ?m")
    case True
    have "span 0x8002000 8 \<subseteq> M" using M span_mono [of 8 "0x40010" "0x8002000"] by auto
    from chain_to_jump [OF this, of s9] show ?thesis
      using main s9 True
      by (cases "chain_to b 0x8002000 s9") (simp add: vectors_def stage1_boot_def s9_def [symmetric])
  next
    case False
    then show ?thesis
      using main s9 chain_to_jump [OF M8, of "copy_bytes b RAM_START_ADDR payload s9"]
        copy_bytes_mem [OF W8(2) n, of s9]
      by (cases "chain_to b RAM_START_ADDR (copy_bytes b RAM_START_ADDR payload s9)")
        (simp add: vectors_def stage1_boot_def s9_def [symmetric])
  qed
qed

end

text \<open>C9: on a system with memories, a CRC unit and a button as documented, the first stage always
  leaves. It starts the application, from its vectors, exactly when no reboot into the boot loader
  was asked for, the button is released and the image is intact; otherwise it copies the second
  stage to the start of the RAM and starts it there. Either way the marker is cleared and nothing
  else in memory changes.\<close>

theorem stage1_decides:
  assumes "soc b mem crc crc_on istat M W" "span 0x8002000 0x40010 \<subseteq> M"
    "span RAM_START_ADDR (max 8 (length payload)) \<subseteq> W" "length payload < 2 ^ 32"
  shows "\<exists>j s'. stage1_main speed0 value0 payload b s = Some (j, s') \<and>
    (if boots_app istat (mem (hw s))
     then mem (hw s') = clear_marker (mem (hw s)) \<and> j = vectors (clear_marker (mem (hw s))) APP_ADDRESS
     else mem (hw s') = put_bytes (clear_marker (mem (hw s))) RAM_START_ADDR payload \<and>
       j = vectors (mem (hw s')) RAM_START_ADDR)"
  unfolding APP_ADDRESS_eq by (rule soc.main_decides) (rule assms)+

definition stage1_demo :: "(u32 \<Rightarrow> u8) \<Rightarrow> soc_dev stage1_world" where
  "stage1_demo m = \<lparr>hw = \<lparr>sd_mem = m, sd_crc = 0, sd_on = False\<rparr>, cpu_mcu = LN_MCU_UNKNOWN,
     cpu_vendor = LN_VENDOR_UNKOWN, cpu_cpuId = 0, cpu_flashSize = 0, cpu_ramSize = 0,
     SystemCoreClock = 0, go_dfu = 0\<rparr>"

lemma soc_spans: "span 0x8002000 0x40010 \<subseteq> soc_mem" "n \<le> 0x5000 \<Longrightarrow> span RAM_START_ADDR n \<subseteq> soc_ram"
proof -
  have "unat (of_nat k :: u32) = k" if "k < 2 ^ 32" for k
    using that by (simp add: unsigned_of_nat take_bit_nat_eq_self)
  then show "span 0x8002000 0x40010 \<subseteq> soc_mem" "n \<le> 0x5000 \<Longrightarrow> span RAM_START_ADDR n \<subseteq> soc_ram"
    by (auto simp: span_def soc_mem_def soc_ram_def word_le_nat_alt unat_word_ariths(1))
qed

text \<open>An application without checksum, and an erased flash.\<close>

definition unsigned_image :: "u32 \<Rightarrow> u8" where
  "unsigned_image = put_word (put_word (put_word (put_word (\<lambda>a. 0) 0x8002000 0x20005000) 0x8002004 0x8002101)
     0x8002008 0x1234) 0x800200C 0x5678"

lemma stage1_decides_witness:
  "(\<exists>s'. stage1_main 0 0 [1, 2, 3, 4, 5, 6, 7, 8] (soc_bus 0x4000) (stage1_demo unsigned_image) =
     Some (\<lparr>msp = 0x20005000, psp = 0x20005000, pc = 0x8002101\<rparr>, s')) \<and>
   (\<exists>s'. stage1_main 0 0 [1, 2, 3, 4, 5, 6, 7, 8] (soc_bus 0) (stage1_demo unsigned_image) =
     Some (\<lparr>msp = 0x04030201, psp = 0x04030201, pc = 0x08070605\<rparr>, s'))"
proof -
  let ?p = "[1, 2, 3, 4, 5, 6, 7, 8] :: u8 list"
  have img: "word_at unsigned_image 0x8002000 = 0x20005000" "word_at unsigned_image 0x8002004 = 0x8002101"
    "word_at unsigned_image 0x8002008 = 0x1234" "word_at unsigned_image 0x800200C = 0x5678"
    "word_at unsigned_image RAM_START_ADDR = 0"
    by (simp_all add: unsigned_image_def word_at_def put_word_def byte_of32_def mk32_def)
  then have "boots_app 0x4000 unsigned_image" "\<not> boots_app 0 unsigned_image"
    by (simp_all add: boots_app_def image_ok_def marker_set_def Let_def bit_simps drop_bit_eq_div)
  note boots = this
  have app: "word_at (clear_marker unsigned_image) 0x8002000 = 0x20005000"
    "word_at (clear_marker unsigned_image) 0x8002004 = 0x8002101"
    using img by (simp_all add: clear_marker_def word_at_other)
  have payload: "word_at (put_bytes m RAM_START_ADDR ?p) RAM_START_ADDR = 0x04030201"
    "word_at (put_bytes m RAM_START_ADDR ?p) (RAM_START_ADDR + 4) = 0x08070605" for m
    by (simp_all add: word_at_def put_bytes_def mk32_def)
  have W: "span RAM_START_ADDR (max 8 (length ?p)) \<subseteq> soc_ram" "length ?p < 2 ^ 32"
  proof -
    have "length ?p = 8" by simp
    then show "span RAM_START_ADDR (max 8 (length ?p)) \<subseteq> soc_ram" "length ?p < 2 ^ 32"
      using soc_spans(2) [of 8] by (simp_all only: max.idem) simp_all
  qed
  note run = stage1_decides [OF soc0.soc_axioms soc_spans(1) W, where s = "stage1_demo unsigned_image"]
  have m: "sd_mem (hw (stage1_demo unsigned_image)) = unsigned_image" by (simp add: stage1_demo_def)
  show ?thesis
    using run [of 0 0 "0x4000"] run [of 0 0 0] app payload
    unfolding m vectors_def by (simp only: boots if_True if_False) auto
qed

text \<open>The CRC loop ends and its result is the CRC of the words of the given range, for every
  range that does not reach the end of the address space.\<close>

theorem ch32_crc_correct:
  assumes "soc b mem crc crc_on istat M W" "span addr (4 * unat n) \<subseteq> M" "unat addr + 4 * unat n < 2 ^ 32"
  shows "\<exists>s'. ch32_crc b addr n s = Some (crc32_words (words_at (mem (hw s)) addr (unat n)), s') \<and>
    mem (hw s') = mem (hw s)"
  using soc.ch32_crc_sums [OF assms, of s] by auto

lemma ch32_crc_correct_witness:
  "\<exists>s'. ch32_crc (soc_bus 0) 0x20000000 1 \<lparr>hw = \<lparr>sd_mem = (\<lambda>a. 0xFF), sd_crc = 7, sd_on = False\<rparr>\<rparr> =
     Some (0, s')"
proof -
  have "(crc_shift ^^ n) 0 = 0" for n by (induction n) (simp_all add: crc_shift_def)
  then have "crc32_words (words_at (\<lambda>a. 0xFF) 0x20000000 1) = 0"
    by (simp add: crc32_words_def words_at_def word_at_def crc32_word_def mk32_ones)
  then show ?thesis
    using ch32_crc_correct [OF soc0.soc_axioms, where addr = "0x20000000" and n = 1 and istat = 0
        and s = "\<lparr>hw = \<lparr>sd_mem = (\<lambda>a. 0xFF), sd_crc = 7, sd_on = False\<rparr>\<rparr>"] soc_spans(2) [of 4] soc_mem_low(2)
    by (auto dest: subset_trans)
qed

text \<open>What the application writes to ask for the boot loader is what the first stage looks for:
  after \<open>reboot_into_bootloader\<close> the marker is found, after \<open>clear_reboot_flags\<close> it is not.\<close>

theorem marker_roundtrip:
  assumes "soc b mem crc crc_on istat M W" "span RAM_START_ADDR 8 \<subseteq> W"
  shows "fst (rebooted_into_dfu b (reboot_into_bootloader b s)) \<and>
    \<not> fst (rebooted_into_dfu b (clear_reboot_flags b s))"
  by (rule soc.marker_found [OF assms])

lemma marker_roundtrip_witness:
  "fst (rebooted_into_dfu (soc_bus 0) (reboot_into_bootloader (soc_bus 0) (stage1_demo (\<lambda>a. 0))))"
  using marker_roundtrip [OF soc0.soc_axioms soc_spans(2), where istat = 0 and s = "stage1_demo (\<lambda>a. 0)"]
  by simp

end
