(* ===== verification/FlashDrv.thy ===== *)
theory FlashDrv
  imports CpuId
begin

text \<open>
  \<open>src_stage2/flash.h\<close>: the driver of the flash memory controller (FMC). Every function is
  translated with its register accesses in the order of the code; the busy-wait macro is a
  partial function whose value \<open>None\<close> means that the controller never leaves its busy state.
\<close>

section \<open>Registers\<close>

datatype LN_FMCx = FMC_WS | FMC_KEY | FMC_OPTKEY | FMC_STAT | FMC_CTL | FMC_ADDR | FMC_OBSTAT | FMC_WP

text \<open>\<open>LN_FMC_ADR\<close> plus the field's offset in the struct.\<close>

fun fmc_reg :: "LN_FMCx \<Rightarrow> u32" where
  "fmc_reg FMC_WS = 0x40022000"
| "fmc_reg FMC_KEY = 0x40022004"
| "fmc_reg FMC_OPTKEY = 0x40022008"
| "fmc_reg FMC_STAT = 0x4002200C"
| "fmc_reg FMC_CTL = 0x40022010"
| "fmc_reg FMC_ADDR = 0x40022014"
| "fmc_reg FMC_OBSTAT = 0x40022018"
| "fmc_reg FMC_WP = 0x4002201C"

abbreviation FLASH_KEYR :: u32 where "FLASH_KEYR \<equiv> fmc_reg FMC_KEY"
abbreviation FLASH_OPTKEYR :: u32 where "FLASH_OPTKEYR \<equiv> fmc_reg FMC_OPTKEY"
abbreviation FLASH_SR :: u32 where "FLASH_SR \<equiv> fmc_reg FMC_STAT"
abbreviation FLASH_CR :: u32 where "FLASH_CR \<equiv> fmc_reg FMC_CTL"
abbreviation FLASH_AR :: u32 where "FLASH_AR \<equiv> fmc_reg FMC_ADDR"

abbreviation FLASH_CR_LOCK :: u32 where "FLASH_CR_LOCK \<equiv> 0x80"
abbreviation FLASH_CR_STRT :: u32 where "FLASH_CR_STRT \<equiv> 0x40"
abbreviation FLASH_CR_OPTER :: u32 where "FLASH_CR_OPTER \<equiv> 0x20"
abbreviation FLASH_CR_OPTPG :: u32 where "FLASH_CR_OPTPG \<equiv> 0x10"
abbreviation FLASH_CR_PER :: u32 where "FLASH_CR_PER \<equiv> 0x02"
abbreviation FLASH_CR_PG :: u32 where "FLASH_CR_PG \<equiv> 0x01"
abbreviation FLASH_SR_BSY :: u32 where "FLASH_SR_BSY \<equiv> 0x01"

section \<open>Static variables\<close>

text \<open>\<open>cached_size\<close> is the static of \<open>get_flash_page_size\<close>, \<open>erased\<close> that of
  \<open>check_do_erase\<close>.\<close>

record 'h flash_world = "'h cpu_world" +
  cached_size :: u32
  safe_erased :: bool

definition get_flash_page_size :: "('h, 'm) flash_world_scheme \<Rightarrow> u32 \<times> ('h, 'm) flash_world_scheme" where
  "get_flash_page_size s =
     (let s' = (if cached_size s = 0
                then s\<lparr>cached_size := (if lnCpuID_vendor s = LN_VENDOR_GD then 2048 else 1024)\<rparr>
                else s)
      in (cached_size s', s'))"

section \<open>Unlock, lock, busy wait, erase\<close>

definition flash_unlock :: "'h bus \<Rightarrow> bool \<Rightarrow> ('h, 'm) world_scheme \<Rightarrow> ('h, 'm) world_scheme" where
  "flash_unlock b opt s =
     (let s1 = wr32 b FLASH_KEYR 0x45670123 s;
          s2 = wr32 b FLASH_KEYR 0xcdef89ab s1
      in if opt
         then wr32 b FLASH_OPTKEYR 0xcdef89ab (wr32 b FLASH_OPTKEYR 0x45670123 s2)
         else s2)"

definition flash_lock :: "'h bus \<Rightarrow> ('h, 'm) world_scheme \<Rightarrow> ('h, 'm) world_scheme" where
  "flash_lock b s = mod32 b FLASH_CR (\<lambda>v. v OR FLASH_CR_LOCK) s"

partial_function (option) flash_wait_for_last_operation ::
  "'h bus \<Rightarrow> ('h, 'm) world_scheme \<Rightarrow> ('h, 'm) world_scheme option" where
  "flash_wait_for_last_operation b s =
     (case rd32 b FLASH_SR s of (v, s') \<Rightarrow>
        if v AND FLASH_SR_BSY \<noteq> 0 then flash_wait_for_last_operation b s' else Some s')"

definition flash_erase_page ::
  "'h bus \<Rightarrow> u32 \<Rightarrow> ('h, 'm) world_scheme \<Rightarrow> ('h, 'm) world_scheme option" where
  "flash_erase_page b page_address s = do {
     s1 \<leftarrow> flash_wait_for_last_operation b s;
     let s2 = mod32 b FLASH_CR (\<lambda>v. v OR FLASH_CR_PER) s1;
     let s3 = wr32 b FLASH_AR page_address s2;
     let s4 = mod32 b FLASH_CR (\<lambda>v. v OR FLASH_CR_STRT) s3;
     s5 \<leftarrow> flash_wait_for_last_operation b s4;
     Some (mod32 b FLASH_CR (\<lambda>v. v AND NOT FLASH_CR_PER) s5)
   }"

text \<open>The loop counts words up to the page size, which it asks for again in every round.\<close>

function flash_page_erased_from ::
  "'h bus \<Rightarrow> u32 \<Rightarrow> nat \<Rightarrow> ('h, 'm) flash_world_scheme \<Rightarrow> bool \<times> ('h, 'm) flash_world_scheme" where
  "flash_page_erased_from b addr i s =
     (let (ps, s1) = get_flash_page_size s in
      if i < unat (ps div 4) then
        let (v, s2) = rd32 b (addr + 4 * of_nat i) s1 in
        if v \<noteq> 0xffffffff then (False, s2) else flash_page_erased_from b addr (Suc i) s2
      else (True, s1))"
  by pat_completeness auto
termination
  by (relation "measure (\<lambda>(b, addr, i, s). unat (fst (get_flash_page_size s) div 4) - i)")
    (auto simp: get_flash_page_size_def rd32_def lnCpuID_vendor_def Let_def split: prod.splits if_splits)

declare flash_page_erased_from.simps [simp del]

definition flash_page_is_erased ::
  "'h bus \<Rightarrow> u32 \<Rightarrow> ('h, 'm) flash_world_scheme \<Rightarrow> bool \<times> ('h, 'm) flash_world_scheme" where
  "flash_page_is_erased b addr s = flash_page_erased_from b addr 0 s"

section \<open>Programming\<close>

text \<open>\<open>uint16_t *data\<close> and its cast to \<open>uint32_t *\<close> point into a byte buffer: element \<open>i\<close> is
  two (four) consecutive bytes of it.\<close>

definition buf16 :: "u8 list \<Rightarrow> nat \<Rightarrow> u16" where
  "buf16 data i = mk16 (data ! (2 * i)) (data ! (2 * i + 1))"

definition buf32 :: "u8 list \<Rightarrow> nat \<Rightarrow> u32" where
  "buf32 data i = mk32 (data ! (4 * i)) (data ! (4 * i + 1)) (data ! (4 * i + 2)) (data ! (4 * i + 3))"

text \<open>The third argument of each loop is the index \<open>i\<close>, the fourth the rounds left.\<close>

fun flash_program16_from ::
  "'h bus \<Rightarrow> u32 \<Rightarrow> u8 list \<Rightarrow> nat \<Rightarrow> nat \<Rightarrow> ('h, 'm) world_scheme \<Rightarrow> ('h, 'm) world_scheme option" where
  "flash_program16_from b address data i 0 s = Some s"
| "flash_program16_from b address data i (Suc n) s = do {
     s1 \<leftarrow> flash_wait_for_last_operation b (wr16 b (address + 2 * of_nat i) (buf16 data i) s);
     flash_program16_from b address data (Suc i) n s1
   }"

definition flash_program_buffer16 ::
  "'h bus \<Rightarrow> u32 \<Rightarrow> u8 list \<Rightarrow> nat \<Rightarrow> ('h, 'm) world_scheme \<Rightarrow> ('h, 'm) world_scheme option" where
  "flash_program_buffer16 b address data nb_word16 s = flash_program16_from b address data 0 nb_word16 s"

fun flash_program32_from ::
  "'h bus \<Rightarrow> u32 \<Rightarrow> u8 list \<Rightarrow> nat \<Rightarrow> nat \<Rightarrow> ('h, 'm) world_scheme \<Rightarrow> ('h, 'm) world_scheme option" where
  "flash_program32_from b address data i 0 s = Some s"
| "flash_program32_from b address data i (Suc n) s = do {
     s1 \<leftarrow> flash_wait_for_last_operation b (wr32 b (address + 4 * of_nat i) (buf32 data i) s);
     flash_program32_from b address data (Suc i) n s1
   }"

definition flash_program_buffer32 ::
  "'h bus \<Rightarrow> u32 \<Rightarrow> u8 list \<Rightarrow> nat \<Rightarrow> ('h, 'm) world_scheme \<Rightarrow> ('h, 'm) world_scheme option" where
  "flash_program_buffer32 b address data16 nb_word32 s = flash_program32_from b address data16 0 nb_word32 s"

definition flash_program_buffer ::
  "'h bus \<Rightarrow> u32 \<Rightarrow> u8 list \<Rightarrow> nat \<Rightarrow> ('h, 'm) world_scheme \<Rightarrow> ('h, 'm) world_scheme option" where
  "flash_program_buffer b address data n s = do {
     s1 \<leftarrow> flash_wait_for_last_operation b s;
     let s2 = mod32 b FLASH_CR (\<lambda>v. v OR FLASH_CR_PG) s1;
     s3 \<leftarrow> flash_program_buffer16 b address data (n div 2) s2;
     Some (mod32 b FLASH_CR (\<lambda>v. v AND NOT FLASH_CR_PG) s3)
   }"

definition flash_program_buffer_gd32 ::
  "'h bus \<Rightarrow> u32 \<Rightarrow> u8 list \<Rightarrow> nat \<Rightarrow> ('h, 'm) world_scheme \<Rightarrow> ('h, 'm) world_scheme option" where
  "flash_program_buffer_gd32 b address data n s =
     (if n mod 4 \<noteq> 0 \<or> address AND 3 \<noteq> 0 then flash_program_buffer b address data n s
      else do {
        s1 \<leftarrow> flash_wait_for_last_operation b s;
        let s2 = mod32 b FLASH_CR (\<lambda>v. v OR FLASH_CR_PG) s1;
        s3 \<leftarrow> flash_program_buffer32 b address data (n div 4) s2;
        Some (mod32 b FLASH_CR (\<lambda>v. v AND NOT FLASH_CR_PG) s3)
      })"

section \<open>Option bytes and the wipe of ENABLE_SAFEWRITE\<close>

text \<open>These are compiled under \<open>ENABLE_PROTECTIONS\<close> and \<open>ENABLE_SAFEWRITE\<close>.\<close>

definition flash_erase_option_bytes ::
  "'h bus \<Rightarrow> ('h, 'm) world_scheme \<Rightarrow> ('h, 'm) world_scheme option" where
  "flash_erase_option_bytes b s = do {
     s1 \<leftarrow> flash_wait_for_last_operation b s;
     let s2 = mod32 b FLASH_CR (\<lambda>v. v OR FLASH_CR_OPTER) s1;
     let s3 = mod32 b FLASH_CR (\<lambda>v. v OR FLASH_CR_STRT) s2;
     s4 \<leftarrow> flash_wait_for_last_operation b s3;
     Some (mod32 b FLASH_CR (\<lambda>v. v AND NOT FLASH_CR_OPTER) s4)
   }"

definition flash_program_option_bytes ::
  "'h bus \<Rightarrow> u32 \<Rightarrow> u16 \<Rightarrow> ('h, 'm) world_scheme \<Rightarrow> ('h, 'm) world_scheme option" where
  "flash_program_option_bytes b address data s = do {
     s1 \<leftarrow> flash_wait_for_last_operation b s;
     let s2 = mod32 b FLASH_CR (\<lambda>v. v OR FLASH_CR_OPTPG) s1;
     let s3 = wr16 b address data s2;
     s4 \<leftarrow> flash_wait_for_last_operation b s3;
     Some (mod32 b FLASH_CR (\<lambda>v. v AND NOT FLASH_CR_OPTPG) s4)
   }"

definition flash_app_start :: u32 where
  "flash_app_start = FLASH_BASE_ADDR + word_of_int (FLASH_BOOTLDR_SIZE_KB * 1024)"

definition flash_app_end :: "('h, 'm) cpu_world_scheme \<Rightarrow> u32" where
  "flash_app_end s = FLASH_BASE_ADDR + word_of_int (lnCpuID_flashSize s * 1024)"

text \<open>\<open>for (addr = from; addr < to; addr += get_flash_page_size()) if (!erased) erase\<close>: the loop
  of \<open>check_do_erase\<close>, and of the block write in \<open>dfu.cpp\<close>. A loop whose address wraps around
  below its limit never ends.\<close>

partial_function (option) flash_erase_range ::
  "'h bus \<Rightarrow> u32 \<Rightarrow> u32 \<Rightarrow> ('h, 'm) flash_world_scheme \<Rightarrow> ('h, 'm) flash_world_scheme option" where
  "flash_erase_range b addr lim s =
     (if addr < lim then
        (case flash_page_is_erased b addr s of (e, s1) \<Rightarrow>
           Option.bind (if e then Some s1 else flash_erase_page b addr s1) (\<lambda>s2.
             case get_flash_page_size s2 of (ps, s3) \<Rightarrow> flash_erase_range b (addr + ps) lim s3))
      else Some s)"

definition check_do_erase ::
  "'h bus \<Rightarrow> ('h, 'm) flash_world_scheme \<Rightarrow> ('h, 'm) flash_world_scheme option" where
  "check_do_erase b s =
     (if safe_erased s then Some s
      else do {
        s1 \<leftarrow> flash_erase_range b flash_app_start (flash_app_end s) s;
        Some (s1\<lparr>safe_erased := True\<rparr>)
      })"

section \<open>What the driver leaves alone\<close>

lemma more_wait [frame]: "flash_wait_for_last_operation b s = Some s' \<Longrightarrow> world.more s' = world.more s"
proof (rule flash_wait_for_last_operation.raw_induct [where P = "\<lambda>b s s'. world.more s' = world.more s"])
  fix f b and s s' :: "('h, 'm) world_scheme"
  assume IH: "\<And>b s s'. f b s = Some s' \<Longrightarrow> world.more s' = world.more s"
    and eq: "(case rd32 b FLASH_SR s of (v, t) \<Rightarrow>
        if v AND FLASH_SR_BSY \<noteq> 0 then f b t else Some t) = Some s'"
  obtain v t where t: "rd32 b FLASH_SR s = (v, t)" by fastforce
  with eq IH have "world.more s' = world.more t" by (auto split: if_splits)
  with t show "world.more s' = world.more s" by auto
qed

lemma more_erase_page [frame]: "flash_erase_page b a s = Some s' \<Longrightarrow> world.more s' = world.more s"
  unfolding flash_erase_page_def by (auto simp: Let_def split: bind_splits dest!: frame)

lemma more_program16_from [frame]:
  "flash_program16_from b a d i n s = Some s' \<Longrightarrow> world.more s' = world.more s"
  by (induction b a d i n s rule: flash_program16_from.induct) (auto split: bind_splits dest!: frame)

lemma more_program32_from [frame]:
  "flash_program32_from b a d i n s = Some s' \<Longrightarrow> world.more s' = world.more s"
  by (induction b a d i n s rule: flash_program32_from.induct) (auto split: bind_splits dest!: frame)

lemma more_program_buffer [frame]:
  "flash_program_buffer b a d n s = Some s' \<Longrightarrow> world.more s' = world.more s"
  unfolding flash_program_buffer_def flash_program_buffer16_def
  by (auto simp: Let_def split: bind_splits dest!: frame)

lemma more_program_buffer_gd32 [frame]:
  "flash_program_buffer_gd32 b a d n s = Some s' \<Longrightarrow> world.more s' = world.more s"
  unfolding flash_program_buffer_gd32_def flash_program_buffer32_def
  by (auto simp: Let_def split: bind_splits if_splits dest!: frame)

lemma more_unlock_lock [simp]:
  "world.more (flash_unlock b opt s) = world.more s"
  "world.more (flash_lock b s) = world.more s"
  by (simp_all add: flash_unlock_def flash_lock_def Let_def)

text \<open>The page size is asked for many times and is always the same: it depends on what is cached
  or on the vendor, and neither changes.\<close>

definition page_size :: "('h, 'm) flash_world_scheme \<Rightarrow> u32" where
  "page_size s = fst (get_flash_page_size s)"

text \<open>All of the state but the hardware and the page-size cache.\<close>

definition flash_rest :: "('h, 'm) flash_world_scheme \<Rightarrow> ('h, 'm) flash_world_scheme" where
  "flash_rest s = s\<lparr>hw := undefined, cached_size := 0\<rparr>"

definition flash_only :: "('h, 'm) flash_world_scheme \<Rightarrow> ('h, 'm) flash_world_scheme \<Rightarrow> bool" where
  "flash_only s s' \<longleftrightarrow> flash_rest s' = flash_rest s \<and> page_size s' = page_size s"

lemma flash_only_refl [simp, intro]: "flash_only s s"
  by (simp add: flash_only_def)

lemma flash_only_trans [trans]: "flash_only s t \<Longrightarrow> flash_only t u \<Longrightarrow> flash_only s u"
  by (simp add: flash_only_def)

lemma flash_only_more: "world.more s' = world.more s \<Longrightarrow> flash_only s s'"
  by (cases s; cases s')
    (auto simp: flash_only_def flash_rest_def page_size_def get_flash_page_size_def lnCpuID_vendor_def Let_def)

lemma flash_only_get_page_size [intro]: "flash_only s (snd (get_flash_page_size s))"
  by (auto simp: flash_only_def flash_rest_def page_size_def get_flash_page_size_def lnCpuID_vendor_def Let_def)

lemma fst_get_page_size [simp]: "fst (get_flash_page_size s) = page_size s"
  by (simp add: page_size_def)

lemma flash_only_eqs:
  assumes "flash_only s s'"
  shows "cpu_vendor s' = cpu_vendor s" "cpu_flashSize s' = cpu_flashSize s"
    "safe_erased s' = safe_erased s" "flash_world.more s' = flash_world.more s"
    "page_size s' = page_size s"
  using assms by (cases s; cases s'; simp add: flash_only_def flash_rest_def)+

lemma page_size_cases:
  "cached_size s \<in> {0, 1024, 2048} \<Longrightarrow> page_size s = 1024 \<or> page_size s = 2048"
  by (auto simp: page_size_def get_flash_page_size_def)

lemma flash_only_erased_from: "flash_only s (snd (flash_page_erased_from b a i s))"
proof (induction b a i s rule: flash_page_erased_from.induct)
  case (1 b a i s)
  obtain ps s1 where ps: "get_flash_page_size s = (ps, s1)" by fastforce
  obtain v s2 where v: "rd32 b (a + 4 * of_nat i) s1 = (v, s2)" by fastforce
  have s1: "flash_only s s1" using flash_only_get_page_size [of s] ps by simp
  have s2: "flash_only s s2" using s1 v by (blast intro: flash_only_trans flash_only_more)
  show ?case
  proof (cases "i < unat (ps div 4) \<and> v = 0xffffffff")
    case True
    then have "flash_only s2 (snd (flash_page_erased_from b a (Suc i) s2))"
      using "1.IH" ps v by auto
    with True s2 show ?thesis
      by (subst flash_page_erased_from.simps) (auto simp: ps v intro: flash_only_trans)
  next
    case False
    with s1 s2 show ?thesis by (subst flash_page_erased_from.simps) (auto simp: ps v)
  qed
qed

lemma flash_only_is_erased [intro]: "flash_only s (snd (flash_page_is_erased b a s))"
  unfolding flash_page_is_erased_def by (rule flash_only_erased_from)

text \<open>One round of the erase loop.\<close>

definition erase_if_needed ::
  "'h bus \<Rightarrow> u32 \<Rightarrow> ('h, 'm) flash_world_scheme \<Rightarrow> ('h, 'm) flash_world_scheme option" where
  "erase_if_needed b a s =
     (case flash_page_is_erased b a s of (e, s1) \<Rightarrow> if e then Some s1 else flash_erase_page b a s1)"

lemma erase_range_unfold:
  "flash_erase_range b a l s =
     (if a < l then Option.bind (erase_if_needed b a s)
        (\<lambda>s2. flash_erase_range b (a + page_size s2) l (snd (get_flash_page_size s2)))
      else Some s)"
  by (subst flash_erase_range.simps)
    (simp add: erase_if_needed_def case_prod_beta)

lemma flash_only_erase_if_needed:
  assumes "erase_if_needed b a s = Some s'"
  shows "flash_only s s'"
proof -
  obtain e s1 where e: "flash_page_is_erased b a s = (e, s1)" by fastforce
  then have "flash_only s s1" using flash_only_is_erased [of s b a] by simp
  also have "flash_only s1 s'"
    using assms e by (cases e) (simp_all add: erase_if_needed_def more_erase_page flash_only_more)
  finally show ?thesis .
qed

lemma flash_only_erase_range: "flash_erase_range b a l s = Some s' \<Longrightarrow> flash_only s s'"
proof (rule flash_erase_range.raw_induct [where P = "\<lambda>b a l s s'. flash_only s s'"])
  fix f b a l and s s' :: "('h, 'm) flash_world_scheme"
  assume IH: "\<And>b a l s s'. f b a l s = Some s' \<Longrightarrow> flash_only s s'"
    and eq: "(if a < l then
        (case flash_page_is_erased b a s of (e, s1) \<Rightarrow>
           Option.bind (if e then Some s1 else flash_erase_page b a s1) (\<lambda>s2.
             case get_flash_page_size s2 of (ps, s3) \<Rightarrow> f b (a + ps) l s3))
      else Some s) = Some s'"
  show "flash_only s s'"
  proof (cases "a < l")
    case True
    then have "Option.bind (erase_if_needed b a s)
        (\<lambda>s2. f b (a + page_size s2) l (snd (get_flash_page_size s2))) = Some s'"
      using eq by (simp add: erase_if_needed_def case_prod_beta)
    then obtain s2 where s2: "erase_if_needed b a s = Some s2"
      and rest: "f b (a + page_size s2) l (snd (get_flash_page_size s2)) = Some s'"
      by (auto simp: bind_eq_Some_conv)
    from s2 have "flash_only s s2" by (rule flash_only_erase_if_needed)
    also have "flash_only s2 (snd (get_flash_page_size s2))" ..
    also have "flash_only \<dots> s'" by (rule IH [OF rest])
    finally show ?thesis .
  next
    case False
    with eq show ?thesis by simp
  qed
qed

section \<open>Which stores the driver issues\<close>

context guarded_bus begin

lemma wait_P: "flash_wait_for_last_operation b s = Some s' \<Longrightarrow> P (hw s) \<Longrightarrow> P (hw s')"
proof (rule mp, rule flash_wait_for_last_operation.raw_induct
    [where P = "\<lambda>b' s s'. b' = b \<longrightarrow> P (hw s) \<longrightarrow> P (hw s')", THEN mp, OF _ _ refl])
  fix f b' and s s' :: "('h, 'm) world_scheme"
  assume IH: "\<And>b' s s'. f b' s = Some s' \<Longrightarrow> b' = b \<longrightarrow> P (hw s) \<longrightarrow> P (hw s')"
    and eq: "(case rd32 b' FLASH_SR s of (v, t) \<Rightarrow>
        if v AND FLASH_SR_BSY \<noteq> 0 then f b' t else Some t) = Some s'"
  show "b' = b \<longrightarrow> P (hw s) \<longrightarrow> P (hw s')"
  proof (intro impI)
    assume "b' = b" and P: "P (hw s)"
    obtain v t where t: "rd32 b FLASH_SR s = (v, t)" by fastforce
    with P have "P (hw t)" using rd_P(3) [of s FLASH_SR] by simp
    with eq IH t \<open>b' = b\<close> show "P (hw s')" by (auto split: if_splits)
  qed
qed

lemma erased_from_P:
  "P (hw s) \<Longrightarrow> c = b \<Longrightarrow> P (hw (snd (flash_page_erased_from c a i s)))"
proof (induction c a i s rule: flash_page_erased_from.induct)
  case (1 c a i s)
  obtain ps s1 where ps: "get_flash_page_size s = (ps, s1)" by fastforce
  obtain v s2 where v: "rd32 b (a + 4 * of_nat i) s1 = (v, s2)" by fastforce
  have s1: "hw s1 = hw s" using ps by (auto simp: get_flash_page_size_def Let_def)
  with v "1.prems" have s2: "P (hw s2)" using rd_P(3) [of s1 "a + 4 * of_nat i"] by simp
  show ?case
    using "1.IH" ps v s1 s2 "1.prems"
    by (subst flash_page_erased_from.simps) auto
qed

lemma is_erased_P: "P (hw s) \<Longrightarrow> P (hw (snd (flash_page_is_erased b a s)))"
  unfolding flash_page_is_erased_def by (rule erased_from_P [OF _ refl])

lemma unlock_P:
  "P (hw s) \<Longrightarrow> (\<And>v. G (St32 FLASH_KEYR v)) \<Longrightarrow> P (hw (flash_unlock b False s))"
  by (simp add: flash_unlock_def Let_def st32_P)

lemma lock_P: "P (hw s) \<Longrightarrow> (\<And>v. G (St32 FLASH_CR v)) \<Longrightarrow> P (hw (flash_lock b s))"
  by (simp add: flash_lock_def st32_P ld32_P)

lemma erase_page_P:
  assumes "flash_erase_page b a s = Some s'" "P (hw s)"
    and "\<And>v. G (St32 FLASH_CR v)" "G (St32 FLASH_AR a)"
  shows "P (hw s')"
  using assms
  by (auto simp: flash_erase_page_def Let_def st32_P ld32_P bind_eq_Some_conv dest!: wait_P)

lemma erase_if_needed_P:
  assumes "erase_if_needed b a s = Some s'" "P (hw s)"
    and "\<And>v. G (St32 FLASH_CR v)" "G (St32 FLASH_AR a)"
  shows "P (hw s')"
  using assms is_erased_P [of s a]
  by (auto simp: erase_if_needed_def split: prod.splits if_splits intro: erase_page_P)

lemma program16_from_P:
  assumes "flash_program16_from b a d i n s = Some s'" "P (hw s)"
    and "\<And>k w. i \<le> k \<Longrightarrow> k < i + n \<Longrightarrow> G (St16 (a + 2 * of_nat k) w)"
  shows "P (hw s')"
  using assms
proof (induction n arbitrary: i s)
  case (Suc n)
  from Suc.prems(1) obtain s1
    where s1: "flash_wait_for_last_operation b (wr16 b (a + 2 * of_nat i) (buf16 d i) s) = Some s1"
      and rest: "flash_program16_from b a d (Suc i) n s1 = Some s'"
    by (auto simp: bind_eq_Some_conv)
  have "P (hw s1)"
    using Suc.prems(2) Suc.prems(3) [of i] by (auto intro!: wait_P [OF s1] st16_P)
  then show ?case using Suc.IH [OF rest] Suc.prems(3) by auto
qed simp

lemma program32_from_P:
  assumes "flash_program32_from b a d i n s = Some s'" "P (hw s)"
    and "\<And>k v. i \<le> k \<Longrightarrow> k < i + n \<Longrightarrow> G (St32 (a + 4 * of_nat k) v)"
  shows "P (hw s')"
  using assms
proof (induction n arbitrary: i s)
  case (Suc n)
  from Suc.prems(1) obtain s1
    where s1: "flash_wait_for_last_operation b (wr32 b (a + 4 * of_nat i) (buf32 d i) s) = Some s1"
      and rest: "flash_program32_from b a d (Suc i) n s1 = Some s'"
    by (auto simp: bind_eq_Some_conv)
  have "P (hw s1)"
    using Suc.prems(2) Suc.prems(3) [of i] by (auto intro!: wait_P [OF s1] st32_P)
  then show ?case using Suc.IH [OF rest] Suc.prems(3) by auto
qed simp

lemma program_buffer_P:
  assumes "flash_program_buffer b a d n s = Some s'" "P (hw s)" "\<And>v. G (St32 FLASH_CR v)"
    and "\<And>k w. k < n div 2 \<Longrightarrow> G (St16 (a + 2 * of_nat k) w)"
  shows "P (hw s')"
  using assms
  by (auto simp: flash_program_buffer_def flash_program_buffer16_def Let_def bind_eq_Some_conv
      intro!: st32_P ld32_P dest!: wait_P program16_from_P)

lemma program_buffer_gd32_P:
  assumes "flash_program_buffer_gd32 b a d n s = Some s'" "P (hw s)" "\<And>v. G (St32 FLASH_CR v)"
    and "\<And>k w. k < n div 2 \<Longrightarrow> G (St16 (a + 2 * of_nat k) w)"
    and "\<And>k v. k < n div 4 \<Longrightarrow> G (St32 (a + 4 * of_nat k) v)"
  shows "P (hw s')"
proof (cases "n mod 4 \<noteq> 0 \<or> a AND 3 \<noteq> 0")
  case True
  with assms(1) have "flash_program_buffer b a d n s = Some s'"
    by (simp add: flash_program_buffer_gd32_def)
  then show ?thesis using assms(2-4) by (rule program_buffer_P)
next
  case False
  with assms show ?thesis
    by (auto simp: flash_program_buffer_gd32_def flash_program_buffer32_def Let_def bind_eq_Some_conv
        intro!: st32_P ld32_P dest!: wait_P program32_from_P)
qed

end

end
