(* ===== verification/FlashDevice.thy ===== *)
theory FlashDevice
  imports FlashDrv
begin

text \<open>
  What the flash driver needs from the controller, as a locale, and what the driver then
  achieves. The laws are those of the programming manual of the chip family (PM0075): a page
  erase is started by STRT with PER set and fills the page of the address register with 0xFF;
  a half word (on GD32 also a word) is programmed by storing it while PG is set, provided the
  location is erased; the controller is locked until both keys are written in order; every
  operation keeps BSY set for some polls of the status register and then clears it.

  The state of the controller is observed through \<open>dev\<close>; the laws do not say what the hardware
  state is. \<open>fmc_bus\<close> is one hardware that satisfies them.
\<close>

section \<open>The controller's state\<close>

record fmc_dev =
  cells :: "u32 \<Rightarrow> u8"
  d_ctl :: u32
  d_ar :: u32
  d_busy :: nat
  d_key1 :: bool
  d_page :: u32
  d_size :: u32
  d_delay :: nat

text \<open>The array starts at 0x8000000 and is at most 64 MB, the most the density register of the
  chip family can say.\<close>

definition in_array :: "fmc_dev \<Rightarrow> u32 \<Rightarrow> bool" where
  "in_array d a \<longleftrightarrow> a - FLASH_BASE_ADDR < min (d_size d) 0x4000000"

definition page_of :: "fmc_dev \<Rightarrow> u32 \<Rightarrow> u32" where
  "page_of d a = a AND NOT (d_page d - 1)"

definition fmc_locked :: "fmc_dev \<Rightarrow> bool" where
  "fmc_locked d \<longleftrightarrow> d_ctl d AND FLASH_CR_LOCK \<noteq> 0"

definition wiped :: "fmc_dev \<Rightarrow> u32 \<Rightarrow> u32 \<Rightarrow> u8" where
  "wiped d a x = (if in_array d x \<and> page_of d x = page_of d a then 0xFF else cells d x)"

definition dev_key :: "u32 \<Rightarrow> fmc_dev \<Rightarrow> fmc_dev" where
  "dev_key v d =
     (if \<not> fmc_locked d then d
      else if d_key1 d \<and> v = 0xcdef89ab
           then d\<lparr>d_ctl := d_ctl d AND NOT FLASH_CR_LOCK, d_key1 := False\<rparr>
      else d\<lparr>d_key1 := (\<not> d_key1 d \<and> v = 0x45670123)\<rparr>)"

definition dev_ctl :: "u32 \<Rightarrow> fmc_dev \<Rightarrow> fmc_dev" where
  "dev_ctl v d =
     (if fmc_locked d then d
      else if v AND FLASH_CR_STRT \<noteq> 0 \<and> v AND FLASH_CR_PER \<noteq> 0
           then d\<lparr>d_ctl := v AND NOT FLASH_CR_STRT, cells := wiped d (d_ar d), d_busy := d_delay d\<rparr>
      else d\<lparr>d_ctl := v AND NOT FLASH_CR_STRT\<rparr>)"

definition dev_ar :: "u32 \<Rightarrow> fmc_dev \<Rightarrow> fmc_dev" where
  "dev_ar v d = (if fmc_locked d then d else d\<lparr>d_ar := v\<rparr>)"

definition programmable :: "fmc_dev \<Rightarrow> u32 \<Rightarrow> nat \<Rightarrow> bool" where
  "programmable d a n \<longleftrightarrow>
     \<not> fmc_locked d \<and> d_ctl d AND FLASH_CR_PG \<noteq> 0 \<and> unat a mod n = 0 \<and>
     (\<forall>k<n. in_array d (a + of_nat k) \<and> cells d (a + of_nat k) = 0xFF)"

definition dev_prog16 :: "u32 \<Rightarrow> u16 \<Rightarrow> fmc_dev \<Rightarrow> fmc_dev" where
  "dev_prog16 a w d =
     (if programmable d a 2
      then d\<lparr>cells := (cells d)(a := lo8 w, a + 1 := hi8 w), d_busy := d_delay d\<rparr> else d)"

definition dev_prog32 :: "u32 \<Rightarrow> u32 \<Rightarrow> fmc_dev \<Rightarrow> fmc_dev" where
  "dev_prog32 a v d =
     (if programmable d a 4
      then d\<lparr>cells := (cells d)(a := byte_of32 0 v, a + 1 := byte_of32 1 v,
                              a + 2 := byte_of32 2 v, a + 3 := byte_of32 3 v), d_busy := d_delay d\<rparr>
      else d)"

section \<open>The laws\<close>

locale fmc_device =
  fixes b :: "'h bus" and dev :: "'h \<Rightarrow> fmc_dev"
  assumes stat_busy: "fst (ld32 b 0x4002200C h) AND FLASH_SR_BSY \<noteq> 0 \<longleftrightarrow> 0 < d_busy (dev h)"
    and stat_poll: "dev (snd (ld32 b 0x4002200C h)) = (dev h)\<lparr>d_busy := d_busy (dev h) - 1\<rparr>"
    and ctl_value: "fst (ld32 b 0x40022010 h) = d_ctl (dev h)"
    and ctl_load: "dev (snd (ld32 b 0x40022010 h)) = dev h"
    and key_store: "dev (st32 b 0x40022004 v h) = dev_key v (dev h)"
    and ctl_store: "dev (st32 b 0x40022010 v h) = dev_ctl v (dev h)"
    and ar_store: "dev (st32 b 0x40022014 v h) = dev_ar v (dev h)"
    and cell_value: "in_array (dev h) a \<Longrightarrow> in_array (dev h) (a + 3) \<Longrightarrow>
        fst (ld32 b a h) = word_at (cells (dev h)) a"
    and cell_load: "in_array (dev h) a \<Longrightarrow> dev (snd (ld32 b a h)) = dev h"
    and prog16: "in_array (dev h) a \<Longrightarrow> dev (st16 b a w h) = dev_prog16 a w (dev h)"
    and prog32: "in_array (dev h) a \<Longrightarrow> dev (st32 b a v h) = dev_prog32 a v (dev h)"

text \<open>A controller in the state the boot loader finds and leaves it in: locked, nothing selected.\<close>

definition fmc_idle :: "fmc_dev \<Rightarrow> bool" where
  "fmc_idle d \<longleftrightarrow> d_ctl d = FLASH_CR_LOCK \<and> \<not> d_key1 d"

text \<open>Unlocked, nothing selected.\<close>

definition fmc_ready :: "fmc_dev \<Rightarrow> bool" where
  "fmc_ready d \<longleftrightarrow> d_ctl d = 0"

section \<open>One hardware that satisfies the laws\<close>

definition fmc_ld32 :: "u32 \<Rightarrow> fmc_dev \<Rightarrow> u32 \<times> fmc_dev" where
  "fmc_ld32 a d =
     (if a = 0x4002200C then (if 0 < d_busy d then 1 else 0, d\<lparr>d_busy := d_busy d - 1\<rparr>)
      else if a = 0x40022010 then (d_ctl d, d)
      else (word_at (cells d) a, d))"

definition fmc_st32 :: "u32 \<Rightarrow> u32 \<Rightarrow> fmc_dev \<Rightarrow> fmc_dev" where
  "fmc_st32 a v d =
     (if a = 0x40022004 then dev_key v d
      else if a = 0x40022010 then dev_ctl v d
      else if a = 0x40022014 then dev_ar v d
      else if in_array d a then dev_prog32 a v d
      else d)"

definition fmc_bus :: "fmc_dev bus" where
  "fmc_bus =
     \<lparr>ld8 = (\<lambda>a d. (cells d a, d)),
      ld16 = (\<lambda>a d. (mk16 (cells d a) (cells d (a + 1)), d)),
      ld32 = fmc_ld32,
      st8 = (\<lambda>a x d. d),
      st16 = (\<lambda>a w d. if in_array d a then dev_prog16 a w d else d),
      st32 = fmc_st32\<rparr>"

lemma not_in_array [simp]:
  "\<not> in_array d 0x4002200C" "\<not> in_array d 0x40022010" "\<not> in_array d 0x40022004" "\<not> in_array d 0x40022014"
  by (simp_all add: in_array_def)

interpretation fmc: fmc_device fmc_bus "\<lambda>d. d"
  by unfold_locales
    (auto simp: fmc_bus_def fmc_ld32_def fmc_st32_def in_array_def)

section \<open>What the driver achieves on such a controller\<close>

lemma in_array_update [simp]:
  "in_array (d\<lparr>cells := m\<rparr>) = in_array d" "in_array (d\<lparr>d_ctl := v\<rparr>) = in_array d"
  "in_array (d\<lparr>d_ar := v\<rparr>) = in_array d" "in_array (d\<lparr>d_busy := n\<rparr>) = in_array d"
  "in_array (d\<lparr>d_key1 := k\<rparr>) = in_array d"
  by (simp_all add: in_array_def fun_eq_iff)

lemma wiped_update [simp]:
  "wiped (d\<lparr>d_ctl := v\<rparr>) = wiped d" "wiped (d\<lparr>d_ar := v\<rparr>) = wiped d"
  "wiped (d\<lparr>d_busy := n\<rparr>) = wiped d" "wiped (d\<lparr>d_key1 := k\<rparr>) = wiped d"
  by (simp_all add: wiped_def page_of_def fun_eq_iff)

lemma fmc_locked_ready [simp]: "d_ctl d = 0 \<Longrightarrow> \<not> fmc_locked d"
  by (simp add: fmc_locked_def)

lemma word_at_ones:
  "word_at m a = 0xFFFFFFFF \<longleftrightarrow> (\<forall>k<4. m (a + of_nat k) = 0xFF)"
  by (auto simp: word_at_def mk32_eq_ones numeral_eq_Suc less_Suc_eq)

lemma words_to_bytes:
  assumes "4 dvd n"
  shows "(\<forall>k. 4 * k < n \<longrightarrow> (\<forall>j<4. Q (4 * k + j))) \<longleftrightarrow> (\<forall>k<n. Q (k::nat))"
proof (intro iffI allI impI)
  fix k assume all: "\<forall>k. 4 * k < n \<longrightarrow> (\<forall>j<4. Q (4 * k + j))" and "k < n"
  then have "4 * (k div 4) < n" by simp
  moreover have "k mod 4 < 4" by simp
  ultimately have "Q (4 * (k div 4) + k mod 4)" using all by blast
  then show "Q k" by simp
next
  fix k j :: nat assume "\<forall>k<n. Q k" "4 * k < n" "j < 4"
  moreover have "4 * k + j < n" using assms \<open>4 * k < n\<close> \<open>j < 4\<close> by presburger
  ultimately show "Q (4 * k + j)" by blast
qed

text \<open>The memory \<open>m\<close> with \<open>n\<close> bytes of \<open>d\<close>, from its index \<open>i\<close> on, laid over it at \<open>a + i\<close>.\<close>

definition overlay :: "(u32 \<Rightarrow> u8) \<Rightarrow> u32 \<Rightarrow> nat \<Rightarrow> nat \<Rightarrow> u8 list \<Rightarrow> u32 \<Rightarrow> u8" where
  "overlay m a i n d x = (if i \<le> unat (x - a) \<and> unat (x - a) < i + n then d ! unat (x - a) else m x)"

lemma overlay_0 [simp]: "overlay m a i 0 d = m"
  by (auto simp: overlay_def fun_eq_iff)

lemma unat_offset:
  fixes x a :: u32
  assumes "k < 2 ^ 32"
  shows "unat (x - a) = k \<longleftrightarrow> x = a + of_nat k"
proof -
  have "unat (of_nat k :: u32) = k" using assms by (simp add: unat_of_nat take_bit_nat_eq_self)
  then have "unat (x - a) = k \<longleftrightarrow> x - a = of_nat k" by (metis unsigned_word_eqI)
  also have "\<dots> \<longleftrightarrow> x = a + of_nat k" by (simp add: diff_eq_eq add.commute)
  finally show ?thesis .
qed

lemma offset_inj:
  fixes a :: u32
  assumes "k < 2 ^ 32" "j < 2 ^ 32"
  shows "a + of_nat k = a + of_nat j \<longleftrightarrow> k = j"
  using unat_offset [OF assms(1), of "a + of_nat j" a] unat_offset [OF assms(2), of "a + of_nat j" a] by auto

lemma overlay_step:
  assumes "i + (n + 1) \<le> 2 ^ 32"
  shows "overlay m a i (n + 1) d = overlay (m(a + of_nat i := d ! i)) a (i + 1) n d"
proof
  fix x
  have "unat (x - a) = i \<longleftrightarrow> x = a + of_nat i" using assms by (intro unat_offset) simp
  then show "overlay m a i (n + 1) d x = overlay (m(a + of_nat i := d ! i)) a (i + 1) n d x"
    by (auto simp: overlay_def)
qed

lemma overlay_pair:
  assumes "i + (n + 2) \<le> 2 ^ 32"
  shows "overlay m a i (n + 2) d =
    overlay (m(a + of_nat i := d ! i, a + of_nat i + 1 := d ! (i + 1))) a (i + 2) n d"
  using assms overlay_step [of i "n + 1" m a d] overlay_step [of "i + 1" n "m(a + of_nat i := d ! i)" a d]
  by (simp add: ac_simps)

lemma overlay_quad:
  assumes "i + (n + 4) \<le> 2 ^ 32"
  shows "overlay m a i (n + 4) d =
    overlay (m(a + of_nat i := d ! i, a + of_nat i + 1 := d ! (i + 1),
      a + of_nat i + 2 := d ! (i + 2), a + of_nat i + 3 := d ! (i + 3))) a (i + 4) n d"
proof -
  have eqs: "k + 4 = Suc (Suc (Suc (Suc k)))" "k + 3 = Suc (Suc (Suc k))" "k + 2 = Suc (Suc k)" for k
    by simp_all
  show ?thesis
    using assms overlay_pair [of i "n + 2" m a d]
      overlay_pair [of "i + 2" n "m(a + of_nat i := d ! i, a + of_nat i + 1 := d ! (i + 1))" a d]
    by (simp add: add.assoc add.left_commute add.commute [of 2] eqs)
qed

lemma aligned_offset:
  fixes a :: u32
  assumes "unat a mod n = 0" "k mod n = 0" "n dvd 2 ^ 32"
  shows "unat (a + of_nat k) mod n = 0"
proof -
  have "unat (of_nat k :: u32) = k mod 2 ^ 32" by (simp add: unsigned_of_nat take_bit_eq_mod)
  then have "unat (a + of_nat k) mod n = (unat a + k) mod n"
    using assms(3) by (simp only: unat_word_ariths len_of_numeral_defs) (simp add: mod_mod_cancel mod_simps)
  with assms(1, 2) show ?thesis by (simp add: mod_eq_0_iff_dvd)
qed

text \<open>\<open>n\<close> erased locations from \<open>a\<close> on.\<close>

definition erased_span :: "fmc_dev \<Rightarrow> u32 \<Rightarrow> nat \<Rightarrow> bool" where
  "erased_span d a n \<longleftrightarrow> (\<forall>k<n. in_array d (a + of_nat k) \<and> cells d (a + of_nat k) = 0xFF)"

lemma programmable_at:
  assumes "erased_span d (a + of_nat i) n" "d_ctl d = 1" "unat a mod n = 0" "i mod n = 0" "n dvd 2 ^ 32"
  shows "programmable d (a + of_nat i) n"
  using assms aligned_offset [of a n i]
  by (simp add: programmable_def erased_span_def fmc_locked_def)

lemma erased_span_shift:
  assumes "erased_span d (a + of_nat i) (k + n)"
  shows "erased_span d (a + of_nat (i + k)) n"
  unfolding erased_span_def
proof (intro allI impI)
  fix j assume "j < n"
  then show "in_array d (a + of_nat (i + k) + of_nat j) \<and> cells d (a + of_nat (i + k) + of_nat j) = 0xFF"
    using assms [unfolded erased_span_def, rule_format, of "k + j"] by (simp add: add.assoc)
qed

lemma erased_span_frame:
  assumes "erased_span d (a + of_nat i) n" "i + n \<le> 2 ^ 32" 
    and "\<And>x. in_array d' x = in_array d x" "\<And>j. i \<le> j \<Longrightarrow> j < i + n \<Longrightarrow> cells d' (a + of_nat j) = cells d (a + of_nat j)"
  shows "erased_span d' (a + of_nat i) n"
  unfolding erased_span_def
proof (intro allI impI)
  fix j assume "j < n"
  then show "in_array d' (a + of_nat i + of_nat j) \<and> cells d' (a + of_nat i + of_nat j) = 0xFF"
    using assms(1) [unfolded erased_span_def, rule_format, of j] assms(4) [of "i + j"] assms(3) by (simp add: add.assoc)
qed

lemma align4: "a AND 3 = 0 \<longleftrightarrow> unat a mod 4 = 0" for a :: u32
proof -
  have "a AND 3 = take_bit 2 a" by (simp add: take_bit_eq_mask mask_eq_exp_minus_1)
  then have "unat (a AND 3) = unat a mod 4"
    by (simp add: take_bit_eq_mod unat_mod)
  then show ?thesis by (metis unat_eq_zero)
qed

context fmc_device begin

lemma wait_dev:
  "\<exists>s'. flash_wait_for_last_operation b s = Some s' \<and> dev (hw s') = (dev (hw s))\<lparr>d_busy := 0\<rparr>"
proof (induction "d_busy (dev (hw s))" arbitrary: s rule: less_induct)
  case less
  obtain v t where t: "rd32 b FLASH_SR s = (v, t)" by fastforce
  then have v: "v = fst (ld32 b 0x4002200C (hw s))" and h: "hw t = snd (ld32 b 0x4002200C (hw s))"
    using fst_rd(3) [of b FLASH_SR s] hw_rd(3) [of b FLASH_SR s] by auto
  show ?case
  proof (cases "v AND FLASH_SR_BSY = 0")
    case True
    then have "d_busy (dev (hw s)) = 0" using stat_busy v by auto
    then show ?thesis using True t h
      by (subst flash_wait_for_last_operation.simps) (simp add: stat_poll)
  next
    case False
    then have "0 < d_busy (dev (hw s))" using stat_busy v by auto
    then have "d_busy (dev (hw t)) < d_busy (dev (hw s))" by (simp add: h stat_poll)
    from less [OF this] False t h show ?thesis
      by (subst flash_wait_for_last_operation.simps) (simp add: stat_poll)
  qed
qed

lemma wait_devE:
  obtains s' where "flash_wait_for_last_operation b s = Some s'"
    "dev (hw s') = (dev (hw s))\<lparr>d_busy := 0\<rparr>"
  using wait_dev by blast

lemma ctl_mod: "dev (hw (mod32 b FLASH_CR f s)) = dev_ctl (f (d_ctl (dev (hw s)))) (dev (hw s))"
  by (simp add: ctl_store ctl_load ctl_value)

lemma unlock_dev:
  assumes "fmc_idle (dev (hw s))"
  shows "dev (hw (flash_unlock b False s)) = (dev (hw s))\<lparr>d_ctl := 0\<rparr>"
  using assms
  by (simp add: flash_unlock_def Let_def key_store dev_key_def fmc_idle_def fmc_locked_def)

lemma lock_dev:
  "d_ctl (dev (hw s)) = 0 \<Longrightarrow> dev (hw (flash_lock b s)) = (dev (hw s))\<lparr>d_ctl := FLASH_CR_LOCK\<rparr>"
  by (simp add: flash_lock_def ctl_store ctl_load ctl_value dev_ctl_def)

lemma erase_page_dev:
  assumes "d_ctl (dev (hw s)) = 0"
  obtains s' where "flash_erase_page b a s = Some s'"
    "dev (hw s') = (dev (hw s))\<lparr>cells := wiped (dev (hw s)) a, d_ar := a, d_busy := 0\<rparr>"
proof -
  obtain s1 where s1: "flash_wait_for_last_operation b s = Some s1"
      "dev (hw s1) = (dev (hw s))\<lparr>d_busy := 0\<rparr>"
    by (rule wait_devE)
  define s2 where "s2 = mod32 b FLASH_CR (\<lambda>v. v OR FLASH_CR_PER) s1"
  define s3 where "s3 = wr32 b FLASH_AR a s2"
  define s4 where "s4 = mod32 b FLASH_CR (\<lambda>v. v OR FLASH_CR_STRT) s3"
  have d2: "dev (hw s2) = (dev (hw s))\<lparr>d_busy := 0, d_ctl := 2\<rparr>"
    unfolding s2_def ctl_mod by (simp add: s1 assms dev_ctl_def)
  have d3: "dev (hw s3) = (dev (hw s))\<lparr>d_busy := 0, d_ctl := 2, d_ar := a\<rparr>"
    unfolding s3_def by (simp add: ar_store d2 dev_ar_def fmc_locked_def)
  have d4: "dev (hw s4) = (dev (hw s))\<lparr>d_busy := d_delay (dev (hw s)), d_ctl := 2, d_ar := a,
      cells := wiped (dev (hw s)) a\<rparr>"
    unfolding s4_def ctl_mod by (simp add: d3 dev_ctl_def fmc_locked_def)
  obtain s5 where s5: "flash_wait_for_last_operation b s4 = Some s5"
      "dev (hw s5) = (dev (hw s4))\<lparr>d_busy := 0\<rparr>"
    by (rule wait_devE)
  have "flash_erase_page b a s = Some (mod32 b FLASH_CR (\<lambda>v. v AND NOT FLASH_CR_PER) s5)"
    by (simp only: flash_erase_page_def Let_def s1 bind.bind_lunit s2_def [symmetric]
        s3_def [symmetric] s4_def [symmetric] s5)
  moreover have "dev (hw (mod32 b FLASH_CR (\<lambda>v. v AND NOT FLASH_CR_PER) s5)) =
      (dev (hw s))\<lparr>cells := wiped (dev (hw s)) a, d_ar := a, d_busy := 0\<rparr>"
    unfolding ctl_mod by (simp add: s5 d4 dev_ctl_def fmc_locked_def assms)
  ultimately show ?thesis by (rule that)
qed

lemma erased_from_dev:
  assumes "\<And>k. k < unat (page_size s) \<Longrightarrow> in_array (dev (hw s)) (a + of_nat k)" "c = b"
    and "4 dvd unat (page_size s)"
  shows "dev (hw (snd (flash_page_erased_from c a i s))) = dev (hw s) \<and>
    (fst (flash_page_erased_from c a i s) \<longleftrightarrow>
      (\<forall>k. i \<le> k \<and> 4 * k < unat (page_size s) \<longrightarrow>
        word_at (cells (dev (hw s))) (a + 4 * of_nat k) = 0xFFFFFFFF))"
  using assms
proof (induction c a i s rule: flash_page_erased_from.induct)
  case (1 c a i s)
  obtain ps s1 where ps: "get_flash_page_size s = (ps, s1)" by fastforce
  obtain v s2 where v: "rd32 b (a + 4 * of_nat i) s1 = (v, s2)" by fastforce
  have hw1: "hw s1 = hw s" using ps by (auto simp: get_flash_page_size_def Let_def)
  have size: "ps = page_size s" using ps fst_get_page_size [of s] by simp
  have lt: "i < unat (ps div 4) \<longleftrightarrow> 4 * i < unat (page_size s)"
    using "1.prems"(3) by (auto simp: size unat_div)
  show ?case
  proof (cases "i < unat (ps div 4)")
    case True
    then have i: "4 * i + 3 < unat (page_size s)" using lt "1.prems"(3) by presburger
    have in0: "in_array (dev (hw s)) (a + 4 * of_nat i)"
      using "1.prems"(1) [of "4 * i"] i by simp
    have in3: "in_array (dev (hw s)) (a + 4 * of_nat i + 3)"
      using "1.prems"(1) [of "4 * i + 3"] i by (simp add: add.assoc)
    have vv: "v = word_at (cells (dev (hw s))) (a + 4 * of_nat i)"
      using fst_rd(3) [of b "a + 4 * of_nat i" s1] cell_value [OF in0 in3] by (simp add: v hw1)
    have d2: "dev (hw s2) = dev (hw s)"
      using hw_rd(3) [of b "a + 4 * of_nat i" s1] cell_load [OF in0] by (simp add: v hw1)
    have "flash_only s s1" using ps flash_only_get_page_size [of s] by simp
    then have p2: "page_size s2 = page_size s"
      using v flash_only_eqs(5) [OF flash_only_trans, OF _ flash_only_more] by blast
    have step: "(\<forall>k. i \<le> k \<and> Q k \<longrightarrow> R k) \<longleftrightarrow> (Q i \<longrightarrow> R i) \<and> (\<forall>k. Suc i \<le> k \<and> Q k \<longrightarrow> R k)" for Q R
      by (metis Suc_leD Suc_leI le_neq_implies_less order_refl)
    show ?thesis
    proof (cases "v = 0xFFFFFFFF")
      case ones: True
      have "dev (hw (snd (flash_page_erased_from c a (Suc i) s2))) = dev (hw s2) \<and>
        (fst (flash_page_erased_from c a (Suc i) s2) \<longleftrightarrow>
          (\<forall>k. Suc i \<le> k \<and> 4 * k < unat (page_size s2) \<longrightarrow>
            word_at (cells (dev (hw s2))) (a + 4 * of_nat k) = 0xFFFFFFFF))"
        using "1.IH" [OF ps [symmetric] refl True _ refl] ones v "1.prems" p2 d2 by simp
      then show ?thesis using True ones v vv "1.prems"(2) lt
        by (subst (1 2) flash_page_erased_from.simps)
          (simp add: ps p2 d2 step [of "\<lambda>k. 4 * k < unat (page_size s)"])
    next
      case False
      then show ?thesis using True v vv "1.prems"(2) lt
        by (subst (1 2) flash_page_erased_from.simps) (auto simp: ps d2)
    qed
  next
    case False
    then show ?thesis using lt
      by (subst (1 2) flash_page_erased_from.simps) (auto simp: ps hw1)
  qed
qed

lemma is_erased_dev:
  assumes "\<And>k. k < unat (page_size s) \<Longrightarrow> in_array (dev (hw s)) (a + of_nat k)"
    and "4 dvd unat (page_size s)"
  shows "dev (hw (snd (flash_page_is_erased b a s))) = dev (hw s)"
    and "fst (flash_page_is_erased b a s) \<longleftrightarrow>
      (\<forall>k<unat (page_size s). cells (dev (hw s)) (a + of_nat k) = 0xFF)"
proof -
  note all = erased_from_dev [of s a b 0, OF assms(1) refl assms(2)]
  then show "dev (hw (snd (flash_page_is_erased b a s))) = dev (hw s)"
    by (simp add: flash_page_is_erased_def)
  have "fst (flash_page_is_erased b a s) \<longleftrightarrow>
      (\<forall>k. 4 * k < unat (page_size s) \<longrightarrow> (\<forall>j<4. cells (dev (hw s)) (a + of_nat (4 * k + j)) = 0xFF))"
    using all by (simp add: flash_page_is_erased_def word_at_ones add.assoc)
  then show "fst (flash_page_is_erased b a s) \<longleftrightarrow>
      (\<forall>k<unat (page_size s). cells (dev (hw s)) (a + of_nat k) = 0xFF)"
    by (simp only: words_to_bytes [OF assms(2), of "\<lambda>k. cells (dev (hw s)) (a + of_nat k) = 0xFF"])
qed

lemma program16_from_dev:
  assumes "d_ctl (dev (hw s)) = 1" "d_busy (dev (hw s)) = 0" "unat a mod 2 = 0"
    and "erased_span (dev (hw s)) (a + of_nat (2 * i)) (2 * n)" "2 * i + 2 * n \<le> 2 ^ 32"
  shows "\<exists>s'. flash_program16_from b a d i n s = Some s' \<and>
    dev (hw s') = (dev (hw s))\<lparr>cells := overlay (cells (dev (hw s))) a (2 * i) (2 * n) d\<rparr>"
  using assms
proof (induction n arbitrary: i s)
  case (Suc n)
  let ?D = "dev (hw s)" and ?a = "a + of_nat (2 * i)"
  define m where "m = (cells ?D)(?a := d ! (2 * i), ?a + 1 := d ! (2 * i + 1))"
  define t where "t = wr16 b (a + 2 * of_nat i) (buf16 d i) s"
  have span2: "erased_span ?D ?a 2"
    using Suc.prems(4) by (simp add: erased_span_def)
  have "in_array ?D ?a" using span2 by (auto simp: erased_span_def dest: spec [of _ 0])
  then have "dev (hw t) = dev_prog16 ?a (buf16 d i) ?D"
    using prog16 by (simp add: t_def)
  also have "\<dots> = ?D\<lparr>cells := m, d_busy := d_delay ?D\<rparr>"
    using programmable_at [OF span2 Suc.prems(1) Suc.prems(3)]
    by (simp add: dev_prog16_def buf16_def m_def)
  finally have t: "dev (hw t) = \<dots>" .
  obtain s1 where s1: "flash_wait_for_last_operation b t = Some s1"
      "dev (hw s1) = (dev (hw t))\<lparr>d_busy := 0\<rparr>"
    by (rule wait_devE)
  have d1: "dev (hw s1) = ?D\<lparr>cells := m\<rparr>" using s1(2) t Suc.prems(2) by simp
  have "erased_span ?D (a + of_nat (2 * i + 2)) (2 * n)"
    using erased_span_shift [of ?D a "2 * i" 2 "2 * n"] Suc.prems(4) by simp
  then have span: "erased_span (dev (hw s1)) (a + of_nat (2 * i + 2)) (2 * n)"
  proof (rule erased_span_frame)
    fix j assume "2 * i + 2 \<le> j" "j < 2 * i + 2 + 2 * n"
    then have "a + of_nat j \<noteq> ?a" "a + of_nat j \<noteq> a + of_nat (2 * i + 1)"
      using offset_inj [of j "2 * i" a] offset_inj [of j "2 * i + 1" a] Suc.prems(5) by simp_all
    then show "cells (dev (hw s1)) (a + of_nat j) = cells ?D (a + of_nat j)"
      by (simp add: d1 m_def ac_simps)
  qed (use Suc.prems(5) d1 in simp_all)
  have "\<exists>s'. flash_program16_from b a d (Suc i) n s1 = Some s' \<and>
    dev (hw s') = (dev (hw s1))\<lparr>cells := overlay (cells (dev (hw s1))) a (2 * Suc i) (2 * n) d\<rparr>"
    by (rule Suc.IH) (use Suc.prems d1 span in \<open>simp_all add: add.commute [of 2]\<close>)
  then show ?case
    using s1(1) overlay_pair [of "2 * i" "2 * n" "cells ?D" a d] Suc.prems(5)
    by (simp add: t_def [symmetric] d1 m_def [symmetric] add.commute [of 2]) (simp add: m_def)
qed simp


lemma program32_from_dev:
  assumes "d_ctl (dev (hw s)) = 1" "d_busy (dev (hw s)) = 0" "unat a mod 4 = 0"
    and "erased_span (dev (hw s)) (a + of_nat (4 * i)) (4 * n)" "4 * i + 4 * n \<le> 2 ^ 32"
  shows "\<exists>s'. flash_program32_from b a d i n s = Some s' \<and>
    dev (hw s') = (dev (hw s))\<lparr>cells := overlay (cells (dev (hw s))) a (4 * i) (4 * n) d\<rparr>"
  using assms
proof (induction n arbitrary: i s)
  case (Suc n)
  let ?D = "dev (hw s)" and ?a = "a + of_nat (4 * i)"
  define m where "m = (cells ?D)(?a := d ! (4 * i), ?a + 1 := d ! (4 * i + 1),
    ?a + 2 := d ! (4 * i + 2), ?a + 3 := d ! (4 * i + 3))"
  define t where "t = wr32 b (a + 4 * of_nat i) (buf32 d i) s"
  have span4: "erased_span ?D ?a 4"
    using Suc.prems(4) by (simp add: erased_span_def)
  have "in_array ?D ?a" using span4 by (auto simp: erased_span_def dest: spec [of _ 0])
  then have "dev (hw t) = dev_prog32 ?a (buf32 d i) ?D"
    using prog32 by (simp add: t_def)
  also have "\<dots> = ?D\<lparr>cells := m, d_busy := d_delay ?D\<rparr>"
    using programmable_at [OF span4 Suc.prems(1) Suc.prems(3)]
    by (simp add: dev_prog32_def buf32_def m_def)
  finally have t: "dev (hw t) = \<dots>" .
  obtain s1 where s1: "flash_wait_for_last_operation b t = Some s1"
      "dev (hw s1) = (dev (hw t))\<lparr>d_busy := 0\<rparr>"
    by (rule wait_devE)
  have d1: "dev (hw s1) = ?D\<lparr>cells := m\<rparr>" using s1(2) t Suc.prems(2) by simp
  have "erased_span ?D (a + of_nat (4 * i + 4)) (4 * n)"
    using erased_span_shift [of ?D a "4 * i" 4 "4 * n"] Suc.prems(4) by simp
  then have span: "erased_span (dev (hw s1)) (a + of_nat (4 * i + 4)) (4 * n)"
  proof (rule erased_span_frame)
    fix j assume j: "4 * i + 4 \<le> j" "j < 4 * i + 4 + 4 * n"
    then have "a + of_nat j \<noteq> a + of_nat (4 * i + k)" if "k < 4" for k
      using that Suc.prems(5) offset_inj [of j "4 * i + k" a] by simp
    from this [of 0] this [of 1] this [of 2] this [of 3]
    show "cells (dev (hw s1)) (a + of_nat j) = cells ?D (a + of_nat j)"
      by (simp add: d1 m_def ac_simps)
  qed (use Suc.prems(5) d1 in simp_all)
  have "\<exists>s'. flash_program32_from b a d (Suc i) n s1 = Some s' \<and>
    dev (hw s') = (dev (hw s1))\<lparr>cells := overlay (cells (dev (hw s1))) a (4 * Suc i) (4 * n) d\<rparr>"
    by (rule Suc.IH) (use Suc.prems d1 span in \<open>simp_all add: add.commute [of 4]\<close>)
  then show ?case
    using s1(1) overlay_quad [of "4 * i" "4 * n" "cells ?D" a d] Suc.prems(5)
    by (simp add: t_def [symmetric] d1 m_def [symmetric] add.commute [of 4]) (simp add: m_def)
qed simp

text \<open>A block on an erased span, from an unlocked controller: the 16-bit routine programs the
  largest even number of bytes.\<close>

lemma program_buffer_dev:
  assumes "d_ctl (dev (hw s)) = 0" "unat a mod 2 = 0" "n \<le> 2 ^ 32"
    and "erased_span (dev (hw s)) a (2 * (n div 2))"
  obtains s' where "flash_program_buffer b a d n s = Some s'"
    "dev (hw s') = (dev (hw s))\<lparr>d_busy := 0, cells := overlay (cells (dev (hw s))) a 0 (2 * (n div 2)) d\<rparr>"
proof -
  obtain s1 where s1: "flash_wait_for_last_operation b s = Some s1"
      "dev (hw s1) = (dev (hw s))\<lparr>d_busy := 0\<rparr>"
    by (rule wait_devE)
  define s2 where "s2 = mod32 b FLASH_CR (\<lambda>v. v OR FLASH_CR_PG) s1"
  have d2: "dev (hw s2) = (dev (hw s))\<lparr>d_busy := 0, d_ctl := 1\<rparr>"
    unfolding s2_def ctl_mod by (simp add: s1 assms dev_ctl_def)
  have le2: "n div 2 \<le> 2 ^ 31" using assms(3) by simp
  have "erased_span (dev (hw s2)) (a + of_nat (2 * 0)) (2 * (n div 2))"
    using assms(4) by (simp add: erased_span_def d2)
  then obtain s3 where s3: "flash_program16_from b a d 0 (n div 2) s2 = Some s3"
      "dev (hw s3) = (dev (hw s2))\<lparr>cells := overlay (cells (dev (hw s2))) a 0 (2 * (n div 2)) d\<rparr>"
    using program16_from_dev [of s2 a 0 "n div 2" d] assms(2, 3) le2 by (auto simp: d2)
  have "flash_program_buffer b a d n s = Some (mod32 b FLASH_CR (\<lambda>v. v AND NOT FLASH_CR_PG) s3)"
    by (simp only: flash_program_buffer_def flash_program_buffer16_def Let_def s1
        bind.bind_lunit s2_def [symmetric] s3)
  moreover have "dev (hw (mod32 b FLASH_CR (\<lambda>v. v AND NOT FLASH_CR_PG) s3)) =
      (dev (hw s))\<lparr>d_busy := 0, cells := overlay (cells (dev (hw s))) a 0 (2 * (n div 2)) d\<rparr>"
    unfolding ctl_mod by (simp add: s3 d2 dev_ctl_def fmc_locked_def assms)
  ultimately show ?thesis by (rule that)
qed

lemma program_buffer32_dev:
  assumes "d_ctl (dev (hw s)) = 0" "unat a mod 4 = 0" "n \<le> 2 ^ 32" "n mod 4 = 0"
    and "erased_span (dev (hw s)) a n"
  obtains s' where "flash_program_buffer_gd32 b a d n s = Some s'"
    "dev (hw s') = (dev (hw s))\<lparr>d_busy := 0, cells := overlay (cells (dev (hw s))) a 0 n d\<rparr>"
proof -
  obtain s1 where s1: "flash_wait_for_last_operation b s = Some s1"
      "dev (hw s1) = (dev (hw s))\<lparr>d_busy := 0\<rparr>"
    by (rule wait_devE)
  define s2 where "s2 = mod32 b FLASH_CR (\<lambda>v. v OR FLASH_CR_PG) s1"
  have d2: "dev (hw s2) = (dev (hw s))\<lparr>d_busy := 0, d_ctl := 1\<rparr>"
    unfolding s2_def ctl_mod by (simp add: s1 assms dev_ctl_def)
  have n: "4 * (n div 4) = n" using assms(4) by (simp add: mult_div_mod_eq mod_eq_0_iff_dvd)
  have "erased_span (dev (hw s2)) (a + of_nat (4 * 0)) (4 * (n div 4))"
    using assms(5) by (simp only: n) (simp add: erased_span_def d2)
  then obtain s3 where s3: "flash_program32_from b a d 0 (n div 4) s2 = Some s3"
      "dev (hw s3) = (dev (hw s2))\<lparr>cells := overlay (cells (dev (hw s2))) a 0 n d\<rparr>"
    using program32_from_dev [of s2 a 0 "n div 4" d] assms(2, 3) n by (auto simp: d2)
  have "a AND 3 = 0" using assms(2) align4 by simp
  then have "flash_program_buffer_gd32 b a d n s = Some (mod32 b FLASH_CR (\<lambda>v. v AND NOT FLASH_CR_PG) s3)"
    using assms(4) by (simp only: flash_program_buffer_gd32_def flash_program_buffer32_def Let_def s1
        bind.bind_lunit s2_def [symmetric] s3) simp
  moreover have "dev (hw (mod32 b FLASH_CR (\<lambda>v. v AND NOT FLASH_CR_PG) s3)) =
      (dev (hw s))\<lparr>d_busy := 0, cells := overlay (cells (dev (hw s))) a 0 n d\<rparr>"
    unfolding ctl_mod by (simp add: s3 d2 dev_ctl_def fmc_locked_def assms)
  ultimately show ?thesis by (rule that)
qed

text \<open>So the word-wise routine of the GD32 does what the portable one does.\<close>

lemma program_buffer_gd32_dev:
  assumes "d_ctl (dev (hw s)) = 0" "unat a mod 2 = 0" "n \<le> 2 ^ 32"
    and "erased_span (dev (hw s)) a (2 * (n div 2))"
  obtains s' where "flash_program_buffer_gd32 b a d n s = Some s'"
    "dev (hw s') = (dev (hw s))\<lparr>d_busy := 0, cells := overlay (cells (dev (hw s))) a 0 (2 * (n div 2)) d\<rparr>"
proof (cases "n mod 4 \<noteq> 0 \<or> a AND 3 \<noteq> 0")
  case True
  then have "flash_program_buffer_gd32 b a d n s = flash_program_buffer b a d n s"
    by (simp add: flash_program_buffer_gd32_def)
  with program_buffer_dev [OF assms, where d = d] that show ?thesis by metis
next
  case False
  then have "n mod 4 = 0" by simp
  then have "2 * (n div 2) = n" by presburger
  with False assms have "unat a mod 4 = 0" "n mod 4 = 0" "erased_span (dev (hw s)) a n"
    by (simp_all add: align4)
  with program_buffer32_dev [OF assms(1) _ assms(3), where d = d] that show ?thesis
    using \<open>2 * (n div 2) = n\<close> by metis
qed


end

end
