(* ===== verification/FlashPages.thy ===== *)
theory FlashPages
  imports FlashDevice
begin

text \<open>
  Pages of the flash array: what one page erase and the erase loop of \<open>check_do_erase\<close> (also the
  loop of the DFU block write) leave in the array, on any controller that satisfies the laws of
  \<open>fmc_device\<close>; then the properties of the driver.
\<close>

section \<open>Pages\<close>

definition geometry :: "fmc_dev \<Rightarrow> bool" where
  "geometry d \<longleftrightarrow> (d_page d = 1024 \<or> d_page d = 2048) \<and>
     unat (d_size d) mod unat (d_page d) = 0 \<and> d_size d \<le> 0x4000000"

lemma geometry_update [simp]:
  "geometry (d\<lparr>cells := m\<rparr>) = geometry d" "geometry (d\<lparr>d_ctl := v\<rparr>) = geometry d"
  "geometry (d\<lparr>d_ar := v\<rparr>) = geometry d" "geometry (d\<lparr>d_busy := n\<rparr>) = geometry d"
  by (simp_all add: geometry_def)

lemma in_array_unat:
  assumes "geometry d"
  shows "in_array d x \<longleftrightarrow> 0x8000000 \<le> unat x \<and> unat x < 0x8000000 + unat (d_size d)"
proof -
  have sz: "unat (d_size d) \<le> 0x4000000"
    using assms by (simp add: geometry_def word_le_nat_alt)
  have "in_array d x \<longleftrightarrow> unat (x - 0x8000000) < unat (d_size d)"
    using assms by (simp add: in_array_def geometry_def word_less_nat_alt)
  also have "\<dots> \<longleftrightarrow> 0x8000000 \<le> unat x \<and> unat x < 0x8000000 + unat (d_size d)"
  proof (cases "0x8000000 \<le> x")
    case True
    then have "unat (x - 0x8000000) = unat x - 0x8000000" by (simp add: unat_sub)
    moreover have "0x8000000 \<le> unat x" using True by (simp add: word_le_nat_alt)
    ultimately show ?thesis by auto
  next
    case False
    then have "\<not> 0x8000000 \<le> unat x" by (simp add: word_le_nat_alt)
    moreover have "unat (x - 0x8000000) = unat x + 2 ^ 32 - 0x8000000"
      using False calculation by (simp add: unat_sub_if_size word_size)
    ultimately show ?thesis using sz by simp
  qed
  finally show ?thesis .
qed

lemma unat_page_of:
  assumes "geometry d"
  shows "unat (page_of d x) = unat x - unat x mod unat (d_page d)"
proof -
  obtain k where k: "d_page d = 2 ^ k" "unat (d_page d) = 2 ^ k"
    using assms by (auto simp: geometry_def intro: that [of 10] that [of 11])
  have "d_page d - 1 = mask k" by (simp add: k(1) mask_eq_exp_minus_1)
  then have "page_of d x = push_bit k (drop_bit k x)"
    by (intro bit_word_eqI) (auto simp: page_of_def bit_simps)
  then have "unat (page_of d x) = unat (push_bit k (drop_bit k x))" by simp
  also have "\<dots> = take_bit 32 (push_bit k (drop_bit k (take_bit 32 (unat x))))"
    by (simp only: unsigned_push_bit_eq unsigned_drop_bit_eq len_of_numeral_defs) simp
  also have "\<dots> = take_bit 32 (unat x div 2 ^ k * 2 ^ k)"
    using unsigned_less [of x, where 'a = nat]
    by (simp add: push_bit_eq_mult drop_bit_eq_div take_bit_nat_eq_self)
  also have "\<dots> = unat x div 2 ^ k * 2 ^ k"
  proof (rule take_bit_nat_eq_self)
    show "unat x div 2 ^ k * 2 ^ k < 2 ^ 32"
      using unsigned_less [of x, where 'a = nat] by (simp add: le_less_trans [OF div_times_less_eq_dividend])
  qed
  also have "\<dots> = unat x - unat x mod 2 ^ k"
    by (simp only: minus_mod_eq_div_mult)
  finally show ?thesis by (simp only: k(2))
qed

definition range_wiped :: "fmc_dev \<Rightarrow> u32 \<Rightarrow> u32 \<Rightarrow> u32 \<Rightarrow> u8" where
  "range_wiped d a l x = (if in_array d x \<and> a \<le> page_of d x \<and> page_of d x < l then 0xFF else cells d x)"

text \<open>The controller up to what an erase leaves in its address register and its busy counter.\<close>

definition settled :: "fmc_dev \<Rightarrow> fmc_dev" where
  "settled d = d\<lparr>d_ar := 0, d_busy := 0\<rparr>"

lemma settled_simps [simp]:
  "cells (settled d) = cells d" "d_ctl (settled d) = d_ctl d" "geometry (settled d) = geometry d"
  "d_page (settled d) = d_page d" "d_size (settled d) = d_size d" "in_array (settled d) = in_array d"
  "page_of (settled d) = page_of d"
  by (simp_all add: settled_def geometry_def in_array_def page_of_def fun_eq_iff)

lemma settled_eqD:
  assumes "settled d' = (settled d)\<lparr>cells := m\<rparr>"
  shows "cells d' = m" "d_ctl d' = d_ctl d" "d_page d' = d_page d" "d_size d' = d_size d"
    "d_key1 d' = d_key1 d" "d_delay d' = d_delay d"
  using assms by (cases d; cases d'; simp add: settled_def)+

lemma multiple_room:
  fixes a e k p :: nat
  assumes "p dvd a" "p dvd e" "a < e" "k < p"
  shows "a + k < e"
proof -
  have "p \<le> e - a" using assms by (intro dvd_imp_le dvd_diff_nat) simp_all
  with assms show ?thesis by simp
qed

lemma page_in_array:
  assumes "geometry d" "unat a mod unat (d_page d) = 0" "0x8000000 \<le> unat a"
    and "unat a < 0x8000000 + unat (d_size d)" "k < unat (d_page d)"
  shows "in_array d (a + of_nat k)" "unat (a + of_nat k) = unat a + k"
proof -
  have size: "unat (d_size d) \<le> 0x4000000"
    using assms(1) by (simp add: geometry_def word_le_nat_alt)
  have base: "unat (d_page d) dvd 0x8000000"
    using assms(1) by (auto simp: geometry_def)
  have fits: "unat a + k < 0x8000000 + unat (d_size d)"
    using assms(1, 2) base
    by (intro multiple_room [OF _ _ assms(4, 5)] dvd_add) (simp_all add: geometry_def mod_eq_0_iff_dvd)
  then have "unat a + k < 2 ^ 32" using size by simp
  then show eq: "unat (a + of_nat k) = unat a + k"
    by (simp add: unat_word_ariths unsigned_of_nat take_bit_eq_mod mod_simps)
  show "in_array d (a + of_nat k)"
    using fits assms(3) by (simp add: in_array_unat [OF assms(1)] eq)
qed

lemma same_page:
  assumes "geometry d" "unat a mod unat (d_page d) = 0" "page_of d x = page_of d a"
  obtains k where "k < unat (d_page d)" "x = a + of_nat k"
proof -
  have pos: "0 < unat (d_page d)" using assms(1) by (auto simp: geometry_def)
  have "unat x - unat x mod unat (d_page d) = unat a"
    using arg_cong [OF assms(3), of unat] assms(2) by (simp add: unat_page_of [OF assms(1)])
  moreover have "unat x mod unat (d_page d) \<le> unat x" by simp
  ultimately have "unat x = unat a + unat x mod unat (d_page d)" by linarith
  then have "(of_nat (unat x) :: u32) = of_nat (unat a + unat x mod unat (d_page d))" by simp
  then have "x = a + of_nat (unat x mod unat (d_page d))" by (simp only: of_nat_add) simp
  with pos show ?thesis by (intro that [of "unat x mod unat (d_page d)"]) simp_all
qed


lemma page_of_start:
  "geometry d \<Longrightarrow> unat a mod unat (d_page d) = 0 \<Longrightarrow> page_of d a = a"
  by (rule unsigned_word_eqI [where 'a = nat]) (simp add: unat_page_of)

lemma range_wiped_step:
  assumes g: "geometry d" and al: "unat a mod unat (d_page d) = 0" and lt: "a < l"
    and room: "unat a + unat (d_page d) < 2 ^ 32"
    and d': "cells d' = wiped d a" "in_array d' = in_array d" "page_of d' = page_of d"
  shows "range_wiped d' (a + d_page d) l = range_wiped d a l"
proof
  fix x
  let ?p = "unat (d_page d)"
  have pos: "0 < ?p" using g by (auto simp: geometry_def)
  have next_page: "unat (a + d_page d) = unat a + ?p"
    using room by (simp add: unat_word_ariths)
  have xp: "?p dvd unat (page_of d x)"
    by (simp add: unat_page_of [OF g] minus_mod_eq_mult_div)
  have "a \<le> page_of d x \<longleftrightarrow> page_of d x = a \<or> a + d_page d \<le> page_of d x"
  proof -
    have "unat a < unat (page_of d x) \<longleftrightarrow> unat a + ?p \<le> unat (page_of d x)"
      using multiple_room [of ?p "unat a" "unat (page_of d x)" "?p - 1"] al xp pos by auto
    then show ?thesis
      by (auto simp: word_le_nat_alt next_page le_less unsigned_word_eqI [where 'a = nat])
  qed
  then show "range_wiped d' (a + d_page d) l x = range_wiped d a l x"
    using lt by (auto simp: range_wiped_def d' wiped_def page_of_start [OF g al])
qed

context fmc_device begin

lemma erase_if_needed_dev:
  assumes g: "geometry (dev (hw s))" and ctl: "d_ctl (dev (hw s)) = 0"
    and ps: "page_size s = d_page (dev (hw s))"
    and al: "unat a mod unat (page_size s) = 0"
    and rng: "0x8000000 \<le> unat a" "unat a < 0x8000000 + unat (d_size (dev (hw s)))"
  obtains s' where "erase_if_needed b a s = Some s'"
    "settled (dev (hw s')) = (settled (dev (hw s)))\<lparr>cells := wiped (dev (hw s)) a\<rparr>"
proof -
  let ?D = "dev (hw s)"
  obtain e s1 where e: "flash_page_is_erased b a s = (e, s1)" by fastforce
  have inn: "in_array ?D (a + of_nat k)" if "k < unat (page_size s)" for k
    using page_in_array(1) [OF g _ rng, of k] that al ps by simp
  have four: "4 dvd unat (page_size s)" using g ps by (auto simp: geometry_def)
  note er = is_erased_dev [of s a, OF inn four]
  have d1: "dev (hw s1) = ?D" using er(1) e by simp
  show ?thesis
  proof (cases e)
    case True
    have "wiped ?D a = cells ?D"
    proof
      fix x
      show "wiped ?D a x = cells ?D x"
        using er(2) e True al ps by (auto simp: wiped_def elim!: same_page [OF g, rotated])
    qed
    then show ?thesis using e True d1 by (intro that [of s1]) (simp_all add: erase_if_needed_def settled_def)
  next
    case False
    from ctl d1 have "d_ctl (dev (hw s1)) = 0" by simp
    then obtain s2 where "flash_erase_page b a s1 = Some s2"
        "dev (hw s2) = (dev (hw s1))\<lparr>cells := wiped (dev (hw s1)) a, d_ar := a, d_busy := 0\<rparr>"
      by (rule erase_page_dev)
    then show ?thesis using e False d1 by (intro that [of s2]) (simp_all add: erase_if_needed_def settled_def)
  qed
qed

lemma erase_range_dev:
  assumes "geometry (dev (hw s))" and "d_ctl (dev (hw s)) = 0"
    and "page_size s = d_page (dev (hw s))"
    and "unat a mod unat (page_size s) = 0"
    and "0x8000000 \<le> unat a" "unat l \<le> 0x8000000 + unat (d_size (dev (hw s)))"
  shows "\<exists>s'. flash_erase_range b a l s = Some s' \<and>
    settled (dev (hw s')) = (settled (dev (hw s)))\<lparr>cells := range_wiped (dev (hw s)) a l\<rparr>"
  using assms
proof (induction "unat l - unat a" arbitrary: a s rule: less_induct)
  case less
  let ?D = "dev (hw s)"
  show ?case
  proof (cases "a < l")
    case False
    then have "range_wiped ?D a l = cells ?D" by (auto simp: range_wiped_def fun_eq_iff)
    with False show ?thesis by (subst erase_range_unfold) (simp add: settled_def)
  next
    case True
    then have lt: "unat a < unat l" by (simp add: word_less_nat_alt)
    then have rng: "unat a < 0x8000000 + unat (d_size ?D)" using less.prems(6) by simp
    obtain s2 where s2: "erase_if_needed b a s = Some s2"
        "settled (dev (hw s2)) = (settled ?D)\<lparr>cells := wiped ?D a\<rparr>"
      by (rule erase_if_needed_dev [OF less.prems(1-5) rng])
    note d2 = settled_eqD [OF s2(2)]
    have g2: "geometry (dev (hw s2))" using less.prems(1) d2 by (simp add: geometry_def)
    have p2: "page_size s2 = page_size s"
      by (rule flash_only_eqs(5) [OF flash_only_erase_if_needed [OF s2(1)]])
    define s3 where "s3 = snd (get_flash_page_size s2)"
    have s3: "hw s3 = hw s2" "page_size s3 = page_size s2"
      using flash_only_eqs(5) [OF flash_only_get_page_size [of s2]]
      by (simp_all add: s3_def get_flash_page_size_def Let_def)
    let ?a = "a + page_size s2"
    have "unat (page_size s) \<le> 2048" "0 < unat (page_size s)"
      using less.prems(1,3) by (auto simp: geometry_def)
    moreover have size: "unat (d_size ?D) \<le> 0x4000000"
      using less.prems(1) by (simp add: geometry_def word_le_nat_alt)
    ultimately have next_page: "unat ?a = unat a + unat (page_size s)" "unat a + unat (page_size s) < 2 ^ 32"
      using rng by (simp_all add: unat_word_ariths p2)
    have same: "in_array (dev (hw s2)) = in_array ?D" "page_of (dev (hw s2)) = page_of ?D"
      by (simp_all add: in_array_def page_of_def d2 fun_eq_iff)
    have step: "range_wiped (dev (hw s2)) ?a l = range_wiped ?D a l"
      unfolding p2 less.prems(3)
      by (rule range_wiped_step) (use less.prems next_page(2) d2 same True in simp_all)
    have dec: "unat l - unat ?a < unat l - unat a"
      using lt next_page(1) \<open>0 < unat (page_size s)\<close> by linarith
    obtain s' where s': "flash_erase_range b ?a l s3 = Some s'"
        "settled (dev (hw s')) = (settled (dev (hw s3)))\<lparr>cells := range_wiped (dev (hw s3)) ?a l\<rparr>"
      using less.hyps [OF dec, of s3] less.prems g2 d2 p2 s3 next_page by auto
    have "flash_erase_range b a l s = Some s'"
      using True s2(1) s'(1) by (subst erase_range_unfold) (simp add: s3_def)
    moreover have "settled (dev (hw s')) = (settled ?D)\<lparr>cells := range_wiped ?D a l\<rparr>"
      using s'(2) s2(2) by (simp add: s3 step)
    ultimately show ?thesis by blast
  qed
qed

end

section \<open>Properties\<close>

definition flash_demo :: fmc_dev where
  "flash_demo = \<lparr>cells = (\<lambda>_. 0xFF), d_ctl = FLASH_CR_LOCK, d_ar = 0, d_busy = 2, d_key1 = False,
     d_page = 1024, d_size = 0x10000, d_delay = 3\<rparr>"

definition flash_boot :: "fmc_dev \<Rightarrow> fmc_dev flash_world" where
  "flash_boot d = \<lparr>hw = d, cpu_mcu = LN_MCU_ARM_F3, cpu_vendor = LN_VENDOR_STM, cpu_cpuId = 0,
     cpu_flashSize = 64, cpu_ramSize = 0, SystemCoreClock = 0, cached_size = 0, safe_erased = False\<rparr>"

lemma flash_boot_simps [simp]:
  "hw (flash_boot d) = d" "page_size (flash_boot d) = 1024" "flash_app_end (flash_boot d) = 0x8010000"
  "safe_erased (flash_boot d) = False"
  by (simp_all add: flash_boot_def page_size_def get_flash_page_size_def lnCpuID_vendor_def
      flash_app_end_def lnCpuID_flashSize_def)

lemma geometry_demo: "geometry flash_demo"
  by (simp add: geometry_def flash_demo_def)

text \<open>A page counts as erased exactly when every byte of it reads 0xFF, and asking changes
  nothing on the controller.\<close>

theorem page_is_erased_iff:
  assumes "fmc_device b dev" "4 dvd unat (page_size s)"
    and "\<And>k. k < unat (page_size s) \<Longrightarrow> in_array (dev (hw s)) (a + of_nat k)"
  shows "(fst (flash_page_is_erased b a s) \<longleftrightarrow>
      (\<forall>k<unat (page_size s). cells (dev (hw s)) (a + of_nat k) = 0xFF)) \<and>
    dev (hw (snd (flash_page_is_erased b a s))) = dev (hw s)"
  using fmc_device.is_erased_dev [OF assms(1) assms(3, 2)] by simp

lemma page_is_erased_iff_witness:
  "\<not> fst (flash_page_is_erased fmc_bus 0x8002000
     (flash_boot (flash_demo\<lparr>cells := (\<lambda>_. 0xFF)(0x80023FF := 0)\<rparr>)))"
proof -
  let ?d = "flash_demo\<lparr>cells := (\<lambda>_. 0xFF)(0x80023FF := 0)\<rparr>"
  have g: "geometry ?d" by (simp add: geometry_demo)
  have "in_array (hw (flash_boot ?d)) (0x8002000 + of_nat k)" if "k < 1024" for k
    using page_in_array(1) [OF g, of "0x8002000" k] that by (simp add: flash_demo_def)
  from page_is_erased_iff [OF fmc.fmc_device_axioms, of "flash_boot ?d" "0x8002000"] this
  have "fst (flash_page_is_erased fmc_bus 0x8002000 (flash_boot ?d)) \<longleftrightarrow>
      (\<forall>k<1024. cells ?d (0x8002000 + of_nat k) = 0xFF)"
    by simp
  moreover have "cells ?d (0x8002000 + of_nat 1023) \<noteq> 0xFF" by simp
  moreover have "(1023 :: nat) < 1024" by simp
  ultimately show ?thesis by blast
qed

text \<open>C17: the first call of \<open>check_do_erase\<close> terminates, leaves every byte of the application
  area erased and no other byte changed, and records that it did so; every later call does
  nothing.\<close>

theorem check_do_erase_wipes:
  assumes "fmc_device b dev" "geometry (dev (hw s))" "d_ctl (dev (hw s)) = 0"
    and "page_size s = d_page (dev (hw s))" "unat (flash_app_end s) \<le> 0x8000000 + unat (d_size (dev (hw s)))"
    and "\<not> safe_erased s"
  shows "\<exists>s'. check_do_erase b s = Some s' \<and> safe_erased s' \<and> check_do_erase b s' = Some s' \<and>
    cells (dev (hw s')) = range_wiped (dev (hw s)) flash_app_start (flash_app_end s)"
proof -
  have start: "flash_app_start = 0x8002000" by (simp add: flash_app_start_def)
  have al: "unat flash_app_start mod unat (page_size s) = 0"
    using assms(2, 4) by (auto simp: start geometry_def)
  obtain s1 where s1: "flash_erase_range b flash_app_start (flash_app_end s) s = Some s1"
      "settled (dev (hw s1)) = (settled (dev (hw s)))\<lparr>cells := range_wiped (dev (hw s)) flash_app_start (flash_app_end s)\<rparr>"
    using fmc_device.erase_range_dev [OF assms(1-4) al _ assms(5)] by (auto simp: start)
  show ?thesis
    using assms(6) s1(1) settled_eqD(1) [OF s1(2)] by (simp add: check_do_erase_def)
qed

lemma check_do_erase_wipes_witness:
  "\<exists>s'. check_do_erase fmc_bus (flash_boot (flash_demo\<lparr>d_ctl := 0, cells := (\<lambda>_. 0)\<rparr>)) = Some s' \<and>
     cells (hw s') 0x8001FFF = 0 \<and> cells (hw s') 0x8002000 = 0xFF"
proof -
  let ?d = "flash_demo\<lparr>d_ctl := 0, cells := (\<lambda>_. 0)\<rparr>"
  have g: "geometry (hw (flash_boot ?d))" by (simp add: geometry_demo)
  have "\<exists>s'. check_do_erase fmc_bus (flash_boot ?d) = Some s' \<and> safe_erased s' \<and> check_do_erase fmc_bus s' = Some s' \<and>
    cells (hw s') = range_wiped (hw (flash_boot ?d)) flash_app_start (flash_app_end (flash_boot ?d))"
    by (rule check_do_erase_wipes [OF fmc.fmc_device_axioms g]) (simp_all add: flash_demo_def)
  then show ?thesis
    by (auto simp: range_wiped_def in_array_def page_of_def flash_demo_def flash_app_start_def)
qed

text \<open>C28: on a span of erased bytes, and from an unlocked controller, the word-wise routine of the
  GD32 and the portable one both return and leave the same memory: the bytes of the buffer, up to
  the largest even length, and nothing else changed.\<close>

theorem program_buffer_agree:
  assumes "fmc_device b dev" "d_ctl (dev (hw s)) = 0" "unat a mod 2 = 0" "n \<le> 2 ^ 32"
    and "erased_span (dev (hw s)) a (2 * (n div 2))"
  shows "\<exists>s1 s2. flash_program_buffer b a d n s = Some s1 \<and> flash_program_buffer_gd32 b a d n s = Some s2 \<and>
    dev (hw s1) = dev (hw s2) \<and>
    cells (dev (hw s1)) = overlay (cells (dev (hw s))) a 0 (2 * (n div 2)) d"
proof -
  obtain s1 where s1: "flash_program_buffer b a d n s = Some s1"
    "dev (hw s1) = (dev (hw s))\<lparr>d_busy := 0, cells := overlay (cells (dev (hw s))) a 0 (2 * (n div 2)) d\<rparr>"
    by (rule fmc_device.program_buffer_dev [OF assms])
  obtain s2 where s2: "flash_program_buffer_gd32 b a d n s = Some s2"
    "dev (hw s2) = (dev (hw s))\<lparr>d_busy := 0, cells := overlay (cells (dev (hw s))) a 0 (2 * (n div 2)) d\<rparr>"
    by (rule fmc_device.program_buffer_gd32_dev [OF assms])
  show ?thesis using s1 s2 by auto
qed

lemma program_buffer_agree_witness:
  "\<exists>s1. flash_program_buffer_gd32 fmc_bus 0x8002000 [1, 2, 3, 4, 5] 5 (flash_boot (flash_demo\<lparr>d_ctl := 0\<rparr>)) = Some s1 \<and>
     cells (hw s1) 0x8002003 = 4 \<and> cells (hw s1) 0x8002004 = 0xFF"
proof -
  let ?d = "flash_demo\<lparr>d_ctl := 0\<rparr>"
  have "erased_span (hw (flash_boot ?d)) 0x8002000 (2 * (5 div 2))"
  proof -
    have "in_array ?d (0x8002000 + of_nat k)" if "k < 4" for k
      using that by (intro page_in_array(1)) (simp_all add: geometry_demo, simp_all add: flash_demo_def)
    then show ?thesis by (simp add: erased_span_def) (simp add: flash_demo_def)
  qed
  from program_buffer_agree [OF fmc.fmc_device_axioms _ _ _ this, of "[1, 2, 3, 4, 5]"] show ?thesis
    by (auto simp: overlay_def flash_demo_def)
qed

end
