(* ===== verification/UsbDefs.thy ===== *)
theory UsbDefs
  imports BootPrelude
begin

text \<open>
  \<open>src_stage2/usb.h\<close>: the enumerations, packed structures, constants and register macros of
  the USB device peripheral. A register macro is a function on the state: \<open>GET_REG\<close> is one 32-bit
  load cut to 16 bits, \<open>SET_REG\<close> one 32-bit store of a 16-bit value; a macro that reads
  a register several times loads it several times.
\<close>

section \<open>Enumerations\<close>

datatype dfu_req =
    DFU_DETACH | DFU_DNLOAD | DFU_UPLOAD | DFU_GETSTATUS | DFU_CLRSTATUS | DFU_GETSTATE | DFU_ABORT

text \<open>The request code arrives as a byte: the \<open>switch\<close> of the handler has these cases.\<close>

definition dfu_req_of :: "u8 \<Rightarrow> dfu_req option" where
  "dfu_req_of r =
     (if r = 0 then Some DFU_DETACH else if r = 1 then Some DFU_DNLOAD
      else if r = 2 then Some DFU_UPLOAD else if r = 3 then Some DFU_GETSTATUS
      else if r = 4 then Some DFU_CLRSTATUS else if r = 5 then Some DFU_GETSTATE
      else if r = 6 then Some DFU_ABORT else None)"

datatype dfu_status =
    DFU_STATUS_OK | DFU_STATUS_ERR_TARGET | DFU_STATUS_ERR_FILE | DFU_STATUS_ERR_WRITE
  | DFU_STATUS_ERR_ERASE | DFU_STATUS_ERR_CHECK_ERASED | DFU_STATUS_ERR_PROG
  | DFU_STATUS_ERR_VERIFY | DFU_STATUS_ERR_ADDRESS | DFU_STATUS_ERR_NOTDONE
  | DFU_STATUS_ERR_FIRMWARE | DFU_STATUS_ERR_VENDOR | DFU_STATUS_ERR_USBR | DFU_STATUS_ERR_POR
  | DFU_STATUS_ERR_UNKNOWN | DFU_STATUS_ERR_STALLEDPKT

fun dfu_status_code :: "dfu_status \<Rightarrow> u8" where
  "dfu_status_code DFU_STATUS_OK = 0"
| "dfu_status_code DFU_STATUS_ERR_TARGET = 1"
| "dfu_status_code DFU_STATUS_ERR_FILE = 2"
| "dfu_status_code DFU_STATUS_ERR_WRITE = 3"
| "dfu_status_code DFU_STATUS_ERR_ERASE = 4"
| "dfu_status_code DFU_STATUS_ERR_CHECK_ERASED = 5"
| "dfu_status_code DFU_STATUS_ERR_PROG = 6"
| "dfu_status_code DFU_STATUS_ERR_VERIFY = 7"
| "dfu_status_code DFU_STATUS_ERR_ADDRESS = 8"
| "dfu_status_code DFU_STATUS_ERR_NOTDONE = 9"
| "dfu_status_code DFU_STATUS_ERR_FIRMWARE = 10"
| "dfu_status_code DFU_STATUS_ERR_VENDOR = 11"
| "dfu_status_code DFU_STATUS_ERR_USBR = 12"
| "dfu_status_code DFU_STATUS_ERR_POR = 13"
| "dfu_status_code DFU_STATUS_ERR_UNKNOWN = 14"
| "dfu_status_code DFU_STATUS_ERR_STALLEDPKT = 15"

datatype dfu_state =
    STATE_APP_IDLE | STATE_APP_DETACH | STATE_DFU_IDLE | STATE_DFU_DNLOAD_SYNC | STATE_DFU_DNBUSY
  | STATE_DFU_DNLOAD_IDLE | STATE_DFU_MANIFEST_SYNC | STATE_DFU_MANIFEST
  | STATE_DFU_MANIFEST_WAIT_RESET | STATE_DFU_UPLOAD_IDLE | STATE_DFU_ERROR

fun dfu_state_code :: "dfu_state \<Rightarrow> u8" where
  "dfu_state_code STATE_APP_IDLE = 0"
| "dfu_state_code STATE_APP_DETACH = 1"
| "dfu_state_code STATE_DFU_IDLE = 2"
| "dfu_state_code STATE_DFU_DNLOAD_SYNC = 3"
| "dfu_state_code STATE_DFU_DNBUSY = 4"
| "dfu_state_code STATE_DFU_DNLOAD_IDLE = 5"
| "dfu_state_code STATE_DFU_MANIFEST_SYNC = 6"
| "dfu_state_code STATE_DFU_MANIFEST = 7"
| "dfu_state_code STATE_DFU_MANIFEST_WAIT_RESET = 8"
| "dfu_state_code STATE_DFU_UPLOAD_IDLE = 9"
| "dfu_state_code STATE_DFU_ERROR = 10"

datatype usbd_request_return_codes = USBD_REQ_NOTSUPP | USBD_REQ_HANDLED | USBD_REQ_NEXT_CALLBACK

text \<open>A return code as a C condition: \<open>USBD_REQ_NOTSUPP\<close> is 0.\<close>

definition ret_true :: "usbd_request_return_codes \<Rightarrow> bool" where
  "ret_true c \<longleftrightarrow> c \<noteq> USBD_REQ_NOTSUPP"

section \<open>Packed structures\<close>

record usb_dfu_descriptor =
  dfu_bLength :: u8
  dfu_bDescriptorType :: u8
  dfu_bmAttributes :: u8
  wDetachTimeout :: u16
  wTransferSize :: u16
  bcdDFUVersion :: u16

record usb_device_descriptor =
  dev_bLength :: u8
  dev_bDescriptorType :: u8
  bcdUSB :: u16
  bDeviceClass :: u8
  bDeviceSubClass :: u8
  bDeviceProtocol :: u8
  bMaxPacketSize0 :: u8
  idVendor :: u16
  idProduct :: u16
  bcdDevice :: u16
  iManufacturer :: u8
  iProduct :: u8
  iSerialNumber :: u8
  bNumConfigurations :: u8

record usb_config_descriptor =
  cfg_bLength :: u8
  cfg_bDescriptorType :: u8
  wTotalLength :: u16
  bNumInterfaces :: u8
  bConfigurationValue :: u8
  iConfiguration :: u8
  cfg_bmAttributes :: u8
  bMaxPower :: u8

record usb_interface_descriptor =
  if_bLength :: u8
  if_bDescriptorType :: u8
  bInterfaceNumber :: u8
  bAlternateSetting :: u8
  bNumEndpoints :: u8
  bInterfaceClass :: u8
  bInterfaceSubClass :: u8
  bInterfaceProtocol :: u8
  iInterface :: u8

record usb_setup_data =
  bmRequestType :: u8
  bRequest :: u8
  wValue :: u16
  wIndex :: u16
  wLength :: u16

text \<open>The bytes of the structures in memory (packed, little endian).\<close>

definition le16 :: "u16 \<Rightarrow> u8 list" where
  "le16 w = [lo8 w, hi8 w]"

definition bytes_of_dfu :: "usb_dfu_descriptor \<Rightarrow> u8 list" where
  "bytes_of_dfu d = [dfu_bLength d, dfu_bDescriptorType d, dfu_bmAttributes d] @
     le16 (wDetachTimeout d) @ le16 (wTransferSize d) @ le16 (bcdDFUVersion d)"

definition bytes_of_device :: "usb_device_descriptor \<Rightarrow> u8 list" where
  "bytes_of_device d = [dev_bLength d, dev_bDescriptorType d] @ le16 (bcdUSB d) @
     [bDeviceClass d, bDeviceSubClass d, bDeviceProtocol d, bMaxPacketSize0 d] @
     le16 (idVendor d) @ le16 (idProduct d) @ le16 (bcdDevice d) @
     [iManufacturer d, iProduct d, iSerialNumber d, bNumConfigurations d]"

definition bytes_of_config :: "usb_config_descriptor \<Rightarrow> u8 list" where
  "bytes_of_config d = [cfg_bLength d, cfg_bDescriptorType d] @ le16 (wTotalLength d) @
     [bNumInterfaces d, bConfigurationValue d, iConfiguration d, cfg_bmAttributes d, bMaxPower d]"

definition bytes_of_interface :: "usb_interface_descriptor \<Rightarrow> u8 list" where
  "bytes_of_interface d = [if_bLength d, if_bDescriptorType d, bInterfaceNumber d,
     bAlternateSetting d, bNumEndpoints d, bInterfaceClass d, bInterfaceSubClass d,
     bInterfaceProtocol d, iInterface d]"

definition bytes_of_setup :: "usb_setup_data \<Rightarrow> u8 list" where
  "bytes_of_setup r = [bmRequestType r, bRequest r] @ le16 (wValue r) @ le16 (wIndex r) @ le16 (wLength r)"

text \<open>Overwriting the first bytes of the structure, as the copy out of packet memory does.\<close>

definition setup_of_bytes :: "u8 list \<Rightarrow> usb_setup_data" where
  "setup_of_bytes bs =
     \<lparr>bmRequestType = bs ! 0, bRequest = bs ! 1, wValue = mk16 (bs ! 2) (bs ! 3),
      wIndex = mk16 (bs ! 4) (bs ! 5), wLength = mk16 (bs ! 6) (bs ! 7)\<rparr>"

definition setup_overwrite :: "u8 list \<Rightarrow> usb_setup_data \<Rightarrow> usb_setup_data" where
  "setup_overwrite bs r = setup_of_bytes (bs @ drop (length bs) (bytes_of_setup r))"

lemma length_le16 [simp]: "length (le16 w) = 2"
  by (simp add: le16_def)

lemma length_bytes [simp]:
  "length (bytes_of_dfu f) = 9" "length (bytes_of_device d) = 18" "length (bytes_of_config c) = 9"
  "length (bytes_of_interface i) = 9" "length (bytes_of_setup r) = 8"
  by (simp_all add: bytes_of_dfu_def bytes_of_device_def bytes_of_config_def bytes_of_interface_def
      bytes_of_setup_def)

lemma setup_of_bytes_of_setup [simp]: "setup_of_bytes (bytes_of_setup r) = r"
  by (simp add: setup_of_bytes_def bytes_of_setup_def le16_def)

lemma setup_overwrite_none [simp]: "setup_overwrite [] r = r"
  by (simp add: setup_overwrite_def)

lemma setup_overwrite_all: "length bs = 8 \<Longrightarrow> setup_overwrite bs r = setup_of_bytes bs"
  by (simp add: setup_overwrite_def)

section \<open>Constants\<close>

abbreviation DFU_FUNCTIONAL :: u8 where "DFU_FUNCTIONAL \<equiv> 0x21"
abbreviation USB_DFU_CAN_DOWNLOAD :: u8 where "USB_DFU_CAN_DOWNLOAD \<equiv> 1"
abbreviation USB_DFU_CAN_UPLOAD :: u8 where "USB_DFU_CAN_UPLOAD \<equiv> 2"
abbreviation USB_DFU_WILL_DETACH :: u8 where "USB_DFU_WILL_DETACH \<equiv> 8"
abbreviation USB_DT_DEVICE :: u8 where "USB_DT_DEVICE \<equiv> 1"
abbreviation USB_DT_CONFIGURATION :: u8 where "USB_DT_CONFIGURATION \<equiv> 2"
abbreviation USB_DT_STRING :: u8 where "USB_DT_STRING \<equiv> 3"
abbreviation USB_DT_INTERFACE :: u8 where "USB_DT_INTERFACE \<equiv> 4"
abbreviation USB_REQ_TYPE_IN :: u8 where "USB_REQ_TYPE_IN \<equiv> 0x80"
abbreviation USB_REQ_TYPE_TYPE :: u8 where "USB_REQ_TYPE_TYPE \<equiv> 0x60"
abbreviation USB_REQ_TYPE_STANDARD :: u8 where "USB_REQ_TYPE_STANDARD \<equiv> 0"
abbreviation USB_REQ_TYPE_CLASS :: u8 where "USB_REQ_TYPE_CLASS \<equiv> 0x20"
abbreviation USB_REQ_TYPE_RECIPIENT :: u8 where "USB_REQ_TYPE_RECIPIENT \<equiv> 0x1F"
abbreviation USB_REQ_TYPE_DEVICE :: u8 where "USB_REQ_TYPE_DEVICE \<equiv> 0"
abbreviation USB_REQ_TYPE_INTERFACE :: u8 where "USB_REQ_TYPE_INTERFACE \<equiv> 1"
abbreviation USB_REQ_TYPE_ENDPOINT :: u8 where "USB_REQ_TYPE_ENDPOINT \<equiv> 2"
abbreviation USB_REQ_GET_STATUS :: u8 where "USB_REQ_GET_STATUS \<equiv> 0"
abbreviation USB_REQ_CLEAR_FEATURE :: u8 where "USB_REQ_CLEAR_FEATURE \<equiv> 1"
abbreviation USB_REQ_SET_FEATURE :: u8 where "USB_REQ_SET_FEATURE \<equiv> 3"
abbreviation USB_REQ_SET_ADDRESS :: u8 where "USB_REQ_SET_ADDRESS \<equiv> 5"
abbreviation USB_REQ_GET_DESCRIPTOR :: u8 where "USB_REQ_GET_DESCRIPTOR \<equiv> 6"
abbreviation USB_REQ_GET_CONFIGURATION :: u8 where "USB_REQ_GET_CONFIGURATION \<equiv> 8"
abbreviation USB_REQ_SET_CONFIGURATION :: u8 where "USB_REQ_SET_CONFIGURATION \<equiv> 9"
abbreviation USB_REQ_GET_INTERFACE :: u8 where "USB_REQ_GET_INTERFACE \<equiv> 10"
abbreviation USB_REQ_SET_INTERFACE :: u8 where "USB_REQ_SET_INTERFACE \<equiv> 11"
abbreviation USB_FEAT_ENDPOINT_HALT :: u16 where "USB_FEAT_ENDPOINT_HALT \<equiv> 0"
abbreviation USB_LANGID_ENGLISH_US :: u16 where "USB_LANGID_ENGLISH_US \<equiv> 0x409"
abbreviation USB_ENDPOINT_ATTR_CONTROL :: u8 where "USB_ENDPOINT_ATTR_CONTROL \<equiv> 0"
abbreviation USB_ENDPOINT_ATTR_ISOCHRONOUS :: u8 where "USB_ENDPOINT_ATTR_ISOCHRONOUS \<equiv> 1"
abbreviation USB_ENDPOINT_ATTR_BULK :: u8 where "USB_ENDPOINT_ATTR_BULK \<equiv> 2"
abbreviation USB_ENDPOINT_ATTR_INTERRUPT :: u8 where "USB_ENDPOINT_ATTR_INTERRUPT \<equiv> 3"
abbreviation DFU_TRANSFER_SIZE :: nat where "DFU_TRANSFER_SIZE \<equiv> 4096"

end
