(* ===== verification/Stubs.thy ===== *)
theory Stubs
  imports BootPrelude
begin

text \<open>
  \<open>src_common/stubs.cpp\<close>: the millisecond counter, the delay loop and the string functions. C
  strings live in arrays: a result \<open>None\<close> is an access outside an array.
\<close>

section \<open>Strings\<close>

text \<open>A string literal: its characters and the terminating zero.\<close>

definition c_str :: "string \<Rightarrow> u8 list" where
  "c_str s = map of_char s @ [0]"

fun xstrlen :: "u8 list \<Rightarrow> nat option" where
  "xstrlen [] = None"
| "xstrlen (c # cs) = (if c = 0 then Some 0 else map_option Suc (xstrlen cs))"

definition put :: "u8 list \<Rightarrow> nat \<Rightarrow> u8 \<Rightarrow> u8 list option" where
  "put buf i v = (if i < length buf then Some (buf[i := v]) else None)"

fun xstrcpy_from :: "u8 list \<Rightarrow> nat \<Rightarrow> u8 list \<Rightarrow> u8 list option" where
  "xstrcpy_from tgt i [] = None"
| "xstrcpy_from tgt i (c # src) =
     (if c = 0 then put tgt i 0
      else Option.bind (put tgt i c) (\<lambda>tgt'. xstrcpy_from tgt' (Suc i) src))"

definition xstrcpy :: "u8 list \<Rightarrow> u8 list \<Rightarrow> u8 list option" where
  "xstrcpy tgt src = xstrcpy_from tgt 0 src"

definition xstrcat :: "u8 list \<Rightarrow> u8 list \<Rightarrow> u8 list option" where
  "xstrcat tgt src = Option.bind (xstrlen tgt) (\<lambda>n. xstrcpy_from tgt n src)"

text \<open>What a buffer means: the characters before the first zero.\<close>

definition holds :: "u8 list \<Rightarrow> u8 list \<Rightarrow> bool" where
  "holds buf cs \<longleftrightarrow> 0 \<notin> set cs \<and> length cs < length buf \<and> take (Suc (length cs)) buf = cs @ [0]"

lemma xstrlen_append: "0 \<notin> set cs \<Longrightarrow> xstrlen (cs @ 0 # rest) = Some (length cs)"
  by (induction cs) auto

lemma xstrlen_holds:
  assumes "holds buf cs"
  shows "xstrlen buf = Some (length cs)"
proof -
  have "buf = cs @ 0 # drop (Suc (length cs)) buf"
    using assms append_take_drop_id [of "Suc (length cs)" buf] by (simp add: holds_def)
  then show ?thesis using assms xstrlen_append by (metis holds_def)
qed

lemma xstrcpy_from_fits:
  assumes "0 \<notin> set cs" "i + length cs < length tgt"
  shows "xstrcpy_from tgt i (cs @ [0]) = Some (take i tgt @ cs @ 0 # drop (Suc (i + length cs)) tgt)"
  using assms
proof (induction cs arbitrary: tgt i)
  case Nil
  then show ?case by (simp add: put_def upd_conv_take_nth_drop)
next
  case (Cons c cs)
  then have "xstrcpy_from (tgt[i := c]) (Suc i) (cs @ [0]) =
      Some (take (Suc i) (tgt[i := c]) @ cs @ 0 # drop (Suc (Suc i + length cs)) (tgt[i := c]))"
    by (intro Cons.IH) auto
  moreover have "take (Suc i) (tgt[i := c]) = take i tgt @ [c]"
    using Cons.prems by (simp add: take_Suc_conv_app_nth)
  ultimately show ?case using Cons.prems by (simp add: put_def)
qed

lemma xstrcpy_from_overflow:
  assumes "0 \<notin> set cs" "length tgt \<le> i + length cs"
  shows "xstrcpy_from tgt i (cs @ [0]) = None"
  using assms by (induction cs arbitrary: tgt i) (auto simp: put_def bind_eq_None_conv)

lemma holds_cpy:
  assumes "0 \<notin> set cs" "length cs < length tgt"
  obtains tgt' where "xstrcpy tgt (cs @ [0]) = Some tgt'" "holds tgt' cs" "length tgt' = length tgt"
  using assms xstrcpy_from_fits [of cs 0 tgt] by (auto simp: xstrcpy_def holds_def)

lemma holds_cat:
  assumes "holds tgt xs" "0 \<notin> set cs" "length xs + length cs < length tgt"
  obtains tgt' where "xstrcat tgt (cs @ [0]) = Some tgt'" "holds tgt' (xs @ cs)" "length tgt' = length tgt"
proof -
  have "take (length xs) tgt = xs"
    using assms(1) take_take [of "length xs" "Suc (length xs)" tgt] by (simp add: holds_def min_def)
  then have "xstrcat tgt (cs @ [0]) = Some (xs @ cs @ 0 # drop (Suc (length xs + length cs)) tgt)"
    using assms xstrcpy_from_fits [of cs "length xs" tgt] xstrlen_holds [OF assms(1)]
    by (simp add: xstrcat_def)
  then show ?thesis
    using assms by (intro that [of "xs @ cs @ 0 # drop (Suc (length xs + length cs)) tgt"]) (auto simp: holds_def)
qed

section \<open>Ticks and delays\<close>

text \<open>The tick interrupt.\<close>

definition tick :: "u32 \<Rightarrow> u32" where
  "tick sysTick = sysTick + 1"

text \<open>The delay loop polls a counter that the interrupt advances. \<open>ticks k\<close> is the number of
  interrupts before the \<open>k\<close>-th poll; the result is the counter and the number of polls.\<close>

partial_function (option) xDelay_loop :: "(nat \<Rightarrow> nat) \<Rightarrow> u32 \<Rightarrow> nat \<Rightarrow> u32 \<Rightarrow> (u32 \<times> nat) option" where
  "xDelay_loop ticks tgt k sysTick =
     (let now = (tick ^^ ticks k) sysTick in
      if now > tgt then Some (now, k) else xDelay_loop ticks tgt (Suc k) now)"

definition xDelay :: "(nat \<Rightarrow> nat) \<Rightarrow> int \<Rightarrow> u32 \<Rightarrow> (u32 \<times> nat) option" where
  "xDelay ticks ms sysTick = xDelay_loop ticks (sysTick + word_of_int ms) 0 sysTick"

definition lnDelay :: "(nat \<Rightarrow> nat) \<Rightarrow> u32 \<Rightarrow> u32 \<Rightarrow> (u32 \<times> nat) option" where
  "lnDelay ticks ms = xDelay ticks (sint ms)"

lemma tick_pow: "(tick ^^ n) t = t + of_nat n"
  by (induction n) (simp_all add: tick_def algebra_simps)

text \<open>Ticks come one at a time and never stop.\<close>

definition steady :: "(nat \<Rightarrow> nat) \<Rightarrow> bool" where
  "steady ticks \<longleftrightarrow> (\<forall>k. ticks k \<le> 1) \<and> (\<forall>k. \<exists>j\<ge>k. ticks j = 1)"

lemma steady_next:
  assumes "steady ticks"
  obtains d where "\<And>i. i < d \<Longrightarrow> ticks (k + i) = 0" "ticks (k + d) = 1"
proof -
  obtain j where "j \<ge> k" "ticks j = 1" using assms by (auto simp: steady_def)
  then have ex: "ticks (k + (j - k)) = 1" by simp
  define d where "d = (LEAST d. ticks (k + d) = 1)"
  have "ticks (k + d) = 1" unfolding d_def using ex by (rule LeastI)
  moreover have "ticks (k + i) = 0" if "i < d" for i
    using not_less_Least [OF that [unfolded d_def]] assms by (metis steady_def le_neq_implies_less less_one)
  ultimately show ?thesis by (intro that)
qed

lemma xDelay_loop_idle:
  assumes "\<And>i. i < d \<Longrightarrow> ticks (k + i) = 0" "\<not> t > tgt"
  shows "xDelay_loop ticks tgt k t = xDelay_loop ticks tgt (k + d) t"
  using assms
proof (induction d arbitrary: k)
  case (Suc d)
  have "xDelay_loop ticks tgt k t = xDelay_loop ticks tgt (Suc k) t"
    using Suc.prems(1) [of 0] Suc.prems(2) by (subst xDelay_loop.simps) simp
  also have "\<dots> = xDelay_loop ticks tgt (Suc k + d) t"
    using Suc.prems(1) [of "Suc i" for i] Suc.prems(2) by (intro Suc.IH) simp_all
  finally show ?case by simp
qed simp

lemma xDelay_loop_steady:
  assumes "steady ticks" "unat t \<le> unat tgt" "unat tgt < 2 ^ 32 - 1"
  shows "\<exists>n. xDelay_loop ticks tgt k t = Some (tgt + 1, n)"
  using assms(2)
proof (induction "unat tgt - unat t" arbitrary: t k rule: less_induct)
  case less
  obtain d where d: "\<And>i. i < d \<Longrightarrow> ticks (k + i) = 0" "ticks (k + d) = 1"
    using steady_next [OF assms(1)] by blast
  have "\<not> t > tgt" using less.prems by (simp add: word_less_nat_alt)
  then have "xDelay_loop ticks tgt k t = xDelay_loop ticks tgt (k + d) t"
    using d(1) by (intro xDelay_loop_idle)
  then have loop: "xDelay_loop ticks tgt k t =
      (if t + 1 > tgt then Some (t + 1, k + d) else xDelay_loop ticks tgt (Suc (k + d)) (t + 1))"
    using d(2) by (simp add: xDelay_loop.simps [of ticks tgt "k + d"] tick_def)
  have suc: "unat (t + 1) = unat t + 1" using less.prems assms(3) by (simp add: unat_word_ariths)
  show ?case
  proof (cases "unat t = unat tgt")
    case True
    then have "t = tgt" by (rule unsigned_word_eqI)
    then show ?thesis using suc loop by (simp add: word_less_nat_alt)
  next
    case False
    then have "unat tgt - unat (t + 1) < unat tgt - unat t" "unat (t + 1) \<le> unat tgt"
      using less.prems suc by auto
    then show ?thesis using less.hyps loop by (simp add: word_less_nat_alt)
  qed
qed

lemma steady_mod_2: "steady (\<lambda>k. k mod 2)"
  unfolding steady_def
proof (intro conjI allI)
  fix k :: nat
  show "k mod 2 \<le> 1" by linarith
  show "\<exists>j\<ge>k. j mod 2 = 1" by (rule exI [of _ "2 * k + 1"]) simp
qed

lemma xDelay_ends:
  assumes "steady ticks" "0 \<le> ms" "uint sysTick + ms < 2 ^ 32 - 1"
  shows "\<exists>polls. xDelay ticks ms sysTick = Some (sysTick + word_of_int (ms + 1), polls)"
proof -
  let ?tgt = "sysTick + word_of_int ms"
  have "uint ?tgt = uint sysTick + ms"
  proof -
    have ms: "take_bit 32 ms = ms"
      using assms(2, 3) uint_ge_0 [of sysTick] by (intro take_bit_int_eq_self) linarith+
    have "uint ?tgt = (uint sysTick + ms) mod 2 ^ 32"
      by (simp add: uint_word_ariths uint_word_of_int_eq ms)
    also have "\<dots> = uint sysTick + ms"
      using assms(2, 3) uint_ge_0 [of sysTick] by (intro mod_pos_pos_trivial) linarith+
    finally show ?thesis .
  qed
  then have u: "uint sysTick \<le> uint ?tgt" "uint ?tgt < 2 ^ 32 - 1"
    using assms(2, 3) by linarith+
  have le: "unat sysTick \<le> unat ?tgt"
    using u(1) by (simp add: word_le_nat_alt [symmetric] word_le_def)
  have lt: "unat ?tgt < 2 ^ 32 - 1"
    unfolding unat_eq_nat_uint using u(2) nat_less_iff [OF uint_ge_0 [of ?tgt], of "2 ^ 32 - 1"] by simp
  have eq: "?tgt + 1 = sysTick + word_of_int (ms + 1)" by simp
  from xDelay_loop_steady [OF assms(1) le lt, of 0] show ?thesis
    unfolding xDelay_def eq .
qed

text \<open>C39: when the tick interrupt fires one tick at a time and never stops, a delay that does not
  run the counter into its last value returns, and returns after exactly \<open>ms + 1\<close> ticks.\<close>

theorem xDelay_returns:
  assumes "steady ticks" "0 \<le> ms" "uint sysTick + ms < 2 ^ 32 - 1"
  shows "\<exists>polls. xDelay ticks ms sysTick = Some (sysTick + word_of_int (ms + 1), polls)"
  by (rule xDelay_ends) (rule assms)+

lemma xDelay_returns_witness:
  "\<exists>polls. xDelay (\<lambda>k. k mod 2) 300 0 = Some (301, polls)"
  using xDelay_returns [OF steady_mod_2, of 300 0] by simp

text \<open>The comparison is not safe against wrap-around: near the end of the counter's range a
  delay of any length returns at the first poll, without a single tick.\<close>

theorem xDelay_wraps:
  "xDelay (\<lambda>k. 0) 300 0xFFFFFFF0 = Some (0xFFFFFFF0, 0)"
  by (subst xDelay_def, subst xDelay_loop.simps) (simp add: tick_pow)

end
