(* ===== verification/Dfu.thy ===== *)
theory Dfu
  imports FlashPages UsbDefs Stubs "HOL-Library.Signed_Division"
begin

text \<open>
  \<open>src_stage2/dfu.cpp\<close>: the DFU class of the USB stack, with \<open>dfu_name.h\<close>. A download is copied
  into \<open>prog\<close>; the erase or the write it asks for happens in the callback of a later GETSTATUS.
\<close>

section \<open>Static variables\<close>

text \<open>
  \<open>prog\<close> is flattened into its four fields. \<open>ram_beyond\<close> is the RAM that follows
  \<open>usbd_control_buffer\<close>: an access of \<open>usb.cpp\<close> past the buffer reads and writes there, so that
  overflows are visible in the model. The delay loop's counter is \<open>sysTick\<close>.
\<close>

record 'h dfu_world = "'h flash_world" +
  usbd_control_buffer :: "u8 list"
  ram_beyond :: "nat \<Rightarrow> u8"
  prog_buf :: "u8 list"
  prog_len :: u16
  prog_addr :: u32
  prog_blocknum :: u16
  usbdfu_state :: dfu_state
  gd32 :: bool
  sysTick :: u32
  nextTick :: u32
  serial_no :: "u8 list"
  memory_layout :: "u8 list"

abbreviation CMD_SETADDR :: u8 where "CMD_SETADDR \<equiv> 0x21"
abbreviation CMD_ERASE :: u8 where "CMD_ERASE \<equiv> 0x41"

definition read_u32 :: "u8 list \<Rightarrow> nat \<Rightarrow> u32" where
  "read_u32 p off =
     ucast (p ! off) OR push_bit 8 (ucast (p ! (off + 1))) OR push_bit 16 (ucast (p ! (off + 2))) OR
     push_bit 24 (ucast (p ! (off + 3)))"

definition is_gd32 :: "('h, 'm) cpu_world_scheme \<Rightarrow> bool" where
  "is_gd32 s \<longleftrightarrow> lnCpuID_vendor s = LN_VENDOR_GD"

section \<open>The memory layout string\<close>

text \<open>The digits of a number, from the last to the first, in front of \<open>acc\<close>. C division
  truncates; \<open>num\<close> has room for seven characters, a further one would leave the array (\<open>None\<close>).\<close>

function digits :: "int \<Rightarrow> u8 list \<Rightarrow> u8 list option" where
  "digits n acc =
     (if 7 \<le> length acc then None
      else let acc' = (0x30 + word_of_int (n smod 10)) # acc in
           if n sdiv 10 = 0 then Some acc' else digits (n sdiv 10) acc')"
  by pat_completeness auto
termination
  by (relation "measure (\<lambda>(n, acc). 7 - length acc)") auto

declare digits.simps [simp del]

definition prepare_memory_layout :: "('h, 'm) dfu_world_scheme \<Rightarrow> ('h, 'm) dfu_world_scheme option" where
  "prepare_memory_layout s = do {
     let flash_size = lnCpuID_flashSize s;
     let user_kb = flash_size - FLASH_BOOTLDR_SIZE_KB;
     let (page_size, s1) = get_flash_page_size s;
     let page_size_kb = uint (page_size div 1024);
     let bootloader_pages = FLASH_BOOTLDR_SIZE_KB sdiv page_size_kb;
     let user_pages = user_kb sdiv page_size_kb;
     m1 \<leftarrow> xstrcpy (memory_layout s1) (c_str ''@Internal Flash /0x08000000/'');
     d1 \<leftarrow> digits bootloader_pages [];
     m2 \<leftarrow> xstrcat m1 (d1 @ [0]);
     m3 \<leftarrow> xstrcat m2 (if page_size_kb = 2 then c_str ''*002Ka,'' else c_str ''*001Ka,'');
     d2 \<leftarrow> digits user_pages [];
     m4 \<leftarrow> xstrcat m3 (d2 @ [0]);
     m5 \<leftarrow> xstrcat m4 (if page_size_kb = 2 then c_str ''*002Kg'' else c_str ''*001Kg'');
     Some (s1\<lparr>memory_layout := m5\<rparr>)
   }"

section \<open>The serial number\<close>

definition hcharset :: "u8 list" where
  "hcharset = c_str ''0123456789abcdef''"

definition hex_of :: "u8 \<Rightarrow> u8 list" where
  "hex_of cid = [hcharset ! unat (drop_bit 4 cid AND 0xF), hcharset ! unat (cid AND 0xF)]"

text \<open>\<open>n\<close> bytes from \<open>a\<close> on, one load each.\<close>

fun read_bytes :: "'h bus \<Rightarrow> u32 \<Rightarrow> nat \<Rightarrow> ('h, 'm) world_scheme \<Rightarrow> u8 list \<times> ('h, 'm) world_scheme" where
  "read_bytes b a 0 s = ([], s)"
| "read_bytes b a (Suc n) s =
     (let (v, s1) = rd8 b a s; (vs, s2) = read_bytes b (a + 1) n s1 in (v # vs, s2))"

definition get_dev_unique_id :: "'h bus \<Rightarrow> ('h, 'm) world_scheme \<Rightarrow> u8 list \<times> ('h, 'm) world_scheme" where
  "get_dev_unique_id b s =
     (let (uid, s1) = read_bytes b 0x1FFFF7E8 9 s
      in (map of_char ''SWIND_'' @ concat (map hex_of uid) @ [0, 0], s1))"

section \<open>GETSTATUS and the deferred operation\<close>

definition usbdfu_getstatus ::
  "u32 \<Rightarrow> ('h, 'm) dfu_world_scheme \<Rightarrow> dfu_status \<times> u32 \<times> ('h, 'm) dfu_world_scheme" where
  "usbdfu_getstatus bwPollTimeout s =
     (case usbdfu_state s of
        STATE_DFU_DNLOAD_SYNC \<Rightarrow> (DFU_STATUS_OK, 100, s\<lparr>usbdfu_state := STATE_DFU_DNBUSY\<rparr>)
      | STATE_DFU_MANIFEST_SYNC \<Rightarrow>
          (DFU_STATUS_OK, bwPollTimeout, s\<lparr>usbdfu_state := STATE_DFU_MANIFEST\<rparr>)
      | STATE_DFU_ERROR \<Rightarrow> (DFU_STATUS_ERR_UNKNOWN, bwPollTimeout, s)
      | _ \<Rightarrow> (DFU_STATUS_OK, bwPollTimeout, s))"

text \<open>\<open>start_addr\<close> and \<open>end_addr\<close> are those of \<open>check_do_erase\<close>. The CMD_ERASE case of block 0.\<close>

definition dfu_cmd_erase ::
  "build \<Rightarrow> 'h bus \<Rightarrow> ('h, 'm) dfu_world_scheme \<Rightarrow> ('h, 'm) dfu_world_scheme option" where
  "dfu_cmd_erase cfg b s = do {
     let start_addr = flash_app_start;
     let end_addr = flash_app_end s;
     s1 \<leftarrow> (if ENABLE_SAFEWRITE cfg then check_do_erase b s else Some s);
     let baseaddr = read_u32 (prog_buf s1) 1;
     if start_addr \<le> baseaddr \<and> baseaddr + of_nat DFU_TRANSFER_SIZE \<le> end_addr
     then erase_if_needed b baseaddr s1
     else Some s1
   }"

text \<open>\<open>Address_Pointer + ((wBlockNum - 2) * wTransferSize)\<close>, modulo 2^32.\<close>

definition dfu_block_addr :: "u32 \<Rightarrow> u16 \<Rightarrow> u32" where
  "dfu_block_addr addr blocknum = addr + (ucast blocknum - 2) * of_nat DFU_TRANSFER_SIZE"

text \<open>Erase each page of the range that is not erased yet, then program the whole block.\<close>

definition dfu_program_block ::
  "'h bus \<Rightarrow> u32 \<Rightarrow> ('h, 'm) dfu_world_scheme \<Rightarrow> ('h, 'm) dfu_world_scheme option" where
  "dfu_program_block b baseaddr s = do {
     s1 \<leftarrow> flash_erase_range b baseaddr (baseaddr + ucast (prog_len s)) s;
     (if gd32 s1
      then flash_program_buffer_gd32 b baseaddr (prog_buf s1) (unat (prog_len s1)) s1
      else flash_program_buffer b baseaddr (prog_buf s1) (unat (prog_len s1)) s1)
   }"

text \<open>A block with a number other than 0.\<close>

definition dfu_write_block ::
  "build \<Rightarrow> 'h bus \<Rightarrow> ('h, 'm) dfu_world_scheme \<Rightarrow> ('h, 'm) dfu_world_scheme option" where
  "dfu_write_block cfg b s = do {
     let start_addr = flash_app_start;
     let end_addr = flash_app_end s;
     s1 \<leftarrow> (if ENABLE_SAFEWRITE cfg then check_do_erase b s else Some s);
     let baseaddr = dfu_block_addr (prog_addr s1) (prog_blocknum s1);
     if start_addr \<le> baseaddr \<and> baseaddr + ucast (prog_len s1) \<le> end_addr
     then dfu_program_block b baseaddr s1
     else Some s1
   }"

definition dfu_busy_operation ::
  "build \<Rightarrow> 'h bus \<Rightarrow> ('h, 'm) dfu_world_scheme \<Rightarrow> ('h, 'm) dfu_world_scheme option" where
  "dfu_busy_operation cfg b s =
     (if prog_blocknum s = 0 then
        if prog_buf s ! 0 = CMD_ERASE then dfu_cmd_erase cfg b s
        else if prog_buf s ! 0 = CMD_SETADDR then Some (s\<lparr>prog_addr := read_u32 (prog_buf s) 1\<rparr>)
        else Some s
      else dfu_write_block cfg b s)"

definition usbdfu_getstatus_complete ::
  "build \<Rightarrow> 'h bus \<Rightarrow> ('h, 'm) dfu_world_scheme \<Rightarrow> ('h, 'm) dfu_world_scheme option" where
  "usbdfu_getstatus_complete cfg b s =
     (case usbdfu_state s of
        STATE_DFU_DNBUSY \<Rightarrow> do {
          let s1 = flash_unlock b False s;
          s2 \<leftarrow> dfu_busy_operation cfg b s1;
          let s3 = flash_lock b s2;
          Some (s3\<lparr>usbdfu_state := STATE_DFU_DNLOAD_IDLE\<rparr>)
        }
      | _ \<Rightarrow> Some s)"

section \<open>The class request handler\<close>

text \<open>The only callback the class installs.\<close>

datatype usb_callback = Getstatus_complete

definition set_ctl :: "(nat \<times> u8) list \<Rightarrow> ('h, 'm) dfu_world_scheme \<Rightarrow> ('h, 'm) dfu_world_scheme" where
  "set_ctl ws s = s\<lparr>usbd_control_buffer := fold (\<lambda>(i, v) buf. buf[i := v]) ws (usbd_control_buffer s)\<rparr>"

text \<open>Result: the return code, \<open>*len\<close>, \<open>*complete\<close> if it was set, and the state. The pointer
  \<open>len\<close> is never null: the only caller passes the address of a global.\<close>

type_synonym 's class_result = "usbd_request_return_codes \<times> u16 \<times> usb_callback option \<times> 's"

definition dfu_dnload :: "usb_setup_data \<Rightarrow> u16 \<Rightarrow> ('h, 'm) dfu_world_scheme \<Rightarrow> ('h, 'm) dfu_world_scheme" where
  "dfu_dnload req len s =
     (if len = 0 then s\<lparr>usbdfu_state := STATE_DFU_MANIFEST_SYNC\<rparr>
      else
        let n = (if DFU_TRANSFER_SIZE < unat len then of_nat DFU_TRANSFER_SIZE else len) in
        s\<lparr>prog_blocknum := wValue req, prog_len := n,
          prog_buf := take (unat n) (usbd_control_buffer s) @ drop (unat n) (prog_buf s),
          usbdfu_state := STATE_DFU_DNLOAD_SYNC\<rparr>)"

definition dfu_upload ::
  "build \<Rightarrow> 'h bus \<Rightarrow> usb_setup_data \<Rightarrow> ('h, 'm) dfu_world_scheme \<Rightarrow> u16 \<times> ('h, 'm) dfu_world_scheme" where
  "dfu_upload cfg b req s0 =
     (let s = s0\<lparr>usbdfu_state := STATE_DFU_UPLOAD_IDLE\<rparr> in
      if wValue req = 0 then (3, set_ctl [(0, 0), (1, CMD_SETADDR), (2, CMD_ERASE)] s)
      else if \<not> ENABLE_DFU_UPLOAD cfg then (0, s\<lparr>usbdfu_state := STATE_DFU_ERROR\<rparr>)
      else
        let baseaddr = dfu_block_addr (prog_addr s) (wValue req) in
        if flash_app_start \<le> baseaddr \<and> baseaddr + of_nat DFU_TRANSFER_SIZE \<le> flash_app_end s
        then let (bs, s') = read_bytes b baseaddr DFU_TRANSFER_SIZE s
             in (of_nat DFU_TRANSFER_SIZE, s'\<lparr>usbd_control_buffer := bs\<rparr>)
        else (0, s\<lparr>usbdfu_state := STATE_DFU_ERROR\<rparr>))"

definition dfu_getstatus_reply :: "('h, 'm) dfu_world_scheme \<Rightarrow> ('h, 'm) dfu_world_scheme" where
  "dfu_getstatus_reply s =
     (let (st, timeout, s1) = usbdfu_getstatus 0 s in
      set_ctl [(0, dfu_status_code st), (1, ucast (timeout AND 0xFF)),
               (2, ucast (drop_bit 8 timeout AND 0xFF)), (3, ucast (drop_bit 16 timeout AND 0xFF)),
               (4, dfu_state_code (usbdfu_state s1)), (5, 0)] s1)"

definition usbdfu_control_request ::
  "build \<Rightarrow> 'h bus \<Rightarrow> usb_setup_data \<Rightarrow> u16 \<Rightarrow> ('h, 'm) dfu_world_scheme \<Rightarrow>
   ('h, 'm) dfu_world_scheme class_result" where
  "usbdfu_control_request cfg b req len s =
     (case dfu_req_of (bRequest req) of
        Some DFU_DNLOAD \<Rightarrow> (USBD_REQ_HANDLED, len, None, dfu_dnload req len s)
      | Some DFU_CLRSTATUS \<Rightarrow>
          (USBD_REQ_HANDLED, len, None,
           if usbdfu_state s = STATE_DFU_ERROR then s\<lparr>usbdfu_state := STATE_DFU_IDLE\<rparr> else s)
      | Some DFU_ABORT \<Rightarrow> (USBD_REQ_HANDLED, len, None, s\<lparr>usbdfu_state := STATE_DFU_IDLE\<rparr>)
      | Some DFU_DETACH \<Rightarrow> (USBD_REQ_HANDLED, len, None, s\<lparr>usbdfu_state := STATE_DFU_MANIFEST\<rparr>)
      | Some DFU_UPLOAD \<Rightarrow>
          (let (len', s') = dfu_upload cfg b req s in (USBD_REQ_HANDLED, len', None, s'))
      | Some DFU_GETSTATUS \<Rightarrow> (USBD_REQ_HANDLED, 6, Some Getstatus_complete, dfu_getstatus_reply s)
      | Some DFU_GETSTATE \<Rightarrow>
          (USBD_REQ_HANDLED, 1, None, set_ctl [(0, dfu_state_code (usbdfu_state s))] s)
      | None \<Rightarrow> (USBD_REQ_NEXT_CALLBACK, len, None, s))"

definition usb_callback_run ::
  "build \<Rightarrow> 'h bus \<Rightarrow> usb_callback \<Rightarrow> ('h, 'm) dfu_world_scheme \<Rightarrow> ('h, 'm) dfu_world_scheme option" where
  "usb_callback_run cfg b cb = (case cb of Getstatus_complete \<Rightarrow> usbdfu_getstatus_complete cfg b)"

section \<open>The USB strings\<close>

text \<open>\<open>dfu_name.h\<close>; VERSION is set in CMakeLists.txt. The third and fourth string are the
  buffers themselves.\<close>

definition VERSION :: string where "VERSION = ''0.1''"

definition usb_strings :: "('h, 'm) dfu_world_scheme \<Rightarrow> u8 list list" where
  "usb_strings s =
     [c_str ''davidgf.net (libopencm3 based)'', c_str (''Swindle bootloader_'' @ VERSION),
      serial_no s, memory_layout s, c_str ''Bootloader '']"

end
