(* ===== verification/UsbRegs.thy ===== *)
theory UsbRegs
  imports UsbDefs
begin

text \<open>
  The register macros of \<open>usb.h\<close> and what they do to the endpoint registers of the peripheral.
  Bits 14..12 and 6..4 of an endpoint register toggle when a one is written, bits 15 and 7 are
  cleared by writing zero, bit 11 is read only, the rest is written as is (reference manual
  RM0008). The laws are the locale \<open>usb_endpoints\<close>; \<open>ep_bus\<close> is a peripheral that obeys them.
\<close>

section \<open>Registers\<close>

abbreviation USB_DEV_FS_BASE :: u32 where "USB_DEV_FS_BASE \<equiv> 0x40005c00"
abbreviation USB_PMA_BASE :: u32 where "USB_PMA_BASE \<equiv> 0x40006000"
abbreviation USB_CNTR_REG :: u32 where "USB_CNTR_REG \<equiv> 0x40005c40"
abbreviation USB_ISTR_REG :: u32 where "USB_ISTR_REG \<equiv> 0x40005c44"
abbreviation USB_DADDR_REG :: u32 where "USB_DADDR_REG \<equiv> 0x40005c4c"
abbreviation USB_BTABLE_REG :: u32 where "USB_BTABLE_REG \<equiv> 0x40005c50"

definition USB_EP_REG :: "u8 \<Rightarrow> u32" where
  "USB_EP_REG ep = USB_DEV_FS_BASE + 4 * ucast ep"

abbreviation USB_DADDR_EF :: u16 where "USB_DADDR_EF \<equiv> 0x80"
abbreviation USB_DADDR_ADDR :: u16 where "USB_DADDR_ADDR \<equiv> 0x7F"
abbreviation USB_CNTR_CTRM :: u16 where "USB_CNTR_CTRM \<equiv> 0x8000"
abbreviation USB_CNTR_WKUPM :: u16 where "USB_CNTR_WKUPM \<equiv> 0x1000"
abbreviation USB_CNTR_SUSPM :: u16 where "USB_CNTR_SUSPM \<equiv> 0x0800"
abbreviation USB_CNTR_RESETM :: u16 where "USB_CNTR_RESETM \<equiv> 0x0400"
abbreviation USB_CNTR_SOFM :: u32 where "USB_CNTR_SOFM \<equiv> 0x0200"
abbreviation USB_CNTR_PWDN :: u32 where "USB_CNTR_PWDN \<equiv> 2"
abbreviation USB_ISTR_CTR :: u16 where "USB_ISTR_CTR \<equiv> 0x8000"
abbreviation USB_ISTR_WKUP :: u16 where "USB_ISTR_WKUP \<equiv> 0x1000"
abbreviation USB_ISTR_SUSP :: u16 where "USB_ISTR_SUSP \<equiv> 0x0800"
abbreviation USB_ISTR_RESET :: u16 where "USB_ISTR_RESET \<equiv> 0x0400"
abbreviation USB_ISTR_SOF :: u16 where "USB_ISTR_SOF \<equiv> 0x0200"
abbreviation USB_ISTR_DIR :: u16 where "USB_ISTR_DIR \<equiv> 0x0010"
abbreviation USB_ISTR_EP_ID :: u16 where "USB_ISTR_EP_ID \<equiv> 0x000F"
abbreviation USB_EP_RX_CTR :: u16 where "USB_EP_RX_CTR \<equiv> 0x8000"
abbreviation USB_EP_RX_DTOG :: u16 where "USB_EP_RX_DTOG \<equiv> 0x4000"
abbreviation USB_EP_RX_STAT :: u16 where "USB_EP_RX_STAT \<equiv> 0x3000"
abbreviation USB_EP_SETUP :: u16 where "USB_EP_SETUP \<equiv> 0x0800"
abbreviation USB_EP_TYPE :: u16 where "USB_EP_TYPE \<equiv> 0x0600"
abbreviation USB_EP_KIND :: u16 where "USB_EP_KIND \<equiv> 0x0100"
abbreviation USB_EP_TX_CTR :: u16 where "USB_EP_TX_CTR \<equiv> 0x0080"
abbreviation USB_EP_TX_DTOG :: u16 where "USB_EP_TX_DTOG \<equiv> 0x0040"
abbreviation USB_EP_TX_STAT :: u16 where "USB_EP_TX_STAT \<equiv> 0x0030"
abbreviation USB_EP_ADDR :: u16 where "USB_EP_ADDR \<equiv> 0x000F"

definition USB_EP_NTOGGLE_MSK :: u16 where
  "USB_EP_NTOGGLE_MSK =
     USB_EP_RX_CTR OR USB_EP_SETUP OR USB_EP_TYPE OR USB_EP_KIND OR USB_EP_TX_CTR OR USB_EP_ADDR"

definition USB_EP_RX_STAT_TOG_MSK :: u16 where
  "USB_EP_RX_STAT_TOG_MSK = USB_EP_RX_STAT OR USB_EP_NTOGGLE_MSK"

definition USB_EP_TX_STAT_TOG_MSK :: u16 where
  "USB_EP_TX_STAT_TOG_MSK = USB_EP_TX_STAT OR USB_EP_NTOGGLE_MSK"

abbreviation USB_EP_RX_STAT_DISABLED :: u16 where "USB_EP_RX_STAT_DISABLED \<equiv> 0"
abbreviation USB_EP_RX_STAT_STALL :: u16 where "USB_EP_RX_STAT_STALL \<equiv> 0x1000"
abbreviation USB_EP_RX_STAT_NAK :: u16 where "USB_EP_RX_STAT_NAK \<equiv> 0x2000"
abbreviation USB_EP_RX_STAT_VALID :: u16 where "USB_EP_RX_STAT_VALID \<equiv> 0x3000"
abbreviation USB_EP_TX_STAT_DISABLED :: u16 where "USB_EP_TX_STAT_DISABLED \<equiv> 0"
abbreviation USB_EP_TX_STAT_STALL :: u16 where "USB_EP_TX_STAT_STALL \<equiv> 0x0010"
abbreviation USB_EP_TX_STAT_NAK :: u16 where "USB_EP_TX_STAT_NAK \<equiv> 0x0020"
abbreviation USB_EP_TX_STAT_VALID :: u16 where "USB_EP_TX_STAT_VALID \<equiv> 0x0030"
abbreviation USB_EP_TYPE_BULK :: u16 where "USB_EP_TYPE_BULK \<equiv> 0"
abbreviation USB_EP_TYPE_CONTROL :: u16 where "USB_EP_TYPE_CONTROL \<equiv> 0x0200"
abbreviation USB_EP_TYPE_ISO :: u16 where "USB_EP_TYPE_ISO \<equiv> 0x0400"
abbreviation USB_EP_TYPE_INTERRUPT :: u16 where "USB_EP_TYPE_INTERRUPT \<equiv> 0x0600"

section \<open>Access macros\<close>

definition GET_REG :: "'h bus \<Rightarrow> u32 \<Rightarrow> ('h, 'm) world_scheme \<Rightarrow> u16 \<times> ('h, 'm) world_scheme" where
  "GET_REG b reg s = (let (v, s') = rd32 b reg s in (ucast v, s'))"

definition SET_REG :: "'h bus \<Rightarrow> u32 \<Rightarrow> u16 \<Rightarrow> ('h, 'm) world_scheme \<Rightarrow> ('h, 'm) world_scheme" where
  "SET_REG b reg v s = wr32 b reg (ucast v) s"

text \<open>\<open>SET_REG(REG, f(GET_REG(REG)))\<close>.\<close>

definition UPD_REG :: "'h bus \<Rightarrow> u32 \<Rightarrow> (u16 \<Rightarrow> u16) \<Rightarrow> ('h, 'm) world_scheme \<Rightarrow> ('h, 'm) world_scheme" where
  "UPD_REG b reg f s = (let (v, s') = GET_REG b reg s in SET_REG b reg (f v) s')"

definition CLR_REG_BIT :: "'h bus \<Rightarrow> u32 \<Rightarrow> u16 \<Rightarrow> ('h, 'm) world_scheme \<Rightarrow> ('h, 'm) world_scheme" where
  "CLR_REG_BIT b reg bt s = SET_REG b reg (NOT bt) s"

definition CLR_REG_BIT_MSK_AND_SET ::
  "'h bus \<Rightarrow> u32 \<Rightarrow> u16 \<Rightarrow> u16 \<Rightarrow> u16 \<Rightarrow> ('h, 'm) world_scheme \<Rightarrow> ('h, 'm) world_scheme" where
  "CLR_REG_BIT_MSK_AND_SET b reg msk bt extra s = UPD_REG b reg (\<lambda>v. (v AND msk AND NOT bt) OR extra) s"

definition TOG_SET_REG_BIT_MSK_AND_SET ::
  "'h bus \<Rightarrow> u32 \<Rightarrow> u16 \<Rightarrow> u16 \<Rightarrow> u16 \<Rightarrow> ('h, 'm) world_scheme \<Rightarrow> ('h, 'm) world_scheme" where
  "TOG_SET_REG_BIT_MSK_AND_SET b reg msk bt extra s =
     UPD_REG b reg (\<lambda>v. ((v AND msk) XOR bt) OR extra) s"

definition USB_SET_EP_RX_STAT :: "'h bus \<Rightarrow> u8 \<Rightarrow> u16 \<Rightarrow> ('h, 'm) world_scheme \<Rightarrow> ('h, 'm) world_scheme" where
  "USB_SET_EP_RX_STAT b ep stat =
     TOG_SET_REG_BIT_MSK_AND_SET b (USB_EP_REG ep) USB_EP_RX_STAT_TOG_MSK stat (USB_EP_RX_CTR OR USB_EP_TX_CTR)"

definition USB_SET_EP_TX_STAT :: "'h bus \<Rightarrow> u8 \<Rightarrow> u16 \<Rightarrow> ('h, 'm) world_scheme \<Rightarrow> ('h, 'm) world_scheme" where
  "USB_SET_EP_TX_STAT b ep stat =
     TOG_SET_REG_BIT_MSK_AND_SET b (USB_EP_REG ep) USB_EP_TX_STAT_TOG_MSK stat (USB_EP_RX_CTR OR USB_EP_TX_CTR)"

definition USB_CLR_EP_TX_DTOG :: "'h bus \<Rightarrow> u8 \<Rightarrow> ('h, 'm) world_scheme \<Rightarrow> ('h, 'm) world_scheme" where
  "USB_CLR_EP_TX_DTOG b ep = UPD_REG b (USB_EP_REG ep) (\<lambda>v. v AND (USB_EP_NTOGGLE_MSK OR USB_EP_TX_DTOG))"

definition USB_CLR_EP_RX_DTOG :: "'h bus \<Rightarrow> u8 \<Rightarrow> ('h, 'm) world_scheme \<Rightarrow> ('h, 'm) world_scheme" where
  "USB_CLR_EP_RX_DTOG b ep = UPD_REG b (USB_EP_REG ep) (\<lambda>v. v AND (USB_EP_NTOGGLE_MSK OR USB_EP_RX_DTOG))"

definition USB_CLR_EP_NTOGGLE_BIT_AND_SET ::
  "'h bus \<Rightarrow> u8 \<Rightarrow> u16 \<Rightarrow> u16 \<Rightarrow> ('h, 'm) world_scheme \<Rightarrow> ('h, 'm) world_scheme" where
  "USB_CLR_EP_NTOGGLE_BIT_AND_SET b ep bt extra =
     CLR_REG_BIT_MSK_AND_SET b (USB_EP_REG ep) USB_EP_NTOGGLE_MSK bt extra"

definition USB_CLR_EP_RX_CTR :: "'h bus \<Rightarrow> u8 \<Rightarrow> ('h, 'm) world_scheme \<Rightarrow> ('h, 'm) world_scheme" where
  "USB_CLR_EP_RX_CTR b ep = USB_CLR_EP_NTOGGLE_BIT_AND_SET b ep USB_EP_RX_CTR USB_EP_TX_CTR"

definition USB_CLR_EP_TX_CTR :: "'h bus \<Rightarrow> u8 \<Rightarrow> ('h, 'm) world_scheme \<Rightarrow> ('h, 'm) world_scheme" where
  "USB_CLR_EP_TX_CTR b ep = USB_CLR_EP_NTOGGLE_BIT_AND_SET b ep USB_EP_TX_CTR USB_EP_RX_CTR"

definition USB_SET_EP_TYPE :: "'h bus \<Rightarrow> u8 \<Rightarrow> u16 \<Rightarrow> ('h, 'm) world_scheme \<Rightarrow> ('h, 'm) world_scheme" where
  "USB_SET_EP_TYPE b ep ty =
     UPD_REG b (USB_EP_REG ep) (\<lambda>v. (v AND (USB_EP_NTOGGLE_MSK AND NOT USB_EP_TYPE)) OR ty)"

definition USB_SET_EP_ADDR :: "'h bus \<Rightarrow> u8 \<Rightarrow> u16 \<Rightarrow> ('h, 'm) world_scheme \<Rightarrow> ('h, 'm) world_scheme" where
  "USB_SET_EP_ADDR b ep ad =
     UPD_REG b (USB_EP_REG ep) (\<lambda>v. (v AND (USB_EP_NTOGGLE_MSK AND NOT USB_EP_ADDR)) OR ad)"

section \<open>The buffer descriptor table\<close>

text \<open>Offsets in the table: 0 and 2 for the transmit address and count, 4 and 6 for the receive
  ones. The table's own address is read from BTABLE each time.\<close>

definition btable_entry :: "u8 \<Rightarrow> u32 \<Rightarrow> u16 \<Rightarrow> u32" where
  "btable_entry ep off bt = USB_PMA_BASE + (ucast bt + ucast ep * 8 + off) * 2"

definition GET_BTABLE_ENTRY ::
  "'h bus \<Rightarrow> u8 \<Rightarrow> u32 \<Rightarrow> ('h, 'm) world_scheme \<Rightarrow> u16 \<times> ('h, 'm) world_scheme" where
  "GET_BTABLE_ENTRY b ep off s =
     (let (bt, s1) = GET_REG b USB_BTABLE_REG s in GET_REG b (btable_entry ep off bt) s1)"

definition SET_BTABLE_ENTRY ::
  "'h bus \<Rightarrow> u8 \<Rightarrow> u32 \<Rightarrow> u16 \<Rightarrow> ('h, 'm) world_scheme \<Rightarrow> ('h, 'm) world_scheme" where
  "SET_BTABLE_ENTRY b ep off v s =
     (let (bt, s1) = GET_REG b USB_BTABLE_REG s in SET_REG b (btable_entry ep off bt) v s1)"

abbreviation USB_GET_EP_TX_ADDR ::
  "'h bus \<Rightarrow> u8 \<Rightarrow> ('h, 'm) world_scheme \<Rightarrow> u16 \<times> ('h, 'm) world_scheme" where
  "USB_GET_EP_TX_ADDR b ep \<equiv> GET_BTABLE_ENTRY b ep 0"
abbreviation USB_GET_EP_RX_ADDR ::
  "'h bus \<Rightarrow> u8 \<Rightarrow> ('h, 'm) world_scheme \<Rightarrow> u16 \<times> ('h, 'm) world_scheme" where
  "USB_GET_EP_RX_ADDR b ep \<equiv> GET_BTABLE_ENTRY b ep 4"
abbreviation USB_GET_EP_RX_COUNT ::
  "'h bus \<Rightarrow> u8 \<Rightarrow> ('h, 'm) world_scheme \<Rightarrow> u16 \<times> ('h, 'm) world_scheme" where
  "USB_GET_EP_RX_COUNT b ep \<equiv> GET_BTABLE_ENTRY b ep 6"
abbreviation USB_SET_EP_TX_ADDR ::
  "'h bus \<Rightarrow> u8 \<Rightarrow> u16 \<Rightarrow> ('h, 'm) world_scheme \<Rightarrow> ('h, 'm) world_scheme" where
  "USB_SET_EP_TX_ADDR b ep \<equiv> SET_BTABLE_ENTRY b ep 0"
abbreviation USB_SET_EP_TX_COUNT ::
  "'h bus \<Rightarrow> u8 \<Rightarrow> u16 \<Rightarrow> ('h, 'm) world_scheme \<Rightarrow> ('h, 'm) world_scheme" where
  "USB_SET_EP_TX_COUNT b ep \<equiv> SET_BTABLE_ENTRY b ep 2"
abbreviation USB_SET_EP_RX_ADDR ::
  "'h bus \<Rightarrow> u8 \<Rightarrow> u16 \<Rightarrow> ('h, 'm) world_scheme \<Rightarrow> ('h, 'm) world_scheme" where
  "USB_SET_EP_RX_ADDR b ep \<equiv> SET_BTABLE_ENTRY b ep 4"
abbreviation USB_SET_EP_RX_COUNT ::
  "'h bus \<Rightarrow> u8 \<Rightarrow> u16 \<Rightarrow> ('h, 'm) world_scheme \<Rightarrow> ('h, 'm) world_scheme" where
  "USB_SET_EP_RX_COUNT b ep \<equiv> SET_BTABLE_ENTRY b ep 6"

definition USB_GET_EP_TX_BUFF :: "'h bus \<Rightarrow> u8 \<Rightarrow> ('h, 'm) world_scheme \<Rightarrow> u32 \<times> ('h, 'm) world_scheme" where
  "USB_GET_EP_TX_BUFF b ep s =
     (let (a, s') = USB_GET_EP_TX_ADDR b ep s in (USB_PMA_BASE + ucast a * 2, s'))"

definition USB_GET_EP_RX_BUFF :: "'h bus \<Rightarrow> u8 \<Rightarrow> ('h, 'm) world_scheme \<Rightarrow> u32 \<times> ('h, 'm) world_scheme" where
  "USB_GET_EP_RX_BUFF b ep s =
     (let (a, s') = USB_GET_EP_RX_ADDR b ep s in (USB_PMA_BASE + ucast a * 2, s'))"

section \<open>What the macros leave alone\<close>

lemma more_GET_REG [simp]: "world.more (snd (GET_REG b reg s)) = world.more s"
  by (simp add: GET_REG_def case_prod_beta)

lemma more_SET_REG [simp]: "world.more (SET_REG b reg v s) = world.more s"
  by (simp add: SET_REG_def)

lemma more_UPD_REG [simp]: "world.more (UPD_REG b reg f s) = world.more s"
  by (simp add: UPD_REG_def case_prod_beta)

lemma more_ep_macros [simp]:
  "world.more (CLR_REG_BIT b reg bt s) = world.more s"
  "world.more (CLR_REG_BIT_MSK_AND_SET b reg msk bt extra s) = world.more s"
  "world.more (TOG_SET_REG_BIT_MSK_AND_SET b reg msk bt extra s) = world.more s"
  "world.more (USB_SET_EP_RX_STAT b ep st s) = world.more s"
  "world.more (USB_SET_EP_TX_STAT b ep st s) = world.more s"
  "world.more (USB_CLR_EP_TX_DTOG b ep s) = world.more s"
  "world.more (USB_CLR_EP_RX_DTOG b ep s) = world.more s"
  "world.more (USB_CLR_EP_RX_CTR b ep s) = world.more s"
  "world.more (USB_CLR_EP_TX_CTR b ep s) = world.more s"
  "world.more (USB_SET_EP_TYPE b ep ty s) = world.more s"
  "world.more (USB_SET_EP_ADDR b ep ad s) = world.more s"
  by (simp_all add: CLR_REG_BIT_def CLR_REG_BIT_MSK_AND_SET_def TOG_SET_REG_BIT_MSK_AND_SET_def
      USB_SET_EP_RX_STAT_def USB_SET_EP_TX_STAT_def USB_CLR_EP_TX_DTOG_def USB_CLR_EP_RX_DTOG_def
      USB_CLR_EP_RX_CTR_def USB_CLR_EP_TX_CTR_def USB_CLR_EP_NTOGGLE_BIT_AND_SET_def
      USB_SET_EP_TYPE_def USB_SET_EP_ADDR_def)

lemma more_btable [simp]:
  "world.more (snd (GET_BTABLE_ENTRY b ep off s)) = world.more s"
  "world.more (SET_BTABLE_ENTRY b ep off v s) = world.more s"
  "world.more (snd (USB_GET_EP_TX_BUFF b ep s)) = world.more s"
  "world.more (snd (USB_GET_EP_RX_BUFF b ep s)) = world.more s"
  by (simp_all add: GET_BTABLE_ENTRY_def SET_BTABLE_ENTRY_def USB_GET_EP_TX_BUFF_def
      USB_GET_EP_RX_BUFF_def case_prod_beta)

end
