(* ===== verification/UsbCtl.thy ===== *)
theory UsbCtl
  imports Dfu UsbRegs
begin

text \<open>
  \<open>src_stage2/usb.cpp\<close>: descriptors, packet memory, endpoints, the control-transfer state machine
  and the poll function. A result \<open>None\<close> is an operation that never returns (a flash controller
  that stays busy in the completion callback) or a read past the end of a string.
\<close>

section \<open>Descriptors\<close>

definition dev_desc :: usb_device_descriptor where
  "dev_desc =
     \<lparr>dev_bLength = 18, dev_bDescriptorType = USB_DT_DEVICE, bcdUSB = 0x0200, bDeviceClass = 0,
      bDeviceSubClass = 0, bDeviceProtocol = 0, bMaxPacketSize0 = 64, idVendor = 0x1d50,
      idProduct = 0x6031, bcdDevice = 0x0200, iManufacturer = 1, iProduct = 2, iSerialNumber = 3,
      bNumConfigurations = 1\<rparr>"

definition config_desc_config :: usb_config_descriptor where
  "config_desc_config =
     \<lparr>cfg_bLength = 9, cfg_bDescriptorType = USB_DT_CONFIGURATION, wTotalLength = 27,
      bNumInterfaces = 1, bConfigurationValue = 1, iConfiguration = 5, cfg_bmAttributes = 0xC0,
      bMaxPower = 0x32\<rparr>"

definition config_desc_iface :: usb_interface_descriptor where
  "config_desc_iface =
     \<lparr>if_bLength = 9, if_bDescriptorType = USB_DT_INTERFACE, bInterfaceNumber = 0,
      bAlternateSetting = 0, bNumEndpoints = 0, bInterfaceClass = 0xFE, bInterfaceSubClass = 1,
      bInterfaceProtocol = 2, iInterface = 4\<rparr>"

definition config_desc_dfu :: "build \<Rightarrow> usb_dfu_descriptor" where
  "config_desc_dfu cfg =
     \<lparr>dfu_bLength = 9, dfu_bDescriptorType = DFU_FUNCTIONAL,
      dfu_bmAttributes = (if ENABLE_DFU_UPLOAD cfg then USB_DFU_CAN_UPLOAD else 0) OR
        USB_DFU_CAN_DOWNLOAD OR USB_DFU_WILL_DETACH,
      wDetachTimeout = 255, wTransferSize = 4096, bcdDFUVersion = 0x011A\<rparr>"

definition config_desc :: "build \<Rightarrow> u8 list" where
  "config_desc cfg =
     bytes_of_config config_desc_config @ bytes_of_interface config_desc_iface @
     bytes_of_dfu (config_desc_dfu cfg)"

lemma max_packet [simp]: "bMaxPacketSize0 dev_desc = 64"
  by (simp add: dev_desc_def)

section \<open>State\<close>

datatype usb_fsm =
    IDLE | STALLED | DATA_IN | LAST_DATA_IN | STATUS_IN | DATA_OUT | LAST_DATA_OUT | STATUS_OUT

record 'h usb_world = "'h dfu_world" +
  usb_fsm_state :: usb_fsm
  datasize :: u16
  dataoff :: u16
  usb_pm_top :: u16
  usb_needs_zlp :: u8
  usb_req :: usb_setup_data
  usb_force_nak :: "u8 list"
  usb_complete_cb :: "usb_callback option"

text \<open>The control buffer as memory: what follows it is \<open>ram_beyond\<close>.\<close>

definition ctl_byte :: "('h, 'm) dfu_world_scheme \<Rightarrow> nat \<Rightarrow> u8" where
  "ctl_byte s k =
     (if k < DFU_TRANSFER_SIZE then usbd_control_buffer s ! k else ram_beyond s (k - DFU_TRANSFER_SIZE))"

definition store_ctl :: "nat \<Rightarrow> u8 list \<Rightarrow> ('h, 'm) dfu_world_scheme \<Rightarrow> ('h, 'm) dfu_world_scheme" where
  "store_ctl off bs s =
     s\<lparr>usbd_control_buffer := take (length (usbd_control_buffer s))
         (take off (usbd_control_buffer s) @ bs @ drop (off + length bs) (usbd_control_buffer s)),
       ram_beyond := (\<lambda>k. if off \<le> DFU_TRANSFER_SIZE + k \<and> DFU_TRANSFER_SIZE + k < off + length bs
                          then bs ! (DFU_TRANSFER_SIZE + k - off) else ram_beyond s k)\<rparr>"

section \<open>Packet memory\<close>

text \<open>Packet memory has 16 bits in every 32-bit word of the address space. \<open>src\<close> gives the bytes
  of the system buffer.\<close>

fun copy_words_to_pm ::
  "'h bus \<Rightarrow> u32 \<Rightarrow> (nat \<Rightarrow> u8) \<Rightarrow> nat \<Rightarrow> nat \<Rightarrow> ('h, 'm) world_scheme \<Rightarrow> ('h, 'm) world_scheme" where
  "copy_words_to_pm b pm src i 0 s = s"
| "copy_words_to_pm b pm src i (Suc n) s =
     copy_words_to_pm b pm src (Suc i) n
       (wr32 b (pm + 4 * of_nat i) (ucast (mk16 (src (2 * i)) (src (2 * i + 1)))) s)"

definition st_usbfs_copy_to_pm ::
  "'h bus \<Rightarrow> u32 \<Rightarrow> (nat \<Rightarrow> u8) \<Rightarrow> nat \<Rightarrow> ('h, 'm) world_scheme \<Rightarrow> ('h, 'm) world_scheme" where
  "st_usbfs_copy_to_pm b pm src len = copy_words_to_pm b pm src 0 ((len + 1) div 2)"

fun copy_words_from_pm ::
  "'h bus \<Rightarrow> u32 \<Rightarrow> nat \<Rightarrow> nat \<Rightarrow> ('h, 'm) world_scheme \<Rightarrow> u8 list \<times> ('h, 'm) world_scheme" where
  "copy_words_from_pm b pm i 0 s = ([], s)"
| "copy_words_from_pm b pm i (Suc n) s =
     (let (w, s1) = rd16 b (pm + 4 * of_nat i) s;
          (bs, s2) = copy_words_from_pm b pm (Suc i) n s1
      in (lo8 w # hi8 w # bs, s2))"

definition st_usbfs_copy_from_pm ::
  "'h bus \<Rightarrow> u32 \<Rightarrow> nat \<Rightarrow> ('h, 'm) world_scheme \<Rightarrow> u8 list \<times> ('h, 'm) world_scheme" where
  "st_usbfs_copy_from_pm b pm len s =
     (let (bs, s1) = copy_words_from_pm b pm 0 (len div 2) s
      in if odd len
         then let (v, s2) = rd8 b (pm + 4 * of_nat (len div 2)) s1 in (bs @ [v], s2)
         else (bs, s1))"

section \<open>Endpoints\<close>

definition usbd_ep_write_packet ::
  "'h bus \<Rightarrow> u8 \<Rightarrow> (nat \<Rightarrow> u8) \<Rightarrow> u16 \<Rightarrow> ('h, 'm) world_scheme \<Rightarrow> u16 \<times> ('h, 'm) world_scheme" where
  "usbd_ep_write_packet b addr0 buf len s =
     (let addr = addr0 AND 0x7F;
          (v, s1) = rd32 b (USB_EP_REG addr) s
      in if v AND ucast USB_EP_TX_STAT = ucast USB_EP_TX_STAT_VALID then (0, s1)
         else
           let (pm, s2) = USB_GET_EP_TX_BUFF b addr s1;
               s3 = st_usbfs_copy_to_pm b pm buf (unat len) s2;
               s4 = USB_SET_EP_TX_COUNT b addr len s3;
               s5 = USB_SET_EP_TX_STAT b addr USB_EP_TX_STAT_VALID s4
           in (len, s5))"

text \<open>\<open>MIN(USB_GET_EP_RX_COUNT(addr) & 0x3ff, len)\<close>: the macro evaluates the count again when it
  is the smaller one.\<close>

definition rx_min :: "'h bus \<Rightarrow> u8 \<Rightarrow> u16 \<Rightarrow> ('h, 'm) world_scheme \<Rightarrow> u16 \<times> ('h, 'm) world_scheme" where
  "rx_min b addr len s =
     (let (c1, s1) = USB_GET_EP_RX_COUNT b addr s in
      if c1 AND 0x3ff < len
      then let (c2, s2) = USB_GET_EP_RX_COUNT b addr s1 in (c2 AND 0x3ff, s2)
      else (len, s1))"

text \<open>The bytes read are the result; the C function returns their number and the caller says where
  they go.\<close>

definition usbd_ep_read_packet ::
  "'h bus \<Rightarrow> u8 \<Rightarrow> u16 \<Rightarrow> ('h, 'm) usb_world_scheme \<Rightarrow> u8 list \<times> ('h, 'm) usb_world_scheme" where
  "usbd_ep_read_packet b addr len0 s =
     (let (v, s1) = rd32 b (USB_EP_REG addr) s
      in if v AND ucast USB_EP_RX_STAT = ucast USB_EP_RX_STAT_VALID then ([], s1)
         else
           let (len, s2) = rx_min b addr len0 s1;
               (pm, s3) = USB_GET_EP_RX_BUFF b addr s2;
               (bs, s4) = st_usbfs_copy_from_pm b pm (unat len) s3;
               s5 = USB_CLR_EP_RX_CTR b addr s4;
               s6 = (if usb_force_nak s5 ! unat addr = 0
                     then USB_SET_EP_RX_STAT b addr USB_EP_RX_STAT_VALID s5 else s5)
           in (bs, s6))"

definition usbd_ep_nak_set ::
  "'h bus \<Rightarrow> u8 \<Rightarrow> u8 \<Rightarrow> ('h, 'm) usb_world_scheme \<Rightarrow> ('h, 'm) usb_world_scheme" where
  "usbd_ep_nak_set b addr nak s =
     (if addr AND 0x80 \<noteq> 0 then s
      else
        let s1 = s\<lparr>usb_force_nak := (usb_force_nak s)[unat addr := nak]\<rparr> in
        if nak \<noteq> 0 then USB_SET_EP_RX_STAT b addr USB_EP_RX_STAT_NAK s1
        else USB_SET_EP_RX_STAT b addr USB_EP_RX_STAT_VALID s1)"

definition ep_stall_set :: "'h bus \<Rightarrow> u8 \<Rightarrow> bool \<Rightarrow> ('h, 'm) world_scheme \<Rightarrow> ('h, 'm) world_scheme" where
  "ep_stall_set b addr stall s =
     (let tx = (if stall then USB_EP_TX_STAT_STALL else USB_EP_TX_STAT_NAK);
          s1 = (if addr = 0 then USB_SET_EP_TX_STAT b addr tx s else s)
      in if addr AND 0x80 \<noteq> 0 then
           let addr' = addr AND 0x7F;
               s2 = USB_SET_EP_TX_STAT b addr' tx s1
           in if \<not> stall then USB_CLR_EP_TX_DTOG b addr' s2 else s2
         else
           let s2 = (if \<not> stall then USB_CLR_EP_RX_DTOG b addr s1 else s1)
           in USB_SET_EP_RX_STAT b addr (if stall then USB_EP_RX_STAT_STALL else USB_EP_RX_STAT_VALID) s2)"

definition ep_stall_get :: "'h bus \<Rightarrow> u8 \<Rightarrow> ('h, 'm) world_scheme \<Rightarrow> bool \<times> ('h, 'm) world_scheme" where
  "ep_stall_get b addr s =
     (if addr AND 0x80 \<noteq> 0 then
        let (v, s1) = rd32 b (USB_EP_REG (addr AND 0x7F)) s
        in (v AND ucast USB_EP_TX_STAT = ucast USB_EP_TX_STAT_STALL, s1)
      else
        let (v, s1) = rd32 b (USB_EP_REG addr) s
        in (v AND ucast USB_EP_RX_STAT = ucast USB_EP_RX_STAT_STALL, s1))"

definition stall_transaction :: "'h bus \<Rightarrow> ('h, 'm) usb_world_scheme \<Rightarrow> ('h, 'm) usb_world_scheme" where
  "stall_transaction b s = (ep_stall_set b 0 True s)\<lparr>usb_fsm_state := IDLE\<rparr>"

section \<open>Chunks of the data stage\<close>

definition usb_control_send_chunk :: "'h bus \<Rightarrow> ('h, 'm) usb_world_scheme \<Rightarrow> ('h, 'm) usb_world_scheme" where
  "usb_control_send_chunk b s =
     (let src = (\<lambda>i. ctl_byte s (unat (dataoff s) + i)) in
      if ucast (bMaxPacketSize0 dev_desc) < datasize s then
        let (_, s1) = usbd_ep_write_packet b 0 src (ucast (bMaxPacketSize0 dev_desc)) s
        in s1\<lparr>usb_fsm_state := DATA_IN, dataoff := dataoff s1 + ucast (bMaxPacketSize0 dev_desc),
              datasize := datasize s1 - ucast (bMaxPacketSize0 dev_desc)\<rparr>
      else
        let (_, s1) = usbd_ep_write_packet b 0 src (datasize s) s
        in s1\<lparr>usb_fsm_state := (if usb_needs_zlp s1 \<noteq> 0 then DATA_IN else LAST_DATA_IN),
              usb_needs_zlp := 0, datasize := 0\<rparr>)"

text \<open>The difference is computed as an \<open>int\<close> and then cut to 16 bits. The result is whether the
  packet had the expected size.\<close>

definition usb_control_recv_chunk ::
  "'h bus \<Rightarrow> ('h, 'm) usb_world_scheme \<Rightarrow> bool \<times> ('h, 'm) usb_world_scheme" where
  "usb_control_recv_chunk b s =
     (let packetsize = word_of_int (min (uint (bMaxPacketSize0 dev_desc)) (uint (wLength (usb_req s)) - uint (datasize s)));
          (bs, s1) = usbd_ep_read_packet b 0 packetsize s;
          s2 = store_ctl (unat (datasize s)) bs s1
      in if of_nat (length bs) \<noteq> packetsize then (False, stall_transaction b s2)
         else (True, s2\<lparr>datasize := datasize s2 + of_nat (length bs)\<rparr>))"

section \<open>Standard requests\<close>

definition utf16 :: "u8 list \<Rightarrow> u8 list" where
  "utf16 cs = concat (map (\<lambda>c. le16 (ucast c)) cs)"

type_synonym 's request_result = "(usbd_request_return_codes \<times> 's) option"

definition usb_standard_get_descriptor ::
  "build \<Rightarrow> ('h, 'm) usb_world_scheme \<Rightarrow> ('h, 'm) usb_world_scheme request_result" where
  "usb_standard_get_descriptor cfg s =
     (let descr_idx = unat (wValue (usb_req s) AND 0xFF);
          descr_type = drop_bit 8 (wValue (usb_req s))
      in if descr_type = ucast USB_DT_DEVICE then
           Some (USBD_REQ_HANDLED, (store_ctl 0 (bytes_of_device dev_desc) s)\<lparr>datasize := 18\<rparr>)
         else if descr_type = ucast USB_DT_CONFIGURATION then
           Some (USBD_REQ_HANDLED, (store_ctl 0 (config_desc cfg) s)\<lparr>datasize := 27\<rparr>)
         else if descr_type = ucast USB_DT_STRING then
           let s1 = store_ctl 1 [USB_DT_STRING] s in
           if descr_idx = 0 then
             Some (USBD_REQ_HANDLED,
                   (store_ctl 0 [4] (store_ctl 2 (le16 USB_LANGID_ENGLISH_US) s1))\<lparr>datasize := 4\<rparr>)
           else if length (usb_strings s) \<le> descr_idx - 1 then Some (USBD_REQ_NOTSUPP, s1)
           else if wIndex (usb_req s) \<noteq> USB_LANGID_ENGLISH_US then Some (USBD_REQ_NOTSUPP, s1)
           else do {
             let str = usb_strings s ! (descr_idx - 1);
             numchars \<leftarrow> xstrlen str;
             let len = (of_nat (numchars * 2 + 2) :: u8);
             let s2 = (store_ctl 0 [len] s1)\<lparr>datasize := ucast len\<rparr>;
             Some (USBD_REQ_HANDLED, store_ctl 2 (utf16 (take numchars str)) s2)
           }
         else Some (USBD_REQ_NOTSUPP, s))"

fun disable_endpoints :: "'h bus \<Rightarrow> u8 list \<Rightarrow> ('h, 'm) world_scheme \<Rightarrow> ('h, 'm) world_scheme" where
  "disable_endpoints b [] s = s"
| "disable_endpoints b (i # is) s =
     disable_endpoints b is
       (USB_SET_EP_RX_STAT b i USB_EP_RX_STAT_DISABLED (USB_SET_EP_TX_STAT b i USB_EP_TX_STAT_DISABLED s))"

abbreviation USBD_PM_TOP :: u16 where "USBD_PM_TOP \<equiv> 0x40"

definition usbd_standard_request_device ::
  "build \<Rightarrow> 'h bus \<Rightarrow> ('h, 'm) usb_world_scheme \<Rightarrow> ('h, 'm) usb_world_scheme request_result" where
  "usbd_standard_request_device cfg b s =
     (let r = bRequest (usb_req s) in
      if r = USB_REQ_SET_ADDRESS then
        if bmRequestType (usb_req s) \<noteq> 0 \<or> 128 \<le> wValue (usb_req s) then Some (USBD_REQ_NOTSUPP, s)
        else Some (USBD_REQ_HANDLED, s)
      else if r = USB_REQ_SET_CONFIGURATION then
        if wValue (usb_req s) = ucast (bConfigurationValue config_desc_config) then
          Some (USBD_REQ_HANDLED, (disable_endpoints b [1, 2, 3, 4, 5, 6, 7] s)
            \<lparr>usb_pm_top := USBD_PM_TOP + 2 * ucast (bMaxPacketSize0 dev_desc)\<rparr>)
        else Some (USBD_REQ_NOTSUPP, s)
      else if r = USB_REQ_GET_CONFIGURATION then
        Some (USBD_REQ_HANDLED, (store_ctl 0 [1] s)\<lparr>datasize := 1\<rparr>)
      else if r = USB_REQ_GET_DESCRIPTOR then usb_standard_get_descriptor cfg s
      else if r = USB_REQ_GET_STATUS then
        Some (USBD_REQ_HANDLED, (store_ctl 0 [0, 0] s)\<lparr>datasize := 2\<rparr>)
      else Some (USBD_REQ_NOTSUPP, s))"

definition usbd_standard_request_interface ::
  "('h, 'm) usb_world_scheme \<Rightarrow> ('h, 'm) usb_world_scheme request_result" where
  "usbd_standard_request_interface s =
     (let r = bRequest (usb_req s) in
      if r = USB_REQ_GET_INTERFACE then
        Some (USBD_REQ_HANDLED, (store_ctl 0 [1] s)\<lparr>datasize := 1\<rparr>)
      else if r = USB_REQ_SET_INTERFACE then Some (USBD_REQ_HANDLED, s\<lparr>datasize := 0\<rparr>)
      else if r = USB_REQ_GET_STATUS then
        Some (USBD_REQ_NOTSUPP, (store_ctl 0 [0, 0] s)\<lparr>datasize := 2\<rparr>)
      else Some (USBD_REQ_NOTSUPP, s))"

definition usbd_standard_request_endpoint ::
  "'h bus \<Rightarrow> ('h, 'm) usb_world_scheme \<Rightarrow> ('h, 'm) usb_world_scheme request_result" where
  "usbd_standard_request_endpoint b s =
     (let r = bRequest (usb_req s) in
      if r = USB_REQ_CLEAR_FEATURE \<or> r = USB_REQ_SET_FEATURE then
        if wValue (usb_req s) = USB_FEAT_ENDPOINT_HALT then
          Some (USBD_REQ_HANDLED, ep_stall_set b (ucast (wIndex (usb_req s))) (r = USB_REQ_SET_FEATURE) s)
        else Some (USBD_REQ_NOTSUPP, s)
      else if r = USB_REQ_GET_STATUS then
        let (st, s1) = ep_stall_get b (ucast (wIndex (usb_req s))) s
        in Some (USBD_REQ_HANDLED, (store_ctl 0 [if st then 1 else 0, 0] s1)\<lparr>datasize := 2\<rparr>)
      else Some (USBD_REQ_NOTSUPP, s))"

definition usbd_standard_request ::
  "build \<Rightarrow> 'h bus \<Rightarrow> ('h, 'm) usb_world_scheme \<Rightarrow> ('h, 'm) usb_world_scheme request_result" where
  "usbd_standard_request cfg b s =
     (let ty = bmRequestType (usb_req s) in
      if ty AND USB_REQ_TYPE_TYPE \<noteq> USB_REQ_TYPE_STANDARD then Some (USBD_REQ_NOTSUPP, s)
      else
        let recipient = ty AND USB_REQ_TYPE_RECIPIENT in
        if recipient = USB_REQ_TYPE_DEVICE then usbd_standard_request_device cfg b s
        else if recipient = USB_REQ_TYPE_INTERFACE then usbd_standard_request_interface s
        else if recipient = USB_REQ_TYPE_ENDPOINT then usbd_standard_request_endpoint b s
        else Some (USBD_REQ_NOTSUPP, s))"

section \<open>Dispatch and the stages of a control transfer\<close>

definition class_request :: "usb_setup_data \<Rightarrow> bool" where
  "class_request r \<longleftrightarrow>
     bmRequestType r AND (USB_REQ_TYPE_TYPE OR USB_REQ_TYPE_RECIPIENT) = USB_REQ_TYPE_CLASS OR USB_REQ_TYPE_INTERFACE"

definition usb_control_request_dispatch ::
  "build \<Rightarrow> 'h bus \<Rightarrow> ('h, 'm) usb_world_scheme \<Rightarrow> ('h, 'm) usb_world_scheme request_result" where
  "usb_control_request_dispatch cfg b s =
     (if class_request (usb_req s) then
        let (result, len, cb, s1) = usbdfu_control_request cfg b (usb_req s) (wLength (usb_req s)) s;
            s2 = s1\<lparr>datasize := len,
                    usb_complete_cb := (case cb of None \<Rightarrow> usb_complete_cb s1 | Some c \<Rightarrow> Some c)\<rparr>
        in if result = USBD_REQ_HANDLED \<or> result = USBD_REQ_NOTSUPP then Some (result, s2)
           else usbd_standard_request cfg b s2
      else usbd_standard_request cfg b s)"

definition needs_zlp :: "u16 \<Rightarrow> u16 \<Rightarrow> u8 \<Rightarrow> u8" where
  "needs_zlp len wLen ep_size =
     (if len < wLen \<and> len \<noteq> 0 \<and> len mod ucast ep_size = 0 then 1 else 0)"

definition usb_control_setup_read ::
  "build \<Rightarrow> 'h bus \<Rightarrow> ('h, 'm) usb_world_scheme \<Rightarrow> ('h, 'm) usb_world_scheme option" where
  "usb_control_setup_read cfg b s = do {
     let maxdataout = wLength (usb_req s);
     (r, s1) \<leftarrow> usb_control_request_dispatch cfg b (s\<lparr>dataoff := 0\<rparr>);
     Some (if ret_true r then
             let s2 = (if maxdataout < datasize s1 then s1\<lparr>datasize := maxdataout\<rparr> else s1) in
             if maxdataout \<noteq> 0 then
               usb_control_send_chunk b
                 (s2\<lparr>usb_needs_zlp := needs_zlp (datasize s2) maxdataout (bMaxPacketSize0 dev_desc)\<rparr>)
             else
               let (_, s3) = usbd_ep_write_packet b 0 (\<lambda>_. 0) 0 s2 in s3\<lparr>usb_fsm_state := STATUS_IN\<rparr>
           else stall_transaction b s1)
   }"

definition usb_control_setup_write :: "'h bus \<Rightarrow> ('h, 'm) usb_world_scheme \<Rightarrow> ('h, 'm) usb_world_scheme" where
  "usb_control_setup_write b s =
     (if DFU_TRANSFER_SIZE < unat (wLength (usb_req s)) then stall_transaction b s
      else
        let s1 = s\<lparr>datasize := 0,
                   usb_fsm_state := (if ucast (bMaxPacketSize0 dev_desc) < wLength (usb_req s)
                                     then DATA_OUT else LAST_DATA_OUT)\<rparr>
        in usbd_ep_nak_set b 0 0 s1)"

definition usbd_control_setup ::
  "build \<Rightarrow> 'h bus \<Rightarrow> ('h, 'm) usb_world_scheme \<Rightarrow> ('h, 'm) usb_world_scheme option" where
  "usbd_control_setup cfg b s =
     (let s1 = usbd_ep_nak_set b 0 1 (s\<lparr>usb_complete_cb := None\<rparr>);
          (bs, s2) = usbd_ep_read_packet b 0 8 s1;
          s3 = s2\<lparr>usb_req := setup_overwrite bs (usb_req s2)\<rparr>
      in if length bs \<noteq> 8 then Some (stall_transaction b s3)
         else if wLength (usb_req s3) = 0 \<or> bmRequestType (usb_req s3) AND 0x80 \<noteq> 0
         then usb_control_setup_read cfg b s3
         else Some (usb_control_setup_write b s3))"

text \<open>Calling the completion callback, if one is set.\<close>

definition run_complete_cb ::
  "build \<Rightarrow> 'h bus \<Rightarrow> ('h, 'm) usb_world_scheme \<Rightarrow> ('h, 'm) usb_world_scheme option" where
  "run_complete_cb cfg b s =
     (case usb_complete_cb s of None \<Rightarrow> Some s | Some cb \<Rightarrow> usb_callback_run cfg b cb s)"

definition usbd_control_out ::
  "build \<Rightarrow> 'h bus \<Rightarrow> ('h, 'm) usb_world_scheme \<Rightarrow> ('h, 'm) usb_world_scheme option" where
  "usbd_control_out cfg b s =
     (case usb_fsm_state s of
        DATA_OUT \<Rightarrow>
          (let (ok, s1) = usb_control_recv_chunk b s in
           Some (if ok \<and> uint (wLength (usb_req s1)) - uint (datasize s1) \<le> uint (bMaxPacketSize0 dev_desc)
                 then s1\<lparr>usb_fsm_state := LAST_DATA_OUT\<rparr> else s1))
      | LAST_DATA_OUT \<Rightarrow>
          (let (ok, s1) = usb_control_recv_chunk b s in
           if \<not> ok then Some s1
           else do {
             (r, s2) \<leftarrow> usb_control_request_dispatch cfg b s1;
             Some (if ret_true r
                   then let (_, s3) = usbd_ep_write_packet b 0 (\<lambda>_. 0) 0 s2 in s3\<lparr>usb_fsm_state := STATUS_IN\<rparr>
                   else stall_transaction b s2)
           })
      | STATUS_OUT \<Rightarrow>
          (let (_, s1) = usbd_ep_read_packet b 0 0 s in
           do {
             s2 \<leftarrow> run_complete_cb cfg b (s1\<lparr>usb_fsm_state := IDLE\<rparr>);
             Some (s2\<lparr>usb_complete_cb := None\<rparr>)
           })
      | _ \<Rightarrow> Some (stall_transaction b s))"

definition usbd_control_in ::
  "build \<Rightarrow> 'h bus \<Rightarrow> ('h, 'm) usb_world_scheme \<Rightarrow> ('h, 'm) usb_world_scheme option" where
  "usbd_control_in cfg b s =
     (case usb_fsm_state s of
        DATA_IN \<Rightarrow> Some (usb_control_send_chunk b s)
      | LAST_DATA_IN \<Rightarrow> Some (usbd_ep_nak_set b 0 0 (s\<lparr>usb_fsm_state := STATUS_OUT\<rparr>))
      | STATUS_IN \<Rightarrow> do {
          s1 \<leftarrow> run_complete_cb cfg b s;
          let s2 = (if bmRequestType (usb_req s1) = 0 \<and> bRequest (usb_req s1) = USB_REQ_SET_ADDRESS
                    then SET_REG b USB_DADDR_REG ((wValue (usb_req s1) AND USB_DADDR_ADDR) OR USB_DADDR_EF) s1
                    else s1);
          Some (s2\<lparr>usb_fsm_state := IDLE\<rparr>)
        }
      | _ \<Rightarrow> Some (stall_transaction b s))"

section \<open>Endpoint setup and the poll function\<close>

definition set_ep_rx_bufsize :: "'h bus \<Rightarrow> u8 \<Rightarrow> u32 \<Rightarrow> ('h, 'm) world_scheme \<Rightarrow> ('h, 'm) world_scheme" where
  "set_ep_rx_bufsize b ep size0 s =
     (if 62 < size0 then
        let sz = (if size0 AND 0x1f \<noteq> 0 then size0 - 32 else size0)
        in USB_SET_EP_RX_COUNT b ep (ucast (push_bit 5 sz OR 0x8000)) s
      else
        let sz = (if size0 AND 1 \<noteq> 0 then size0 + 1 else size0)
        in USB_SET_EP_RX_COUNT b ep (ucast (push_bit 10 sz)) s)"

definition typelookup :: "u16 list" where
  "typelookup = [USB_EP_TYPE_CONTROL, USB_EP_TYPE_ISO, USB_EP_TYPE_BULK, USB_EP_TYPE_INTERRUPT]"

definition usbd_ep_setup ::
  "'h bus \<Rightarrow> u8 \<Rightarrow> u8 \<Rightarrow> u16 \<Rightarrow> ('h, 'm) usb_world_scheme \<Rightarrow> ('h, 'm) usb_world_scheme" where
  "usbd_ep_setup b addr0 ty max_size s =
     (let dir = addr0 AND 0x80;
          addr = addr0 AND 0x7f;
          s1 = USB_SET_EP_ADDR b addr (ucast addr) s;
          s2 = USB_SET_EP_TYPE b addr (typelookup ! unat ty) s1;
          s3 = (if dir \<noteq> 0 \<or> addr = 0 then
                  let t1 = USB_SET_EP_TX_ADDR b addr (usb_pm_top s2) s2;
                      t2 = USB_CLR_EP_TX_DTOG b addr t1;
                      t3 = USB_SET_EP_TX_STAT b addr USB_EP_TX_STAT_NAK t2
                  in t3\<lparr>usb_pm_top := usb_pm_top t3 + max_size\<rparr>
                else s2)
      in if dir = 0 then
           let t1 = USB_SET_EP_RX_ADDR b addr (usb_pm_top s3) s3;
               t2 = set_ep_rx_bufsize b addr (ucast max_size) t1;
               t3 = USB_CLR_EP_RX_DTOG b addr t2;
               t4 = USB_SET_EP_RX_STAT b addr USB_EP_RX_STAT_VALID t3
           in t4\<lparr>usb_pm_top := usb_pm_top t4 + max_size\<rparr>
         else s3)"

definition clr_istr_if :: "'h bus \<Rightarrow> u16 \<Rightarrow> u16 \<Rightarrow> ('h, 'm) world_scheme \<Rightarrow> ('h, 'm) world_scheme" where
  "clr_istr_if b istr bt s = (if istr AND bt \<noteq> 0 then CLR_REG_BIT b USB_ISTR_REG bt s else s)"

definition usb_reset_event :: "'h bus \<Rightarrow> ('h, 'm) usb_world_scheme \<Rightarrow> ('h, 'm) usb_world_scheme" where
  "usb_reset_event b s =
     (let s1 = (CLR_REG_BIT b USB_ISTR_REG USB_ISTR_RESET s)\<lparr>usb_pm_top := USBD_PM_TOP\<rparr>;
          s2 = usbd_ep_setup b 0 USB_ENDPOINT_ATTR_CONTROL (ucast (bMaxPacketSize0 dev_desc)) s1
      in SET_REG b USB_DADDR_REG USB_DADDR_EF s2)"

definition usb_ctr_event ::
  "build \<Rightarrow> 'h bus \<Rightarrow> u16 \<Rightarrow> ('h, 'm) usb_world_scheme \<Rightarrow> ('h, 'm) usb_world_scheme option" where
  "usb_ctr_event cfg b istr s =
     (let ep = (ucast (istr AND USB_ISTR_EP_ID) :: u8) in
      if istr AND USB_ISTR_DIR \<noteq> 0 then
        let (v, s1) = rd32 b (USB_EP_REG ep) s
        in if v AND ucast USB_EP_SETUP \<noteq> 0 then usbd_control_setup cfg b s1 else usbd_control_out cfg b s1
      else usbd_control_in cfg b (USB_CLR_EP_TX_CTR b ep s))"

definition do_usb_poll ::
  "build \<Rightarrow> 'h bus \<Rightarrow> ('h, 'm) usb_world_scheme \<Rightarrow> ('h, 'm) usb_world_scheme option" where
  "do_usb_poll cfg b s0 =
     (let (istr, s) = GET_REG b USB_ISTR_REG s0 in
      if istr AND USB_ISTR_RESET \<noteq> 0 then Some (usb_reset_event b s)
      else do {
        s1 \<leftarrow> (if istr AND USB_ISTR_CTR \<noteq> 0 then usb_ctr_event cfg b istr s else Some s);
        let s2 = clr_istr_if b istr USB_ISTR_SUSP s1;
        let s3 = clr_istr_if b istr USB_ISTR_WKUP s2;
        let s4 = clr_istr_if b istr USB_ISTR_SOF s3;
        Some (mod32 b USB_CNTR_REG (\<lambda>v. v AND NOT USB_CNTR_SOFM) s4)
      })"

end
