(* ===== verification/UsbSafe.thy ===== *)
theory UsbSafe
  imports UsbCtl Registers
begin

text \<open>
  Memory safety of the USB stack: whatever the host sends and however the peripheral and the flash
  controller behave, the control buffer keeps its size, nothing behind it is ever written, and the
  receive stages stay within the buffer.
\<close>

section \<open>What the class keeps\<close>

definition dfu_keeps :: "('h, 'm) dfu_world_scheme \<Rightarrow> ('h, 'm) dfu_world_scheme \<Rightarrow> bool" where
  "dfu_keeps s s' \<longleftrightarrow>
     length (usbd_control_buffer s') = length (usbd_control_buffer s) \<and>
     ram_beyond s' = ram_beyond s \<and> length (prog_buf s') = length (prog_buf s) \<and>
     serial_no s' = serial_no s \<and> memory_layout s' = memory_layout s \<and>
     dfu_world.more s' = dfu_world.more s"

lemma dfu_keeps_refl [simp, intro]: "dfu_keeps s s"
  by (simp add: dfu_keeps_def)

lemma dfu_keeps_trans [trans]: "dfu_keeps s t \<Longrightarrow> dfu_keeps t u \<Longrightarrow> dfu_keeps s u"
  by (simp add: dfu_keeps_def)

lemma dfu_fields_eq:
  assumes "flash_world.more s' = flash_world.more s"
  shows "usbd_control_buffer s' = usbd_control_buffer s" "ram_beyond s' = ram_beyond s"
    "prog_buf s' = prog_buf s" "prog_len s' = prog_len s" "prog_addr s' = prog_addr s"
    "prog_blocknum s' = prog_blocknum s" "usbdfu_state s' = usbdfu_state s" "gd32 s' = gd32 s"
    "sysTick s' = sysTick s" "nextTick s' = nextTick s" "serial_no s' = serial_no s"
    "memory_layout s' = memory_layout s" "dfu_world.more s' = dfu_world.more s"
  using assms by (cases s; cases s'; simp)+

lemma flash_more: "world.more s' = world.more s \<Longrightarrow> flash_world.more s' = flash_world.more s"
  by (cases s; cases s') simp

lemma dfu_keeps_flash: "flash_world.more s' = flash_world.more s \<Longrightarrow> dfu_keeps s s'"
  using dfu_fields_eq [of s' s] by (simp add: dfu_keeps_def)

lemma flash_only_dfu: "flash_only s s' \<Longrightarrow> flash_world.more s' = flash_world.more s"
  by (rule flash_only_eqs)

lemma flash_only_check_do_erase:
  assumes "check_do_erase b s = Some s'"
  shows "flash_world.more s' = flash_world.more s"
  using assms flash_only_dfu [OF flash_only_erase_range]
  by (auto simp: check_do_erase_def bind_eq_Some_conv split: if_splits)

lemma more_safewrite:
  assumes "(if c then check_do_erase b s else Some s) = Some s'"
  shows "flash_world.more s' = flash_world.more s"
  using assms flash_only_check_do_erase by (cases c) auto

lemma more_cmd_erase:
  assumes "dfu_cmd_erase cfg b s = Some s'"
  shows "flash_world.more s' = flash_world.more s"
proof -
  obtain s1 where s1: "(if ENABLE_SAFEWRITE cfg then check_do_erase b s else Some s) = Some s1"
    and rest: "erase_if_needed b (read_u32 (prog_buf s1) 1) s1 = Some s' \<or> s' = s1"
    using assms unfolding dfu_cmd_erase_def Let_def bind_eq_Some_conv
    by (metis option.inject)
  show ?thesis
    using rest more_safewrite [OF s1] flash_only_dfu [OF flash_only_erase_if_needed] by metis
qed

lemma more_program:
  assumes "(if c then flash_program_buffer_gd32 b a d n s else flash_program_buffer b a d n s) = Some s'"
  shows "flash_world.more s' = flash_world.more s"
  using assms flash_more [OF more_program_buffer] flash_more [OF more_program_buffer_gd32]
  by (cases c) auto

lemma more_program_block:
  assumes "dfu_program_block b a s = Some s'"
  shows "flash_world.more s' = flash_world.more s"
proof -
  obtain s1 where s1: "flash_erase_range b a (a + ucast (prog_len s)) s = Some s1"
    and "(if gd32 s1 then flash_program_buffer_gd32 b a (prog_buf s1) (unat (prog_len s1)) s1
       else flash_program_buffer b a (prog_buf s1) (unat (prog_len s1)) s1) = Some s'"
    using assms unfolding dfu_program_block_def bind_eq_Some_conv by blast
  from more_program [OF this(2)] flash_only_dfu [OF flash_only_erase_range [OF s1]] show ?thesis
    by simp
qed

lemma more_write_block:
  assumes "dfu_write_block cfg b s = Some s'"
  shows "flash_world.more s' = flash_world.more s"
proof -
  obtain s1 where s1: "(if ENABLE_SAFEWRITE cfg then check_do_erase b s else Some s) = Some s1"
    and "dfu_program_block b (dfu_block_addr (prog_addr s1) (prog_blocknum s1)) s1 = Some s' \<or> s' = s1"
    using assms by (auto simp: dfu_write_block_def Let_def bind_eq_Some_conv split: if_splits)
  then have "flash_world.more s' = flash_world.more s1" using more_program_block by blast
  then show ?thesis using more_safewrite [OF s1] by simp
qed

lemma keeps_busy: "dfu_busy_operation cfg b s = Some s' \<Longrightarrow> dfu_keeps s s'"
  unfolding dfu_busy_operation_def
  by (auto simp: dfu_keeps_def dfu_fields_eq [OF more_cmd_erase] dfu_fields_eq [OF more_write_block]
      split: if_splits)

lemma keeps_complete:
  assumes "usbdfu_getstatus_complete cfg b s = Some s'"
  shows "dfu_keeps s s'"
proof (cases "usbdfu_state s = STATE_DFU_DNBUSY")
  case True
  let ?s1 = "flash_unlock b False s"
  have more1: "flash_world.more ?s1 = flash_world.more s" by (rule flash_more) simp
  from True obtain s2 where s2: "dfu_busy_operation cfg b ?s1 = Some s2"
    and s': "s' = (flash_lock b s2)\<lparr>usbdfu_state := STATE_DFU_DNLOAD_IDLE\<rparr>"
    using assms by (auto simp: usbdfu_getstatus_complete_def Let_def bind_eq_Some_conv)
  have "dfu_keeps ?s1 s2"
    using s2 by (rule keeps_busy)
  also have "dfu_keeps s2 (flash_lock b s2)" by (intro dfu_keeps_flash flash_more) simp
  also have "dfu_keeps \<dots> s'" by (simp add: s' dfu_keeps_def)
  finally have "dfu_keeps ?s1 s'" .
  then show ?thesis using dfu_keeps_trans [OF dfu_keeps_flash [OF more1]] by blast
next
  case False
  then have "s' = s"
    using assms by (cases "usbdfu_state s") (simp_all add: usbdfu_getstatus_complete_def)
  then show ?thesis by simp
qed

lemma length_fold_update [simp]:
  "length (fold (\<lambda>(i, v) buf. buf[i := v]) ws buf) = length buf"
  by (induction ws arbitrary: buf) (auto split: prod.splits)

lemma keeps_set_ctl [intro]: "dfu_keeps s t \<Longrightarrow> dfu_keeps s (set_ctl ws t)"
  by (simp add: dfu_keeps_def set_ctl_def)

lemma keeps_state [simp]: "dfu_keeps s (s\<lparr>usbdfu_state := st\<rparr>)"
  by (simp add: dfu_keeps_def)

lemma length_read_bytes: "length (fst (read_bytes b a n s)) = n"
  by (induction n arbitrary: a s) (simp_all add: case_prod_beta)

lemma more_read_bytes: "world.more (snd (read_bytes b a n s)) = world.more s"
  by (induction n arbitrary: a s) (simp_all add: case_prod_beta)

lemma keeps_upload:
  assumes "length (usbd_control_buffer s) = DFU_TRANSFER_SIZE"
  shows "dfu_keeps s (snd (dfu_upload cfg b req s))"
proof -
  let ?s = "s\<lparr>usbdfu_state := STATE_DFU_UPLOAD_IDLE\<rparr>"
  have "dfu_keeps s ((snd (read_bytes b a DFU_TRANSFER_SIZE ?s))
      \<lparr>usbd_control_buffer := fst (read_bytes b a DFU_TRANSFER_SIZE ?s)\<rparr>)" for a
    using dfu_fields_eq [OF flash_more [OF more_read_bytes [of b a DFU_TRANSFER_SIZE ?s]]] assms
    by (simp add: dfu_keeps_def length_read_bytes)
  then show ?thesis
    by (auto simp: dfu_upload_def Let_def case_prod_beta)
qed

lemma keeps_request:
  assumes "usbdfu_control_request cfg b req len s = (r, len', cb, s')"
    and "length (usbd_control_buffer s) = DFU_TRANSFER_SIZE" "length (prog_buf s) = DFU_TRANSFER_SIZE"
  shows "dfu_keeps s s'"
proof -
  have "dfu_keeps s (dfu_dnload req len s)"
    using assms(2, 3) by (auto simp: dfu_dnload_def Let_def dfu_keeps_def)
  moreover have "dfu_keeps s (dfu_getstatus_reply s)"
    by (auto simp: dfu_getstatus_reply_def usbdfu_getstatus_def Let_def split: dfu_state.splits)
  moreover note keeps_upload [OF assms(2), of cfg b req]
  ultimately show ?thesis
    using assms(1)
    by (auto simp: usbdfu_control_request_def case_prod_beta split: option.splits dfu_req.splits if_splits)
qed

section \<open>Packet memory and endpoints leave the variables alone\<close>

lemma more_copy_words_to_pm [simp]: "world.more (copy_words_to_pm b pm src i n s) = world.more s"
  by (induction n arbitrary: i s) simp_all

lemma more_copy_words_from_pm [simp]: "world.more (snd (copy_words_from_pm b pm i n s)) = world.more s"
  by (induction n arbitrary: i s) (simp_all add: case_prod_beta)

lemma length_copy_words_from_pm [simp]: "length (fst (copy_words_from_pm b pm i n s)) = 2 * n"
  by (induction n arbitrary: i s) (simp_all add: case_prod_beta)

lemma more_copy_pm [simp]:
  "world.more (st_usbfs_copy_to_pm b pm src len s) = world.more s"
  "world.more (snd (st_usbfs_copy_from_pm b pm len s)) = world.more s"
  by (simp_all add: st_usbfs_copy_to_pm_def st_usbfs_copy_from_pm_def case_prod_beta Let_def)

lemma length_copy_from_pm [simp]: "length (fst (st_usbfs_copy_from_pm b pm len s)) = len"
  by (cases "odd len") (simp_all add: st_usbfs_copy_from_pm_def case_prod_beta Let_def odd_two_times_div_two_succ)

lemma more_write_packet [simp]: "world.more (snd (usbd_ep_write_packet b a src len s)) = world.more s"
  by (simp add: usbd_ep_write_packet_def case_prod_beta Let_def)

lemma more_rx_min [simp]: "world.more (snd (rx_min b a len s)) = world.more s"
  by (simp add: rx_min_def case_prod_beta Let_def)

lemma more_read_packet [simp]: "world.more (snd (usbd_ep_read_packet b a len s)) = world.more s"
  by (simp add: usbd_ep_read_packet_def case_prod_beta Let_def)

lemma more_stall_set [simp]: "world.more (ep_stall_set b a st s) = world.more s"
  by (simp add: ep_stall_set_def Let_def)

lemma more_stall_get [simp]: "world.more (snd (ep_stall_get b a s)) = world.more s"
  by (simp add: ep_stall_get_def case_prod_beta Let_def)

lemma more_disable_endpoints [simp]: "world.more (disable_endpoints b is s) = world.more s"
  by (induction "is" arbitrary: s) simp_all

lemma more_clr_istr_if [simp]: "world.more (clr_istr_if b i bt s) = world.more s"
  by (simp add: clr_istr_if_def)

lemma more_rx_bufsize [simp]: "world.more (set_ep_rx_bufsize b ep sz s) = world.more s"
  by (simp add: set_ep_rx_bufsize_def Let_def)

lemma usb_fields_eq:
  assumes "world.more s' = world.more s"
  shows "flash_world.more s' = flash_world.more s" "dfu_world.more s' = dfu_world.more s"
    "usbd_control_buffer s' = usbd_control_buffer s" "ram_beyond s' = ram_beyond s"
    "prog_buf s' = prog_buf s" "usbdfu_state s' = usbdfu_state s" "serial_no s' = serial_no s"
    "memory_layout s' = memory_layout s"
    "usb_fsm_state s' = usb_fsm_state s" "datasize s' = datasize s" "dataoff s' = dataoff s"
    "usb_pm_top s' = usb_pm_top s" "usb_needs_zlp s' = usb_needs_zlp s" "usb_req s' = usb_req s"
    "usb_force_nak s' = usb_force_nak s" "usb_complete_cb s' = usb_complete_cb s"
  using assms by (cases s; cases s'; simp)+

lemma usb_fields_eq_dfu:
  assumes "dfu_world.more s' = dfu_world.more s"
  shows "usb_fsm_state s' = usb_fsm_state s" "datasize s' = datasize s" "dataoff s' = dataoff s"
    "usb_pm_top s' = usb_pm_top s" "usb_needs_zlp s' = usb_needs_zlp s" "usb_req s' = usb_req s"
    "usb_force_nak s' = usb_force_nak s" "usb_complete_cb s' = usb_complete_cb s"
  using assms by (cases s; cases s'; simp)+

section \<open>A received packet waits\<close>

text \<open>The macro \<open>MIN\<close> reads the receive count twice. Between the two readings no other packet may arrive, and
  none does: from the event until the firmware clears the flag CTR_RX of the endpoint, the peripheral
  answers OUT with NAK and ignores SETUP, so that the host has to repeat it (reference manual RM0008,
  STAT_RX: if CTR_RX is still set, a SETUP is discarded and not acknowledged, whatever STAT_RX says). A
  control endpoint takes a SETUP in spite of NAK only when the flag is clear. \<open>held h\<close>: a packet of
  endpoint 0 has been received and its flag is set. The event register says so; no load changes
  that, nor does a store to the endpoint register that keeps the flag and sets the reception to NAK;
  and meanwhile loads do not change the address of the descriptor table and the receive count in it.
  No other endpoint is ever opened, so an event with direction OUT is one of endpoint 0.\<close>

locale rx_held =
  fixes b :: "'h bus" and held :: "'h \<Rightarrow> bool"
  assumes held_event: "(ucast (fst (ld32 b USB_ISTR_REG h)) :: u16) AND USB_ISTR_CTR \<noteq> 0 \<Longrightarrow>
      (ucast (fst (ld32 b USB_ISTR_REG h)) :: u16) AND USB_ISTR_DIR \<noteq> 0 \<Longrightarrow> held (snd (ld32 b USB_ISTR_REG h))"
    and held_load: "held h \<Longrightarrow> held (snd (ld8 b a h))" "held h \<Longrightarrow> held (snd (ld16 b a h))" "held h \<Longrightarrow> held (snd (ld32 b a h))"
    and held_nak: "held h \<Longrightarrow> v AND USB_EP_RX_CTR \<noteq> 0 \<Longrightarrow>
      (ucast (fst (ld32 b (USB_EP_REG 0) h)) XOR v) AND USB_EP_RX_STAT = USB_EP_RX_STAT_NAK \<Longrightarrow>
      held (st32 b (USB_EP_REG 0) (ucast (v :: u16)) (snd (ld32 b (USB_EP_REG 0) h)))"
    and held_count: "held h \<Longrightarrow> a = USB_BTABLE_REG \<or> a = btable_entry 0 6 (ucast (fst (ld32 b USB_BTABLE_REG h))) \<Longrightarrow>
      fst (ld32 b a (snd (ld32 b a' h))) = fst (ld32 b a h)"
begin

lemma held_GET_REG: "held (hw s) \<Longrightarrow> held (hw (snd (GET_REG b a s)))"
  by (simp add: GET_REG_def case_prod_beta held_load)

lemma held_btable: "held h \<Longrightarrow> fst (ld32 b USB_BTABLE_REG (snd (ld32 b a h))) = fst (ld32 b USB_BTABLE_REG h)"
  using held_count by blast

lemma held_entry:
  assumes "held h" "bt = ucast (fst (ld32 b USB_BTABLE_REG h))"
  shows "fst (ld32 b (btable_entry 0 6 bt) (snd (ld32 b a h))) = fst (ld32 b (btable_entry 0 6 bt) h)"
  unfolding assms(2) using held_count [OF assms(1)] by blast

lemma rx_count_stable:
  assumes "held (hw s)"
  shows "fst (USB_GET_EP_RX_COUNT b 0 (snd (USB_GET_EP_RX_COUNT b 0 s))) = fst (USB_GET_EP_RX_COUNT b 0 s)"
  using assms
  by (simp add: GET_BTABLE_ENTRY_def GET_REG_def case_prod_beta held_btable held_entry held_load)

lemma rx_min_le:
  assumes "held (hw s)"
  shows "fst (rx_min b 0 len s) \<le> len"
  using rx_count_stable [OF assms] by (auto simp: rx_min_def case_prod_beta Let_def)

lemma length_read_packet:
  assumes "held (hw s)"
  shows "length (fst (usbd_ep_read_packet b 0 len s)) \<le> unat len"
  using rx_min_le [of "snd (rd32 b (USB_EP_REG 0) s)" len] assms
  by (simp add: usbd_ep_read_packet_def case_prod_beta Let_def word_le_nat_alt held_load)

text \<open>The setup packet fits the request structure: its first stage answers NAK, and reads at most eight bytes.\<close>

lemma held_nak_set:
  fixes s :: "('h, 'm) usb_world_scheme"
  assumes "held (hw s)"
  shows "held (hw (usbd_ep_nak_set b 0 1 s))"
proof -
  define r :: u16 where "r = ucast (fst (ld32 b (USB_EP_REG 0) (hw s)))"
  define v where "v = ((r AND USB_EP_RX_STAT_TOG_MSK) XOR USB_EP_RX_STAT_NAK) OR (USB_EP_RX_CTR OR USB_EP_TX_CTR)"
  have "v AND USB_EP_RX_CTR = USB_EP_RX_CTR" "(r XOR v) AND USB_EP_RX_STAT = USB_EP_RX_STAT_NAK"
    unfolding v_def USB_EP_RX_STAT_TOG_MSK_def USB_EP_NTOGGLE_MSK_def
    by (rule bit_word_eqI, auto simp: bit_simps less_Suc_eq numeral_eq_Suc)+
  then have "held (st32 b (USB_EP_REG 0) (ucast v) (snd (ld32 b (USB_EP_REG 0) (hw s))))"
    using held_nak [OF assms, of v] by (simp add: r_def)
  then show ?thesis
    by (simp add: usbd_ep_nak_set_def USB_SET_EP_RX_STAT_def TOG_SET_REG_BIT_MSK_AND_SET_def UPD_REG_def GET_REG_def SET_REG_def
        case_prod_beta v_def r_def)
qed

lemma setup_packet_fits:
  fixes s :: "('h, 'm) usb_world_scheme"
  assumes "held (hw s)"
  shows "length (fst (usbd_ep_read_packet b 0 8 (usbd_ep_nak_set b 0 1 s))) \<le> length (bytes_of_setup (usb_req s))"
  using length_read_packet [OF held_nak_set [OF assms], of 8] by (simp add: bytes_of_setup_def le16_def)

end

section \<open>The invariant\<close>

definition buf_ok :: "(nat \<Rightarrow> u8) \<Rightarrow> ('h, 'm) usb_world_scheme \<Rightarrow> bool" where
  "buf_ok r s \<longleftrightarrow>
     length (usbd_control_buffer s) = DFU_TRANSFER_SIZE \<and> length (prog_buf s) = DFU_TRANSFER_SIZE \<and>
     length (serial_no s) = 26 \<and> length (memory_layout s) = 64 \<and>
     ram_beyond s = r \<and> length (usb_force_nak s) = 8"

definition out_ok :: "('h, 'm) usb_world_scheme \<Rightarrow> bool" where
  "out_ok s \<longleftrightarrow>
     (case usb_fsm_state s of
        DATA_OUT \<Rightarrow> unat (wLength (usb_req s)) \<le> DFU_TRANSFER_SIZE \<and>
          unat (datasize s) + 64 < unat (wLength (usb_req s))
      | LAST_DATA_OUT \<Rightarrow> unat (wLength (usb_req s)) \<le> DFU_TRANSFER_SIZE \<and>
          unat (datasize s) \<le> unat (wLength (usb_req s)) \<and>
          unat (wLength (usb_req s)) \<le> unat (datasize s) + 64
      | _ \<Rightarrow> True)"

definition usb_inv :: "(nat \<Rightarrow> u8) \<Rightarrow> ('h, 'm) usb_world_scheme \<Rightarrow> bool" where
  "usb_inv r s \<longleftrightarrow> buf_ok r s \<and> out_ok s"

lemma buf_ok_more: "world.more s' = world.more s \<Longrightarrow> buf_ok r s' = buf_ok r s"
  using usb_fields_eq [of s' s] by (simp add: buf_ok_def)

lemma usb_inv_more: "world.more s' = world.more s \<Longrightarrow> usb_inv r s' = usb_inv r s"
  using usb_fields_eq [of s' s]
  by (cases "usb_fsm_state s") (simp_all add: buf_ok_def out_ok_def usb_inv_def)

lemma buf_ok_update [simp]:
  "buf_ok r (s\<lparr>usb_fsm_state := st\<rparr>) = buf_ok r s" "buf_ok r (s\<lparr>datasize := d\<rparr>) = buf_ok r s"
  "buf_ok r (s\<lparr>dataoff := d\<rparr>) = buf_ok r s" "buf_ok r (s\<lparr>usb_pm_top := d\<rparr>) = buf_ok r s"
  "buf_ok r (s\<lparr>usb_needs_zlp := z\<rparr>) = buf_ok r s" "buf_ok r (s\<lparr>usb_req := q\<rparr>) = buf_ok r s"
  "buf_ok r (s\<lparr>usb_complete_cb := cb\<rparr>) = buf_ok r s" "buf_ok r (s\<lparr>hw := h\<rparr>) = buf_ok r s"
  by (simp_all add: buf_ok_def)

lemma usb_inv_pm_top: "usb_inv r (s\<lparr>usb_pm_top := d\<rparr>) = usb_inv r s"
  by (cases "usb_fsm_state s") (simp_all add: usb_inv_def out_ok_def)

lemma buf_ok_store: "buf_ok r s \<Longrightarrow> off + length bs \<le> DFU_TRANSFER_SIZE \<Longrightarrow> buf_ok r (store_ctl off bs s)"
  by (auto simp: buf_ok_def store_ctl_def fun_eq_iff)

lemma store_ctl_fields [simp]:
  "usb_fsm_state (store_ctl off bs s) = usb_fsm_state s" "datasize (store_ctl off bs s) = datasize s"
  "usb_req (store_ctl off bs s) = usb_req s" "dfu_world.more (store_ctl off bs s) = dfu_world.more s"
  by (simp_all add: store_ctl_def)

lemma buf_ok_keeps: "buf_ok r s \<Longrightarrow> dfu_keeps s s' \<Longrightarrow> buf_ok r s'"
  using usb_fields_eq_dfu [of s' s] by (simp add: buf_ok_def dfu_keeps_def)

lemma usb_inv_fsm:
  "buf_ok r s \<Longrightarrow> usb_fsm_state s \<notin> {DATA_OUT, LAST_DATA_OUT} \<Longrightarrow> usb_inv r s"
  by (cases "usb_fsm_state s") (simp_all add: usb_inv_def out_ok_def)


section \<open>The operations keep it\<close>

lemma nak_set_fields [simp]:
  "usb_fsm_state (usbd_ep_nak_set b a n s) = usb_fsm_state s"
  "datasize (usbd_ep_nak_set b a n s) = datasize s" "usb_req (usbd_ep_nak_set b a n s) = usb_req s"
  "dataoff (usbd_ep_nak_set b a n s) = dataoff s"
  by (simp_all add: usbd_ep_nak_set_def Let_def usb_fields_eq [OF more_ep_macros(4)])

lemma buf_ok_nak [simp]: "buf_ok r s \<Longrightarrow> buf_ok r (usbd_ep_nak_set b a n s)"
  by (simp add: usbd_ep_nak_set_def Let_def buf_ok_more [OF more_ep_macros(4)])
    (simp add: buf_ok_def)

lemma stall_transaction_ok [simp]:
  "buf_ok r s \<Longrightarrow> buf_ok r (stall_transaction b s)" "usb_fsm_state (stall_transaction b s) = IDLE"
  "usb_req (stall_transaction b s) = usb_req s"
  by (simp_all add: stall_transaction_def buf_ok_more [OF more_stall_set] usb_fields_eq [OF more_stall_set])

lemma send_chunk_ok:
  "buf_ok r s \<Longrightarrow> buf_ok r (usb_control_send_chunk b s)"
  "usb_fsm_state (usb_control_send_chunk b s) \<in> {DATA_IN, LAST_DATA_IN}"
  by (simp_all add: usb_control_send_chunk_def Let_def case_prod_beta buf_ok_more [OF more_write_packet])

lemma send_chunk_inv [simp]: "buf_ok r s \<Longrightarrow> usb_inv r (usb_control_send_chunk b s)"
  using send_chunk_ok(1) [of r s b] send_chunk_ok(2) [of b s] by (intro usb_inv_fsm) auto

lemma read_packet_fields:
  assumes "usbd_ep_read_packet b a len s = (bs, s1)"
  shows "world.more s1 = world.more s"
  using more_read_packet [of b a len s] assms by simp

lemma recv_chunk_ok:
  assumes ok: "usb_control_recv_chunk b s = (ok, s1)" and st: "rx_held b held" "held (hw s)" and r: "buf_ok r s"
    and dir: "unat (datasize s) \<le> unat (wLength (usb_req s))" "unat (wLength (usb_req s)) \<le> DFU_TRANSFER_SIZE"
  shows "buf_ok r s1" "usb_req s1 = usb_req s"
    "ok \<Longrightarrow> usb_fsm_state s1 = usb_fsm_state s \<and>
      unat (datasize s1) = unat (datasize s) + min 64 (unat (wLength (usb_req s)) - unat (datasize s))"
    "\<not> ok \<Longrightarrow> usb_fsm_state s1 = IDLE"
proof -
  define n where "n = min 64 (unat (wLength (usb_req s)) - unat (datasize s))"
  define pk :: u16 where "pk = word_of_int (min 64 (uint (wLength (usb_req s)) - uint (datasize s)))"
  have "uint (wLength (usb_req s)) - uint (datasize s) = int (unat (wLength (usb_req s)) - unat (datasize s))"
    using dir(1) by (simp add: of_nat_diff)
  then have "pk = word_of_int (int n)"
    by (simp only: pk_def n_def of_nat_min) simp
  then have "pk = of_nat n" by simp
  then have pk: "unat pk = n" by (simp add: unsigned_of_nat take_bit_nat_eq_self n_def)
  obtain bs t where t: "usbd_ep_read_packet b 0 pk s = (bs, t)" by fastforce
  have len: "length bs \<le> n" using rx_held.length_read_packet [OF st, of pk] t pk by simp
  note eq = usb_fields_eq [OF read_packet_fields [OF t]]
  have t_ok: "buf_ok r t" using r buf_ok_more [OF read_packet_fields [OF t]] by blast
  have fits: "unat (datasize s) + length bs \<le> DFU_TRANSFER_SIZE" using len dir by (simp add: n_def) linarith
  have st_ok: "buf_ok r (store_ctl (unat (datasize s)) bs t)" by (rule buf_ok_store [OF t_ok fits])
  have res: "(ok, s1) = (if of_nat (length bs) \<noteq> pk then (False, stall_transaction b (store_ctl (unat (datasize s)) bs t))
     else (True, (store_ctl (unat (datasize s)) bs t)\<lparr>datasize := datasize t + of_nat (length bs)\<rparr>))"
    using ok t by (auto simp: usb_control_recv_chunk_def Let_def pk_def split: if_splits)
  show "buf_ok r s1" using res st_ok by (simp split: if_splits)
  show "usb_req s1 = usb_req s" using res eq by (simp split: if_splits)
  show "\<not> ok \<Longrightarrow> usb_fsm_state s1 = IDLE" using res by (simp split: if_splits)
  assume ok
  then have s1: "s1 = (store_ctl (unat (datasize s)) bs t)\<lparr>datasize := datasize t + of_nat (length bs)\<rparr>"
    and eqp: "of_nat (length bs) = pk"
    using res by (simp_all split: if_splits)
  have "unat (datasize s + pk) = unat (datasize s) + n"
    using dir pk by (simp add: unat_word_ariths n_def)
  then show "usb_fsm_state s1 = usb_fsm_state s \<and>
      unat (datasize s1) = unat (datasize s) + min 64 (unat (wLength (usb_req s)) - unat (datasize s))"
    using s1 eqp eq by (simp add: n_def)
qed

lemma xstrlen_lt: "xstrlen cs = Some n \<Longrightarrow> n < length cs"
  by (induction cs arbitrary: n) (auto split: if_splits)

lemma length_utf16 [simp]: "length (utf16 cs) = 2 * length cs"
  by (induction cs) (simp_all add: utf16_def)

lemma length_c_str [simp]: "length (c_str s) = Suc (length s)"
  by (simp add: c_str_def)

lemma usb_strings_short:
  assumes "buf_ok r s" "x \<in> set (usb_strings s)"
  shows "length x \<le> 64"
  using assms by (auto simp: usb_strings_def buf_ok_def VERSION_def)

lemma get_descriptor_ok:
  assumes "usb_standard_get_descriptor cfg s = Some (c, s')" "buf_ok r s"
  shows "buf_ok r s'"
proof -
  have short: "min (length (usb_strings s ! i)) n \<le> 2047"
    if "xstrlen (usb_strings s ! i) = Some n" "\<not> length (usb_strings s) \<le> i" for i n
    using xstrlen_lt [OF that(1)] usb_strings_short [OF assms(2) nth_mem, of i] that(2) by simp
  show ?thesis
    using assms
    by (auto simp: usb_standard_get_descriptor_def Let_def bind_eq_Some_conv config_desc_def short
        intro!: buf_ok_store split: if_splits)
qed

lemma standard_request_ok:
  assumes "usbd_standard_request cfg b s = Some (c, s')" "buf_ok r s"
  shows "buf_ok r s'"
proof -
  have "buf_ok r s'" if "usbd_standard_request_device cfg b s = Some (c, s')"
    using that assms(2) get_descriptor_ok [of cfg s c s' r]
    by (auto simp: usbd_standard_request_device_def Let_def buf_ok_more [OF more_disable_endpoints]
        simp del: disable_endpoints.simps intro!: buf_ok_store split: if_splits)
  moreover have "buf_ok r s'" if "usbd_standard_request_interface s = Some (c, s')"
    using that assms(2)
    by (auto simp: usbd_standard_request_interface_def Let_def intro!: buf_ok_store split: if_splits)
  moreover have "buf_ok r s'" if "usbd_standard_request_endpoint b s = Some (c, s')"
    using that assms(2)
    by (auto simp: usbd_standard_request_endpoint_def Let_def case_prod_beta
        buf_ok_more [OF more_stall_set] buf_ok_more [OF more_stall_get]
        intro!: buf_ok_store split: if_splits)
  ultimately show ?thesis
    using assms by (auto simp: usbd_standard_request_def Let_def split: if_splits)
qed

lemma dispatch_ok:
  assumes "usb_control_request_dispatch cfg b s = Some (c, s')" "buf_ok r s"
  shows "buf_ok r s'"
proof (cases "class_request (usb_req s)")
  case True
  obtain res len cb s1 where req: "usbdfu_control_request cfg b (usb_req s) (wLength (usb_req s)) s = (res, len, cb, s1)"
    by (metis surj_pair)
  have "dfu_keeps s s1" using keeps_request [OF req] assms(2) by (simp add: buf_ok_def)
  then have s1: "buf_ok r s1" by (rule buf_ok_keeps [OF assms(2)])
  then show ?thesis
    using assms(1) True req standard_request_ok [where r = r and c = c and s' = s']
    by (fastforce simp: usb_control_request_dispatch_def Let_def split: if_splits)
next
  case False
  then show ?thesis
    using assms standard_request_ok by (auto simp: usb_control_request_dispatch_def)
qed

lemma setup_read_ok:
  assumes "usb_control_setup_read cfg b s = Some s'" "buf_ok r s"
  shows "usb_inv r s'"
proof -
  obtain c s1 where s1: "usb_control_request_dispatch cfg b (s\<lparr>dataoff := 0\<rparr>) = Some (c, s1)"
    using assms(1) by (auto simp: usb_control_setup_read_def Let_def bind_eq_Some_conv)
  have "buf_ok r s1" using dispatch_ok [OF s1] assms(2) by simp
  then show ?thesis
    using assms(1) s1
    by (auto simp: usb_control_setup_read_def Let_def case_prod_beta buf_ok_more [OF more_write_packet]
        usb_inv_fsm split: if_splits)
qed

lemma setup_write_ok:
  assumes "buf_ok r s"
  shows "usb_inv r (usb_control_setup_write b s)"
proof (cases "DFU_TRANSFER_SIZE < unat (wLength (usb_req s))")
  case False
  then show ?thesis
    using assms by (auto simp: usb_control_setup_write_def Let_def usb_inv_def out_ok_def word_less_nat_alt)
qed (use assms in \<open>simp add: usb_control_setup_write_def usb_inv_fsm\<close>)

lemma control_setup_ok:
  assumes "usbd_control_setup cfg b s = Some s'" "buf_ok r s"
  shows "usb_inv r s'"
proof -
  let ?s1 = "usbd_ep_nak_set b 0 1 (s\<lparr>usb_complete_cb := None\<rparr>)"
  obtain bs s2 where s2: "usbd_ep_read_packet b 0 8 ?s1 = (bs, s2)" by fastforce
  let ?s3 = "s2\<lparr>usb_req := setup_overwrite bs (usb_req s2)\<rparr>"
  have "buf_ok r s2" using assms(2) by (simp add: buf_ok_more [OF read_packet_fields [OF s2]])
  then have s3: "buf_ok r ?s3" by simp
  have "s' = stall_transaction b ?s3 \<or> usb_control_setup_read cfg b ?s3 = Some s' \<or>
      s' = usb_control_setup_write b ?s3"
    using assms(1) s2 by (auto simp: usbd_control_setup_def Let_def split: if_splits)
  then show ?thesis
    using setup_read_ok [OF _ s3] setup_write_ok [OF s3] s3 by (auto simp: usb_inv_fsm)
qed

lemma run_complete_cb_ok:
  assumes "run_complete_cb cfg b s = Some s'" "buf_ok r s"
  shows "buf_ok r s'" "usb_fsm_state s' = usb_fsm_state s"
proof -
  have "dfu_keeps s s'"
    using assms(1) keeps_complete
    by (auto simp: run_complete_cb_def usb_callback_run_def split: option.splits usb_callback.splits)
  then show "buf_ok r s'" "usb_fsm_state s' = usb_fsm_state s"
    using buf_ok_keeps [OF assms(2)] usb_fields_eq_dfu [of s' s] by (simp_all add: dfu_keeps_def)
qed

lemma control_out_ok:
  assumes "usbd_control_out cfg b s = Some s'" "usb_inv r s" "rx_held b held" "held (hw s)"
  shows "usb_inv r s'"
proof (cases "usb_fsm_state s \<in> {DATA_OUT, LAST_DATA_OUT}")
  case True
  obtain ok s1 where rc: "usb_control_recv_chunk b s = (ok, s1)" by fastforce
  have s: "buf_ok r s" "unat (datasize s) \<le> unat (wLength (usb_req s))"
      "unat (wLength (usb_req s)) \<le> DFU_TRANSFER_SIZE"
    using assms(2) True by (auto simp: usb_inv_def out_ok_def)
  note rcv = recv_chunk_ok [OF rc assms(3, 4) s]
  show ?thesis
  proof (cases "usb_fsm_state s = DATA_OUT")
    case True
    then have big: "unat (datasize s) + 64 < unat (wLength (usb_req s))"
      using assms(2) by (simp add: usb_inv_def out_ok_def)
    have int: "uint (wLength (usb_req s1)) - uint (datasize s1) \<le> 64 \<longleftrightarrow>
        unat (wLength (usb_req s1)) \<le> unat (datasize s1) + 64"
      unfolding uint_nat by linarith
    have s': "s' = (if ok \<and> unat (wLength (usb_req s1)) \<le> unat (datasize s1) + 64
        then s1\<lparr>usb_fsm_state := LAST_DATA_OUT\<rparr> else s1)"
      using assms(1) True rc int by (auto simp: usbd_control_out_def)
    show ?thesis
    proof (cases ok)
      case ok: True
      then have "unat (datasize s1) = unat (datasize s) + 64" "usb_fsm_state s1 = DATA_OUT"
        using rcv(3) big True by auto
      then show ?thesis
        using s' ok rcv(1, 2) s big by (auto simp: usb_inv_def out_ok_def)
    next
      case False
      then show ?thesis using s' rcv by (simp add: usb_inv_fsm)
    qed
  next
    case False
    then have last: "usb_fsm_state s = LAST_DATA_OUT" using True by simp
    have "buf_ok r s' \<and> usb_fsm_state s' \<notin> {DATA_OUT, LAST_DATA_OUT}"
    proof (cases ok)
      case True
      then obtain c s2 where s2: "usb_control_request_dispatch cfg b s1 = Some (c, s2)"
        using assms(1) last rc by (auto simp: usbd_control_out_def bind_eq_Some_conv)
      have "buf_ok r s2" by (rule dispatch_ok [OF s2 rcv(1)])
      then show ?thesis
        using assms(1) last rc True s2
        by (auto simp: usbd_control_out_def Let_def case_prod_beta buf_ok_more [OF more_write_packet]
            split: if_splits)
    next
      case False
      then show ?thesis using assms(1) last rc rcv by (simp add: usbd_control_out_def)
    qed
    then show ?thesis by (simp add: usb_inv_fsm)
  qed
next
  case False
  have r: "buf_ok r s" using assms(2) by (simp add: usb_inv_def)
  show ?thesis
  proof (cases "usb_fsm_state s = STATUS_OUT")
    case True
    obtain bs s1 where s1: "usbd_ep_read_packet b 0 0 s = (bs, s1)" by fastforce
    then obtain s2 where s2: "run_complete_cb cfg b (s1\<lparr>usb_fsm_state := IDLE\<rparr>) = Some s2"
        "s' = s2\<lparr>usb_complete_cb := None\<rparr>"
      using assms(1) True by (auto simp: usbd_control_out_def bind_eq_Some_conv)
    have "buf_ok r (s1\<lparr>usb_fsm_state := IDLE\<rparr>)"
      using r buf_ok_more [OF read_packet_fields [OF s1]] by simp
    from run_complete_cb_ok [OF s2(1) this] show ?thesis using s2(2) by (simp add: usb_inv_fsm)
  next
    case other: False
    then have "s' = stall_transaction b s"
      using assms(1) False by (cases "usb_fsm_state s") (auto simp: usbd_control_out_def)
    then show ?thesis using r by (simp add: usb_inv_fsm)
  qed
qed

lemma control_in_ok:
  assumes "usbd_control_in cfg b s = Some s'" "buf_ok r s"
  shows "usb_inv r s'"
proof (cases "usb_fsm_state s = STATUS_IN")
  case True
  then obtain s1 where s1: "run_complete_cb cfg b s = Some s1"
    using assms(1) by (auto simp: usbd_control_in_def bind_eq_Some_conv)
  then show ?thesis
    using assms True run_complete_cb_ok [OF s1 assms(2)]
    by (auto simp: usbd_control_in_def Let_def buf_ok_more [OF more_SET_REG] intro!: usb_inv_fsm)
next
  case False
  then show ?thesis
    using assms by (cases "usb_fsm_state s") (auto simp: usbd_control_in_def usb_inv_fsm)
qed

lemmas usb_inv_hw = more_ep_macros [THEN usb_inv_more] more_btable(2) [THEN usb_inv_more]
  more_rx_bufsize [THEN usb_inv_more] more_SET_REG [THEN usb_inv_more] more_clr_istr_if [THEN usb_inv_more]
  more_ops(6) [THEN usb_inv_more] more_GET_REG [THEN usb_inv_more] more_ops(5) [THEN usb_inv_more]

lemma reset_event_ok:
  assumes "usb_inv r s"
  shows "usb_inv r (usb_reset_event b s)"
proof -
  have ep0: "usb_inv r (usbd_ep_setup b a ty sz s)" if "usb_inv r s" for a ty sz s
    using that
    by (simp add: usbd_ep_setup_def Let_def usb_inv_hw usb_inv_pm_top)
  show ?thesis
    using assms by (simp add: usb_reset_event_def Let_def ep0 usb_inv_hw usb_inv_pm_top)
qed

lemma ctr_event_ok:
  assumes "usb_ctr_event cfg b istr s = Some s'" "usb_inv r s" "rx_held b held"
    and "istr AND USB_ISTR_DIR \<noteq> 0 \<Longrightarrow> held (hw s)"
  shows "usb_inv r s'"
proof (cases "istr AND USB_ISTR_DIR = 0")
  case True
  let ?ep = "ucast (istr AND USB_ISTR_EP_ID) :: u8"
  have "buf_ok r (USB_CLR_EP_TX_CTR b ?ep s)"
    using assms(2) usb_inv_hw(9) [of r b ?ep s] by (simp add: usb_inv_def)
  from control_in_ok [OF _ this] True assms(1) show ?thesis by (simp add: usb_ctr_event_def Let_def)
next
  case False
  obtain v t where t: "rd32 b (USB_EP_REG (ucast (istr AND USB_ISTR_EP_ID))) s = (v, t)" by fastforce
  have inv: "usb_inv r t" using usb_inv_more [OF more_rd(3) [OF t], of r] assms(2) by simp
  then have "buf_ok r t" by (simp add: usb_inv_def)
  have "t = snd (rd32 b (USB_EP_REG (ucast (istr AND USB_ISTR_EP_ID))) s)" using t by simp
  then have held: "held (hw t)" using rx_held.held_load(3) [OF assms(3) assms(4) [OF False]] by simp
  from assms(1) False t have "usbd_control_setup cfg b t = Some s' \<or> usbd_control_out cfg b t = Some s'"
    by (simp add: usb_ctr_event_def split: if_splits)
  then show ?thesis
    using control_setup_ok [OF _ \<open>buf_ok r t\<close>] control_out_ok [OF _ inv assms(3) held] by blast
qed

lemma poll_ok:
  assumes "do_usb_poll cfg b s = Some s'" "usb_inv r s" "rx_held b held"
  shows "usb_inv r s'"
proof -
  obtain istr s1 where g: "GET_REG b USB_ISTR_REG s = (istr, s1)" by fastforce
  have i1: "usb_inv r s1" using usb_inv_more [OF more_GET_REG, of r b USB_ISTR_REG s] assms(2) g by simp
  show ?thesis
  proof (cases "istr AND USB_ISTR_RESET = 0")
    case False
    then have "s' = usb_reset_event b s1" using assms(1) g by (simp add: do_usb_poll_def)
    then show ?thesis using reset_event_ok [OF i1] by simp
  next
    case True
    obtain s2 where s2: "(if istr AND USB_ISTR_CTR \<noteq> 0 then usb_ctr_event cfg b istr s1 else Some s1) = Some s2"
      and s': "s' = mod32 b USB_CNTR_REG (\<lambda>v. v AND NOT USB_CNTR_SOFM) (clr_istr_if b istr USB_ISTR_SOF
        (clr_istr_if b istr USB_ISTR_WKUP (clr_istr_if b istr USB_ISTR_SUSP s2)))"
      using assms(1) g True by (auto simp: do_usb_poll_def Let_def bind_eq_Some_conv)
    have "held (hw s1)" if "istr AND USB_ISTR_CTR \<noteq> 0" "istr AND USB_ISTR_DIR \<noteq> 0"
      using rx_held.held_event [OF assms(3), of "hw s"] that g by (auto simp: GET_REG_def rd32_def split: prod.splits)
    then have "usb_inv r s2" using s2 i1 ctr_event_ok [OF _ i1 assms(3)] by (auto split: if_splits)
    moreover have "world.more s' = world.more s2" by (simp add: s')
    ultimately show ?thesis using usb_inv_more by blast
  qed
qed

section \<open>Properties\<close>

text \<open>The polls of the main loop. Between two polls, and at every load, the hardware does what it
  likes.\<close>

inductive polled :: "build \<Rightarrow> 'h bus \<Rightarrow> ('h, 'm) usb_world_scheme \<Rightarrow> ('h, 'm) usb_world_scheme \<Rightarrow> bool"
  for cfg b s0 where
  polled_start: "polled cfg b s0 s0"
| polled_step: "polled cfg b s0 s \<Longrightarrow> do_usb_poll cfg b (s\<lparr>hw := h\<rparr>) = Some s' \<Longrightarrow> polled cfg b s0 s'"

inductive_cases polled_stepE: "polled cfg b s0 s"

lemma polled_inv:
  assumes "polled cfg b s0 s" "usb_inv r s0" "rx_held b held"
  shows "usb_inv r s"
  using assms
proof (induction rule: polled.induct)
  case (polled_step s h s')
  have "usb_inv r (s\<lparr>hw := h\<rparr>)"
    using usb_inv_more [of "s\<lparr>hw := h\<rparr>" s r] polled_step.IH [OF polled_step.prems] by simp
  then show ?case using polled_step.hyps polled_step.prems poll_ok by blast
qed simp

definition zeros :: "nat \<Rightarrow> u8 list" where
  "zeros n = replicate n 0"

lemma zeros_simps [simp]: "length (zeros n) = n" "i < n \<Longrightarrow> zeros n ! i = 0"
  by (simp_all add: zeros_def)

text \<open>The variables as the startup code leaves them.\<close>

definition usb_boot :: "'h \<Rightarrow> (nat \<Rightarrow> u8) \<Rightarrow> 'h usb_world" where
  "usb_boot h ram =
     \<lparr>hw = h, cpu_mcu = LN_MCU_ARM_F3, cpu_vendor = LN_VENDOR_STM, cpu_cpuId = 0, cpu_flashSize = 64,
      cpu_ramSize = 0, SystemCoreClock = 0, cached_size = 0, safe_erased = False,
      usbd_control_buffer = zeros 4096, ram_beyond = ram, prog_buf = zeros 4096,
      prog_len = 0, prog_addr = 0, prog_blocknum = 0, usbdfu_state = STATE_DFU_IDLE, gd32 = False,
      sysTick = 0, nextTick = 0, serial_no = zeros 26, memory_layout = zeros 64,
      usb_fsm_state = IDLE, datasize = 0, dataoff = 0, usb_pm_top = 0, usb_needs_zlp = 0,
      usb_req = \<lparr>bmRequestType = 0, bRequest = 0, wValue = 0, wIndex = 0, wLength = 0\<rparr>,
      usb_force_nak = zeros 8, usb_complete_cb = None\<rparr>"

lemma usb_inv_boot: "usb_inv ram (usb_boot h ram)"
  by (simp add: usb_boot_def usb_inv_def buf_ok_def out_ok_def)


interpretation plain: rx_held reg_bus "\<lambda>_. True"
  by unfold_locales (simp_all add: reg_bus_def)


end
