(* ===== verification/UsbPeriph.thy ===== *)
theory UsbPeriph
  imports UsbSafe
begin

text \<open>
  The USB peripheral as a locale (reference manual RM0008): the endpoint registers with their
  toggle bits, the packet memory and the buffer table address. What the register macros, the
  packet memory copies and the two packet routines of \<open>usb.cpp\<close> do on such a peripheral;
  \<open>usb_bus\<close> is one that obeys the laws.
\<close>

section \<open>Writing an endpoint register\<close>

text \<open>Bits 14..12 and 6..4 toggle, bits 15 and 7 are cleared by zero, bit 11 is read only, the
  others are stored.\<close>

definition epr_write :: "u16 \<Rightarrow> u16 \<Rightarrow> u16" where
  "epr_write r v =
     ((r XOR v) AND 0x7070) OR (r AND v AND 0x8080) OR (v AND 0x070F) OR (r AND 0x0800)"

lemma word16_eqI:
  fixes a b :: u16
  assumes "\<forall>n\<in>{0,1,2,3,4,5,6,7,8,9,10,11,12,13,14,15}. bit a n = bit b n"
  shows "a = b"
proof (rule bit_word_eqI)
  fix n :: nat assume "n < LENGTH(16)"
  then have "n < 16" by simp
  then have "n \<in> {0,1,2,3,4,5,6,7,8,9,10,11,12,13,14,15}" unfolding insert_iff empty_iff by presburger
  with assms show "bit a n = bit b n" by blast
qed

lemmas epr_defs = epr_write_def USB_EP_TX_STAT_TOG_MSK_def USB_EP_RX_STAT_TOG_MSK_def USB_EP_NTOGGLE_MSK_def

lemma epr_tx:
  assumes "st \<in> {0, 0x10, 0x20, 0x30}"
  shows "epr_write r (((r AND USB_EP_TX_STAT_TOG_MSK) XOR st) OR (USB_EP_RX_CTR OR USB_EP_TX_CTR)) =
    (r AND NOT USB_EP_TX_STAT) OR st"
  using assms unfolding epr_defs
  by (intro word16_eqI) (auto simp: bit_simps)

lemma epr_rx:
  assumes "st \<in> {0, 0x1000, 0x2000, 0x3000}"
  shows "epr_write r (((r AND USB_EP_RX_STAT_TOG_MSK) XOR st) OR (USB_EP_RX_CTR OR USB_EP_TX_CTR)) =
    (r AND NOT USB_EP_RX_STAT) OR st"
  using assms unfolding epr_defs
  by (intro word16_eqI) (auto simp: bit_simps)

lemma epr_clr:
  "epr_write r ((r AND USB_EP_NTOGGLE_MSK AND NOT USB_EP_RX_CTR) OR USB_EP_TX_CTR) = r AND NOT USB_EP_RX_CTR"
  "epr_write r ((r AND USB_EP_NTOGGLE_MSK AND NOT USB_EP_TX_CTR) OR USB_EP_RX_CTR) = r AND NOT USB_EP_TX_CTR"
  "epr_write r (r AND (USB_EP_NTOGGLE_MSK OR USB_EP_TX_DTOG)) = r AND NOT USB_EP_TX_DTOG"
  "epr_write r (r AND (USB_EP_NTOGGLE_MSK OR USB_EP_RX_DTOG)) = r AND NOT USB_EP_RX_DTOG"
  unfolding epr_defs
  by (rule word16_eqI, auto simp: bit_simps)+

lemma epr_set:
  "epr_write r ((r AND (USB_EP_NTOGGLE_MSK AND NOT USB_EP_TYPE)) OR USB_EP_TYPE_CONTROL) =
    (r AND NOT USB_EP_TYPE) OR USB_EP_TYPE_CONTROL"
  "epr_write r ((r AND (USB_EP_NTOGGLE_MSK AND NOT USB_EP_ADDR)) OR 0) = r AND NOT USB_EP_ADDR"
  unfolding epr_defs
  by (rule word16_eqI, auto simp: bit_simps)+

section \<open>The peripheral\<close>

record usb_dev =
  ep_reg :: "u8 \<Rightarrow> u16"
  pma :: "nat \<Rightarrow> u16"
  d_btable :: u16

text \<open>Packet memory: 256 half words, each in the low half of a 32-bit word.\<close>

definition pma_addr :: "nat \<Rightarrow> u32" where
  "pma_addr k = USB_PMA_BASE + 4 * of_nat k"

locale usb_periph =
  fixes b :: "'h bus" and dev :: "'h \<Rightarrow> usb_dev"
  assumes ep_value: "ep < 8 \<Longrightarrow> ucast (fst (ld32 b (USB_EP_REG ep) h)) = ep_reg (dev h) ep"
    and ep_load: "ep < 8 \<Longrightarrow> dev (snd (ld32 b (USB_EP_REG ep) h)) = dev h"
    and ep_store: "ep < 8 \<Longrightarrow> dev (st32 b (USB_EP_REG ep) (ucast (v :: u16)) h) =
      (dev h)\<lparr>ep_reg := (ep_reg (dev h))(ep := epr_write (ep_reg (dev h) ep) v)\<rparr>"
    and btable_value: "ucast (fst (ld32 b USB_BTABLE_REG h)) = d_btable (dev h)"
    and btable_load: "dev (snd (ld32 b USB_BTABLE_REG h)) = dev h"
    and pma_value: "k < 256 \<Longrightarrow> ucast (fst (ld32 b (pma_addr k) h)) = pma (dev h) k"
    and pma_load: "k < 256 \<Longrightarrow> dev (snd (ld32 b (pma_addr k) h)) = dev h"
    and pma_store: "k < 256 \<Longrightarrow> dev (st32 b (pma_addr k) (ucast (w :: u16)) h) =
      (dev h)\<lparr>pma := (pma (dev h))(k := w)\<rparr>"
    and pma_value16: "k < 256 \<Longrightarrow> fst (ld16 b (pma_addr k) h) = pma (dev h) k"
    and pma_load16: "k < 256 \<Longrightarrow> dev (snd (ld16 b (pma_addr k) h)) = dev h"
    and pma_value8: "k < 256 \<Longrightarrow> fst (ld8 b (pma_addr k) h) = lo8 (pma (dev h) k)"
    and pma_load8: "k < 256 \<Longrightarrow> dev (snd (ld8 b (pma_addr k) h)) = dev h"

section \<open>One hardware that satisfies the laws\<close>

definition pma_index :: "u32 \<Rightarrow> nat option" where
  "pma_index a = (if unat (a - USB_PMA_BASE) < 1024 then Some (unat (a - USB_PMA_BASE) div 4) else None)"

definition ep_index :: "u32 \<Rightarrow> u8 option" where
  "ep_index a = (if unat (a - USB_DEV_FS_BASE) < 32 then Some (of_nat (unat (a - USB_DEV_FS_BASE) div 4)) else None)"

definition usb_ld32 :: "u32 \<Rightarrow> usb_dev \<Rightarrow> u32 \<times> usb_dev" where
  "usb_ld32 a d =
     (case pma_index a of
        Some k \<Rightarrow> (ucast (pma d k), d)
      | None \<Rightarrow>
          (case ep_index a of
             Some ep \<Rightarrow> (ucast (ep_reg d ep), d)
           | None \<Rightarrow> (if a = USB_BTABLE_REG then ucast (d_btable d) else 0, d)))"

definition usb_st32 :: "u32 \<Rightarrow> u32 \<Rightarrow> usb_dev \<Rightarrow> usb_dev" where
  "usb_st32 a v d =
     (case pma_index a of
        Some k \<Rightarrow> d\<lparr>pma := (pma d)(k := ucast v)\<rparr>
      | None \<Rightarrow>
          (case ep_index a of
             Some ep \<Rightarrow> d\<lparr>ep_reg := (ep_reg d)(ep := epr_write (ep_reg d ep) (ucast v))\<rparr>
           | None \<Rightarrow> (if a = USB_BTABLE_REG then d\<lparr>d_btable := ucast v AND 0xFFF8\<rparr> else d)))"

definition usb_bus :: "usb_dev bus" where
  "usb_bus =
     \<lparr>ld8 = (\<lambda>a d. (case pma_index a of Some k \<Rightarrow> lo8 (pma d k) | None \<Rightarrow> 0, d)),
      ld16 = (\<lambda>a d. (case pma_index a of Some k \<Rightarrow> pma d k | None \<Rightarrow> 0, d)),
      ld32 = usb_ld32, st8 = (\<lambda>a x d. d), st16 = (\<lambda>a v d. d), st32 = usb_st32\<rparr>"

lemma pma_index_addr [simp]: "k < 256 \<Longrightarrow> pma_index (pma_addr k) = Some k"
proof -
  assume "k < 256"
  then have "unat (4 * of_nat k :: u32) = 4 * k"
    by (simp add: unat_word_ariths unsigned_of_nat take_bit_nat_eq_self)
  then show ?thesis using \<open>k < 256\<close> by (simp add: pma_index_def pma_addr_def)
qed

lemma unat_ep: "ep < 8 \<Longrightarrow> unat (4 * ucast (ep :: u8) :: u32) = 4 * unat ep"
  by (simp add: unat_word_ariths word_less_nat_alt unsigned_ucast_eq take_bit_nat_eq_self)

lemma ep_index_reg [simp]: "ep < 8 \<Longrightarrow> ep_index (USB_EP_REG ep) = Some ep"
  by (simp add: ep_index_def USB_EP_REG_def unat_ep word_less_nat_alt)

lemma pma_index_ep [simp]: "ep < 8 \<Longrightarrow> pma_index (USB_EP_REG ep) = None"
proof -
  assume ep: "ep < 8"
  have "USB_EP_REG ep - USB_PMA_BASE = 4 * ucast ep + 0xFFFFFC00" by (simp add: USB_EP_REG_def)
  then have "unat (USB_EP_REG ep - USB_PMA_BASE) = 4 * unat ep + 0xFFFFFC00"
    using unat_ep [OF ep] ep by (simp add: unat_word_ariths word_less_nat_alt)
  then show ?thesis by (simp add: pma_index_def)
qed

lemma btable_index [simp]: "pma_index USB_BTABLE_REG = None" "ep_index USB_BTABLE_REG = None"
  by (simp_all add: pma_index_def ep_index_def)

interpretation usb: usb_periph usb_bus "\<lambda>d. d"
  by unfold_locales (auto simp: usb_bus_def usb_ld32_def usb_st32_def)


section \<open>Register macros and packet memory on such a peripheral\<close>

text \<open>\<open>len\<close> bytes of packet memory from half word \<open>p\<close> on.\<close>

definition pma_bytes :: "usb_dev \<Rightarrow> nat \<Rightarrow> nat \<Rightarrow> u8 list" where
  "pma_bytes d p len = map (\<lambda>i. if even i then lo8 (pma d (p + i div 2)) else hi8 (pma d (p + i div 2))) [0..<len]"

definition pma_filled :: "usb_dev \<Rightarrow> nat \<Rightarrow> nat \<Rightarrow> nat \<Rightarrow> (nat \<Rightarrow> u8) \<Rightarrow> nat \<Rightarrow> u16" where
  "pma_filled d p i n src k =
     (if p + i \<le> k \<and> k < p + i + n then mk16 (src (2 * (k - p))) (src (2 * (k - p) + 1)) else pma d k)"

lemma pma_addr_add: "pma_addr p + 4 * of_nat i = pma_addr (p + i)"
  by (simp add: pma_addr_def algebra_simps)

lemma btable_entry_0:
  assumes "ep < 8" "off < 8" "even (unat off)"
  shows "btable_entry ep off 0 = pma_addr (4 * unat ep + unat off div 2)"
proof -
  have "unat off = 2 * (unat off div 2)" using assms(3) by simp
  then have off: "off = 2 * of_nat (unat off div 2)" by (metis of_nat_mult of_nat_numeral of_nat_unat ucast_id)
  have "ucast ep = (of_nat (unat ep) :: u32)" by simp
  then show ?thesis by (subst off) (simp add: btable_entry_def pma_addr_def algebra_simps)
qed

lemma pma_bytes_words: "pma_bytes d p (2 * n) = concat (map (\<lambda>k. le16 (pma d (p + k))) [0..<n])"
  by (induction n) (simp_all add: pma_bytes_def le16_def)

lemma pma_bytes_even: "even len \<Longrightarrow> pma_bytes d p len = concat (map (\<lambda>k. le16 (pma d (p + k))) [0..<len div 2])"
  using pma_bytes_words [of d p "len div 2"] by simp

lemma pma_bytes_odd:
  "odd len \<Longrightarrow> pma_bytes d p len =
    concat (map (\<lambda>k. le16 (pma d (p + k))) [0..<len div 2]) @ [lo8 (pma d (p + len div 2))]"
  using pma_bytes_words [of d p "len div 2"] by (auto simp: pma_bytes_def elim!: oddE)

lemma pma_bytes_filled:
  assumes "(len + 1) div 2 \<le> n"
  shows "pma_bytes (d\<lparr>pma := pma_filled d p 0 n src\<rparr>) p len = map src [0..<len]"
proof -
  have half: "i div 2 < n" if "i < len" for i using that assms by linarith
  have "lo8 (pma_filled d p 0 n src (p + i div 2)) = src i" if "i < len" "even i" for i
    using half [OF that(1)] that(2) by (auto simp: pma_filled_def elim!: evenE)
  moreover have "hi8 (pma_filled d p 0 n src (p + i div 2)) = src i" if "i < len" "odd i" for i
    using half [OF that(1)] that(2) by (auto simp: pma_filled_def elim!: oddE)
  ultimately show ?thesis by (auto simp: pma_bytes_def)
qed

context usb_periph begin

lemma dev_GET_ep [simp]:
  "ep < 8 \<Longrightarrow> fst (GET_REG b (USB_EP_REG ep) s) = ep_reg (dev (hw s)) ep"
  "ep < 8 \<Longrightarrow> dev (hw (snd (GET_REG b (USB_EP_REG ep) s))) = dev (hw s)"
  by (simp_all add: GET_REG_def case_prod_beta ep_value ep_load)

lemma dev_SET_ep [simp]:
  "ep < 8 \<Longrightarrow> dev (hw (SET_REG b (USB_EP_REG ep) v s)) =
    (dev (hw s))\<lparr>ep_reg := (ep_reg (dev (hw s)))(ep := epr_write (ep_reg (dev (hw s)) ep) v)\<rparr>"
  by (simp add: SET_REG_def ep_store)

lemma dev_UPD_ep [simp]:
  "ep < 8 \<Longrightarrow> dev (hw (UPD_REG b (USB_EP_REG ep) f s)) =
    (dev (hw s))\<lparr>ep_reg := (ep_reg (dev (hw s)))(ep := epr_write (ep_reg (dev (hw s)) ep) (f (ep_reg (dev (hw s)) ep)))\<rparr>"
  by (simp add: UPD_REG_def case_prod_beta)

lemma dev_ep_macros:
  assumes "ep < 8"
  shows "st \<in> {0, 0x10, 0x20, 0x30} \<Longrightarrow> dev (hw (USB_SET_EP_TX_STAT b ep st s)) =
      (dev (hw s))\<lparr>ep_reg := (ep_reg (dev (hw s)))(ep := (ep_reg (dev (hw s)) ep AND NOT USB_EP_TX_STAT) OR st)\<rparr>"
    and "st \<in> {0, 0x1000, 0x2000, 0x3000} \<Longrightarrow> dev (hw (USB_SET_EP_RX_STAT b ep st s)) =
      (dev (hw s))\<lparr>ep_reg := (ep_reg (dev (hw s)))(ep := (ep_reg (dev (hw s)) ep AND NOT USB_EP_RX_STAT) OR st)\<rparr>"
    and "dev (hw (USB_CLR_EP_RX_CTR b ep s)) =
      (dev (hw s))\<lparr>ep_reg := (ep_reg (dev (hw s)))(ep := ep_reg (dev (hw s)) ep AND NOT USB_EP_RX_CTR)\<rparr>"
    and "dev (hw (USB_CLR_EP_TX_CTR b ep s)) =
      (dev (hw s))\<lparr>ep_reg := (ep_reg (dev (hw s)))(ep := ep_reg (dev (hw s)) ep AND NOT USB_EP_TX_CTR)\<rparr>"
    and "dev (hw (USB_CLR_EP_TX_DTOG b ep s)) =
      (dev (hw s))\<lparr>ep_reg := (ep_reg (dev (hw s)))(ep := ep_reg (dev (hw s)) ep AND NOT USB_EP_TX_DTOG)\<rparr>"
    and "dev (hw (USB_CLR_EP_RX_DTOG b ep s)) =
      (dev (hw s))\<lparr>ep_reg := (ep_reg (dev (hw s)))(ep := ep_reg (dev (hw s)) ep AND NOT USB_EP_RX_DTOG)\<rparr>"
  using assms epr_tx [of st] epr_rx [of st] epr_clr
  by (simp_all only: USB_SET_EP_TX_STAT_def USB_SET_EP_RX_STAT_def USB_CLR_EP_RX_CTR_def USB_CLR_EP_TX_CTR_def
      USB_CLR_EP_TX_DTOG_def USB_CLR_EP_RX_DTOG_def USB_CLR_EP_NTOGGLE_BIT_AND_SET_def
      CLR_REG_BIT_MSK_AND_SET_def TOG_SET_REG_BIT_MSK_AND_SET_def dev_UPD_ep)

lemma dev_btable:
  assumes "ep < 8" "off < 8" "even (unat off)" "d_btable (dev (hw s)) = 0"
  shows "fst (GET_BTABLE_ENTRY b ep off s) = pma (dev (hw s)) (4 * unat ep + unat off div 2)"
    and "dev (hw (snd (GET_BTABLE_ENTRY b ep off s))) = dev (hw s)"
    and "dev (hw (SET_BTABLE_ENTRY b ep off v s)) =
      (dev (hw s))\<lparr>pma := (pma (dev (hw s)))(4 * unat ep + unat off div 2 := v)\<rparr>"
proof -
  have k: "4 * unat ep + unat off div 2 < 256"
    using assms(1, 2) by (simp add: word_less_nat_alt)
  have bt: "fst (GET_REG b USB_BTABLE_REG s) = 0" "dev (hw (snd (GET_REG b USB_BTABLE_REG s))) = dev (hw s)"
    using btable_value [of "hw s"] btable_load [of "hw s"] assms(4)
    by (simp_all add: GET_REG_def case_prod_beta)
  show "fst (GET_BTABLE_ENTRY b ep off s) = pma (dev (hw s)) (4 * unat ep + unat off div 2)"
    "dev (hw (snd (GET_BTABLE_ENTRY b ep off s))) = dev (hw s)"
    using pma_value [OF k] pma_load [OF k]
    by (simp_all add: GET_BTABLE_ENTRY_def case_prod_beta bt btable_entry_0 [OF assms(1-3)])
      (simp_all add: GET_REG_def case_prod_beta bt btable_load)
  show "dev (hw (SET_BTABLE_ENTRY b ep off v s)) =
      (dev (hw s))\<lparr>pma := (pma (dev (hw s)))(4 * unat ep + unat off div 2 := v)\<rparr>"
    using pma_store [OF k]
    by (simp add: SET_BTABLE_ENTRY_def case_prod_beta bt btable_entry_0 [OF assms(1-3)] SET_REG_def)
qed

lemma dev_copy_words_to_pm:
  assumes "p + i + n \<le> 256"
  shows "dev (hw (copy_words_to_pm b (pma_addr p) src i n s)) = (dev (hw s))\<lparr>pma := pma_filled (dev (hw s)) p i n src\<rparr>"
  using assms
proof (induction n arbitrary: i s)
  case 0
  have "pma_filled (dev (hw s)) p i 0 src = pma (dev (hw s))"
    by (auto simp: pma_filled_def fun_eq_iff)
  then show ?case by simp
next
  case (Suc n)
  let ?w = "mk16 (src (2 * i)) (src (2 * i + 1))"
  let ?s = "wr32 b (pma_addr (p + i)) (ucast ?w) s"
  have "pma_filled ((dev (hw s))\<lparr>pma := (pma (dev (hw s)))(p + i := ?w)\<rparr>) p (Suc i) n src =
      pma_filled (dev (hw s)) p i (Suc n) src"
    by (auto simp: pma_filled_def fun_eq_iff)
  then show ?case
    using Suc.IH [of "Suc i" ?s] Suc.prems by (simp add: pma_store pma_addr_add)
qed

lemma dev_copy_words_from_pm:
  assumes "p + i + n \<le> 256"
  shows "fst (copy_words_from_pm b (pma_addr p) i n s) =
      concat (map (\<lambda>k. le16 (pma (dev (hw s)) (p + k))) [i..<i + n])"
    "dev (hw (snd (copy_words_from_pm b (pma_addr p) i n s))) = dev (hw s)"
  using assms
proof (induction n arbitrary: i s)
  case (Suc n)
  have up: "[i..<Suc (i + n)] = i # [Suc i..<Suc (i + n)]" for i
    by (simp add: upt_conv_Cons)
  {
    case 1
    then show ?case using Suc.IH(1) [of "Suc i" "snd (rd16 b (pma_addr (p + i)) s)"]
      by (simp add: case_prod_beta pma_addr_add pma_value16 pma_load16 le16_def up del: upt_Suc)
  next
    case 2
    then show ?case using Suc.IH(2) [of "Suc i" "snd (rd16 b (pma_addr (p + i)) s)"]
      by (simp add: case_prod_beta pma_addr_add pma_value16 pma_load16)
  }
qed simp_all

lemma dev_copy_to_pm:
  assumes "p + (len + 1) div 2 \<le> 256"
  shows "dev (hw (st_usbfs_copy_to_pm b (pma_addr p) src len s)) =
    (dev (hw s))\<lparr>pma := pma_filled (dev (hw s)) p 0 ((len + 1) div 2) src\<rparr>"
  using dev_copy_words_to_pm [of p 0 "(len + 1) div 2" src s] assms by (simp add: st_usbfs_copy_to_pm_def)

lemma dev_copy_from_pm:
  assumes "p + (len + 1) div 2 \<le> 256"
  shows "fst (st_usbfs_copy_from_pm b (pma_addr p) len s) = pma_bytes (dev (hw s)) p len"
    "dev (hw (snd (st_usbfs_copy_from_pm b (pma_addr p) len s))) = dev (hw s)"
proof -
  note words = dev_copy_words_from_pm [of p 0 "len div 2" s]
  have le: "p + 0 + len div 2 \<le> 256" using assms by simp
  have lt: "odd len \<Longrightarrow> p + len div 2 < 256" using assms by (auto elim!: oddE)
  show "fst (st_usbfs_copy_from_pm b (pma_addr p) len s) = pma_bytes (dev (hw s)) p len"
    using words [OF le] lt pma_value8 [of "p + len div 2"]
    by (auto simp: st_usbfs_copy_from_pm_def case_prod_beta pma_addr_add pma_bytes_even pma_bytes_odd)
  show "dev (hw (snd (st_usbfs_copy_from_pm b (pma_addr p) len s))) = dev (hw s)"
    using words [OF le] lt pma_load8 [of "p + len div 2"]
    by (auto simp: st_usbfs_copy_from_pm_def case_prod_beta pma_addr_add)
qed

lemma dev_copy_round_trip:
  assumes "p + (len + 1) div 2 \<le> 256"
  shows "fst (st_usbfs_copy_from_pm b (pma_addr p) len (st_usbfs_copy_to_pm b (pma_addr p) src len s)) = map src [0..<len]"
  by (simp add: dev_copy_from_pm [OF assms] dev_copy_to_pm [OF assms] pma_bytes_filled)

end

section \<open>Packets of endpoint 0\<close>

lemma and_ucast16: "(v :: u32) AND ucast (m :: u16) = ucast (ucast v AND m)"
  by (rule bit_word_eqI) (auto simp: bit_simps dest: bit_imp_le_length)

lemma ucast16_inject [simp]: "(ucast (a :: u16) :: u32) = ucast c \<longleftrightarrow> a = c"
  by (metis ucast_ucast_16)

text \<open>The state of endpoint 0 in which packets can be sent: the descriptor table is at the start of
  packet memory and the transmit buffer lies behind it and has room for a full packet.\<close>

definition tx_ready :: "usb_dev \<Rightarrow> bool" where
  "tx_ready d \<longleftrightarrow> d_btable d = 0 \<and> even (unat (pma d 0)) \<and> 8 \<le> unat (pma d 0) \<and> unat (pma d 0) \<le> 448 \<and>
     ep_reg d 0 AND USB_EP_TX_STAT \<noteq> USB_EP_TX_STAT_VALID"

text \<open>The packet that the host gets when it asks endpoint 0 for one.\<close>

definition tx_packet :: "usb_dev \<Rightarrow> u8 list" where
  "tx_packet d = pma_bytes d (unat (pma d 0) div 2) (unat (pma d 1))"

definition tx_valid :: "usb_dev \<Rightarrow> bool" where
  "tx_valid d \<longleftrightarrow> ep_reg d 0 AND USB_EP_TX_STAT = USB_EP_TX_STAT_VALID"

lemma valid_bits: "((r AND NOT USB_EP_TX_STAT) OR USB_EP_TX_STAT_VALID) AND USB_EP_TX_STAT = USB_EP_TX_STAT_VALID" for r :: u16
  by (rule word16_eqI) (auto simp: bit_simps)

context usb_periph begin

lemma write_packet_dev:
  assumes rdy: "tx_ready (dev (hw s))" and len: "unat len \<le> 64"
  obtains s' where "usbd_ep_write_packet b 0 src len s = (len, s')" "world.more s' = world.more s"
    "tx_packet (dev (hw s')) = map src [0..<unat len]" "tx_valid (dev (hw s'))"
    "pma (dev (hw s')) 0 = pma (dev (hw s)) 0" "d_btable (dev (hw s')) = 0" "pma (dev (hw s')) 2 = pma (dev (hw s)) 2"
    "ep_reg (dev (hw s')) 0 = (ep_reg (dev (hw s)) 0 AND NOT USB_EP_TX_STAT) OR USB_EP_TX_STAT_VALID"
proof -
  let ?D = "dev (hw s)"
  define p where "p = unat (pma ?D 0) div 2"
  define s1 where "s1 = snd (rd32 b (USB_EP_REG 0) s)"
  have d1: "dev (hw s1) = ?D" by (simp add: s1_def ep_load)
  define s2 where "s2 = snd (USB_GET_EP_TX_BUFF b 0 s1)"
  have bt: "d_btable ?D = 0" using rdy by (simp add: tx_ready_def)
  have d2: "dev (hw s2) = ?D" and pm: "fst (USB_GET_EP_TX_BUFF b 0 s1) = pma_addr p"
  proof -
    show "dev (hw s2) = ?D"
      using dev_btable [of 0 0 s1] bt by (simp add: s2_def USB_GET_EP_TX_BUFF_def case_prod_beta d1)
    have "(of_nat (unat (pma ?D 0)) :: u32) = of_nat (2 * p)" using rdy by (simp add: p_def tx_ready_def)
    then have "(ucast (pma ?D 0) :: u32) * 2 = 4 * of_nat p" by simp
    then show "fst (USB_GET_EP_TX_BUFF b 0 s1) = pma_addr p"
      using dev_btable [of 0 0 s1] bt by (simp add: USB_GET_EP_TX_BUFF_def case_prod_beta d1 pma_addr_def)
  qed
  define n where "n = (unat len + 1) div 2"
  have fits: "p + (unat len + 1) div 2 \<le> 256" using rdy len unfolding p_def tx_ready_def
    by (elim conjE) linarith
  define s3 where "s3 = st_usbfs_copy_to_pm b (pma_addr p) src (unat len) s2"
  have d3: "dev (hw s3) = ?D\<lparr>pma := pma_filled ?D p 0 n src\<rparr>"
    by (simp only: s3_def dev_copy_to_pm [OF fits] d2 n_def)
  define s4 where "s4 = USB_SET_EP_TX_COUNT b 0 len s3"
  have d4: "dev (hw s4) = ?D\<lparr>pma := (pma_filled ?D p 0 n src)(1 := len)\<rparr>"
    using dev_btable(3) [where ep = 0 and off = 2 and s = s3 and v = len] bt by (simp add: s4_def d3)
  define s5 where "s5 = USB_SET_EP_TX_STAT b 0 USB_EP_TX_STAT_VALID s4"
  have d5: "dev (hw s5) = ?D\<lparr>pma := (pma_filled ?D p 0 n src)(1 := len),
      ep_reg := (ep_reg ?D)(0 := (ep_reg ?D 0 AND NOT USB_EP_TX_STAT) OR USB_EP_TX_STAT_VALID)\<rparr>"
    using dev_ep_macros(1) [where ep = 0 and st = "0x30" and s = s4] by (simp add: s5_def d4)
  have stat: "\<not> fst (rd32 b (USB_EP_REG 0) s) AND ucast USB_EP_TX_STAT = ucast USB_EP_TX_STAT_VALID"
    using rdy ep_value [of 0 "hw s"] by (simp only: and_ucast16 ucast16_inject) (simp add: tx_ready_def)
  have p4: "4 \<le> p" using rdy unfolding p_def tx_ready_def by (elim conjE) linarith
  have "usbd_ep_write_packet b 0 src len s = (len, s5)"
    using stat pm by (simp add: usbd_ep_write_packet_def case_prod_beta Let_def s1_def [symmetric]
        s2_def [symmetric] s3_def [symmetric] s4_def [symmetric] s5_def [symmetric])
  moreover have "world.more s5 = world.more s"
    by (simp add: s5_def s4_def s3_def s2_def s1_def)
  moreover have "tx_packet (dev (hw s5)) = map src [0..<unat len]"
  proof -
    have "pma_bytes (dev (hw s5)) p (unat len) = pma_bytes (?D\<lparr>pma := pma_filled ?D p 0 n src\<rparr>) p (unat len)"
      using p4 by (simp add: pma_bytes_def d5)
    also have "\<dots> = map src [0..<unat len]" by (rule pma_bytes_filled) (simp add: n_def)
    finally show ?thesis using p4 by (simp add: tx_packet_def d5 pma_filled_def p_def [symmetric])
  qed
  moreover have "tx_valid (dev (hw s5))" by (simp add: tx_valid_def d5 valid_bits)
  moreover have "pma (dev (hw s5)) 0 = pma ?D 0" using p4 by (simp add: d5 pma_filled_def)
  moreover have "d_btable (dev (hw s5)) = 0" by (simp add: d5 bt)
  moreover have "pma (dev (hw s5)) 2 = pma ?D 2" using p4 by (simp add: d5 pma_filled_def)
  moreover have "ep_reg (dev (hw s5)) 0 = (ep_reg ?D 0 AND NOT USB_EP_TX_STAT) OR USB_EP_TX_STAT_VALID" by (simp add: d5)
  ultimately show ?thesis by (rule that)
qed

end

text \<open>The packets of a data stage: full packets, then the rest, then an empty packet when \<open>zlp\<close> asks for
  one.\<close>

function in_packets :: "u8 list \<Rightarrow> bool \<Rightarrow> u8 list list" where
  "in_packets bs zlp =
     (if 64 < length bs then take 64 bs # in_packets (drop 64 bs) zlp
      else if zlp then [bs, []] else [bs])"
  by pat_completeness auto
termination by (relation "measure (\<lambda>(bs, z). length bs)") auto

declare in_packets.simps [simp del]

text \<open>A data stage as the host sees it: it takes the packet that is ready; then the hardware is in
  some state that is ready for the next one and the firmware handles the IN transaction.\<close>

inductive in_stage ::
  "build \<Rightarrow> 'h bus \<Rightarrow> ('h \<Rightarrow> usb_dev) \<Rightarrow> ('h, 'm) usb_world_scheme \<Rightarrow> u8 list list \<Rightarrow> bool"
  for cfg b dev where
  in_last: "usb_fsm_state s = LAST_DATA_IN \<Longrightarrow> in_stage cfg b dev s [tx_packet (dev (hw s))]"
| in_more: "usb_fsm_state s = DATA_IN \<Longrightarrow> tx_ready (dev h) \<Longrightarrow>
    usbd_control_in cfg b (s\<lparr>hw := h\<rparr>) = Some s1 \<Longrightarrow> in_stage cfg b dev s1 ps \<Longrightarrow>
    in_stage cfg b dev s (tx_packet (dev (hw s)) # ps)"

definition in_todo :: "('h, 'm) usb_world_scheme \<Rightarrow> u8 list list" where
  "in_todo s = in_packets (map (\<lambda>i. ctl_byte s (unat (dataoff s) + i)) [0..<unat (datasize s)]) (usb_needs_zlp s \<noteq> 0)"

lemma ctl_byte_eq:
  fixes s s' :: "('h, 'm) usb_world_scheme"
  shows "world.more s' = world.more s \<Longrightarrow> ctl_byte s' = ctl_byte s"
  using usb_fields_eq [of s' s] by (simp add: ctl_byte_def fun_eq_iff)

lemma ctl_byte_update [simp]:
  "ctl_byte (s\<lparr>usb_fsm_state := st\<rparr>) = ctl_byte s" "ctl_byte (s\<lparr>dataoff := d\<rparr>) = ctl_byte s"
  "ctl_byte (s\<lparr>datasize := d\<rparr>) = ctl_byte s" "ctl_byte (s\<lparr>usb_needs_zlp := z\<rparr>) = ctl_byte s"
  "ctl_byte (s\<lparr>hw := h\<rparr>) = ctl_byte s"
  by (simp_all add: ctl_byte_def fun_eq_iff)

context usb_periph begin

lemma send_chunk_dev:
  assumes "tx_ready (dev (hw s))" "unat (dataoff s) + unat (datasize s) < 2 ^ 16"
  shows "64 < unat (datasize s) \<Longrightarrow>
      usb_fsm_state (usb_control_send_chunk b s) = DATA_IN \<and>
      in_todo s = tx_packet (dev (hw (usb_control_send_chunk b s))) # in_todo (usb_control_send_chunk b s) \<and>
      unat (dataoff (usb_control_send_chunk b s)) + unat (datasize (usb_control_send_chunk b s)) < 2 ^ 16"
    "\<not> 64 < unat (datasize s) \<Longrightarrow> usb_needs_zlp s = 0 \<Longrightarrow>
      usb_fsm_state (usb_control_send_chunk b s) = LAST_DATA_IN \<and>
      in_todo s = [tx_packet (dev (hw (usb_control_send_chunk b s)))]"
    "\<not> 64 < unat (datasize s) \<Longrightarrow> usb_needs_zlp s \<noteq> 0 \<Longrightarrow>
      usb_fsm_state (usb_control_send_chunk b s) = DATA_IN \<and>
      in_todo s = tx_packet (dev (hw (usb_control_send_chunk b s))) # in_todo (usb_control_send_chunk b s) \<and>
      unat (dataoff (usb_control_send_chunk b s)) + unat (datasize (usb_control_send_chunk b s)) < 2 ^ 16"
proof -
  let ?src = "\<lambda>i. ctl_byte s (unat (dataoff s) + i)"
  {
    assume big: "64 < unat (datasize s)"
    obtain t where t: "usbd_ep_write_packet b 0 ?src 64 s = (64, t)" "world.more t = world.more s"
        "tx_packet (dev (hw t)) = map ?src [0..<64]"
      using write_packet_dev [OF assms(1), where len = 64 and src = ?src] by auto
    note eq = usb_fields_eq [OF t(2)] ctl_byte_eq [OF t(2)]
    have chunk: "usb_control_send_chunk b s =
        t\<lparr>usb_fsm_state := DATA_IN, dataoff := dataoff t + 64, datasize := datasize t - 64\<rparr>"
      using big t(1) by (simp add: usb_control_send_chunk_def word_less_nat_alt)
    have off: "unat (dataoff s + 64) = unat (dataoff s) + 64" "unat (datasize s - 64) = unat (datasize s) - 64"
      using assms(2) big by (simp_all add: unat_word_ariths unat_sub word_le_nat_alt)
    have split: "map ?src [0..<unat (datasize s)] =
        map ?src [0..<64] @ map (\<lambda>i. ctl_byte s (unat (dataoff s) + 64 + i)) [0..<unat (datasize s) - 64]"
      using big upt_add_eq_append [of 0 64 "unat (datasize s) - 64"] map_add_upt [of 64 "unat (datasize s) - 64"]
      by (auto simp flip: map_append simp: map_eq_conv comp_def intro!: nth_equalityI simp: nth_append)
    show "usb_fsm_state (usb_control_send_chunk b s) = DATA_IN \<and>
      in_todo s = tx_packet (dev (hw (usb_control_send_chunk b s))) # in_todo (usb_control_send_chunk b s) \<and>
      unat (dataoff (usb_control_send_chunk b s)) + unat (datasize (usb_control_send_chunk b s)) < 2 ^ 16"
      using big assms(2)
      by (simp add: chunk eq t(3) in_todo_def off split in_packets.simps [of "_ @ _"])
  }
  {
    assume small: "\<not> 64 < unat (datasize s)"
    then obtain t where t: "usbd_ep_write_packet b 0 ?src (datasize s) s = (datasize s, t)"
        "world.more t = world.more s" "tx_packet (dev (hw t)) = map ?src [0..<unat (datasize s)]"
      using write_packet_dev [OF assms(1), where len = "datasize s" and src = ?src] by auto
    note eq = usb_fields_eq [OF t(2)] ctl_byte_eq [OF t(2)]
    have chunk: "usb_control_send_chunk b s =
        t\<lparr>usb_fsm_state := (if usb_needs_zlp t \<noteq> 0 then DATA_IN else LAST_DATA_IN), usb_needs_zlp := 0, datasize := 0\<rparr>"
      using small t(1) by (simp add: usb_control_send_chunk_def word_less_nat_alt)
    show "usb_needs_zlp s = 0 \<Longrightarrow>
      usb_fsm_state (usb_control_send_chunk b s) = LAST_DATA_IN \<and>
      in_todo s = [tx_packet (dev (hw (usb_control_send_chunk b s)))]"
      using small by (simp add: chunk eq t(3) in_todo_def in_packets.simps)
    show "usb_needs_zlp s \<noteq> 0 \<Longrightarrow>
      usb_fsm_state (usb_control_send_chunk b s) = DATA_IN \<and>
      in_todo s = tx_packet (dev (hw (usb_control_send_chunk b s))) # in_todo (usb_control_send_chunk b s) \<and>
      unat (dataoff (usb_control_send_chunk b s)) + unat (datasize (usb_control_send_chunk b s)) < 2 ^ 16"
      using small unsigned_less [of "dataoff s", where 'a = nat] by (simp add: chunk eq t(3) in_todo_def in_packets.simps)
  }
qed

text \<open>Whatever sequence of IN transactions brings the data stage to its end, the packets are those of
  \<open>in_packets\<close>.\<close>

lemma send_chunk_valid:
  assumes "tx_ready (dev (hw s))"
  shows "tx_valid (dev (hw (usb_control_send_chunk b s)))"
proof -
  let ?src = "\<lambda>i. ctl_byte s (unat (dataoff s) + i)"
  have "tx_valid (dev (hw (snd (usbd_ep_write_packet b 0 ?src len s))))" if "unat len \<le> 64" for len
    by (rule write_packet_dev [OF assms that, of ?src]) simp
  from this [of 64] this [of "datasize s"] show ?thesis
    by (simp add: usb_control_send_chunk_def case_prod_beta Let_def word_less_nat_alt)
qed

lemma in_stage_todo:
  assumes "in_stage cfg b dev s1 ps" "s1 = usb_control_send_chunk b s" "tx_ready (dev (hw s))"
    and "unat (dataoff s) + unat (datasize s) < 2 ^ 16"
  shows "ps = in_todo s"
  using assms
proof (induction arbitrary: s rule: in_stage.induct)
  case (in_last s1)
  note chunk = send_chunk_dev [OF in_last.prems(2, 3)]
  show ?case
    using chunk in_last.hyps in_last.prems(1)
    by (cases "64 < unat (datasize s)"; cases "usb_needs_zlp s = 0") auto
next
  case (in_more s1 h s2 ps)
  note chunk = send_chunk_dev [OF in_more.prems(2, 3)]
  have todo: "in_todo s = tx_packet (dev (hw s1)) # in_todo s1" "unat (dataoff s1) + unat (datasize s1) < 2 ^ 16"
    using chunk in_more.hyps(1) in_more.prems(1)
    by (cases "64 < unat (datasize s)"; cases "usb_needs_zlp s = 0"; auto)+
  have "s2 = usb_control_send_chunk b (s1\<lparr>hw := h\<rparr>)"
    using in_more.hyps(1, 3) by (simp add: usbd_control_in_def)
  then have "ps = in_todo (s1\<lparr>hw := h\<rparr>)"
    using in_more.IH [of "s1\<lparr>hw := h\<rparr>"] in_more.hyps(2) todo(2) by simp
  also have "\<dots> = in_todo s1" by (simp add: in_todo_def)
  finally show ?case using todo(1) by simp
qed

end

lemma concat_in_packets: "concat (in_packets bs zlp) = bs"
  by (induction bs zlp rule: in_packets.induct) (subst in_packets.simps, simp)

section \<open>Properties\<close>

lemma ctl_byte_store:
  "i < length bs \<Longrightarrow> length (usbd_control_buffer s) = DFU_TRANSFER_SIZE \<Longrightarrow> length bs \<le> DFU_TRANSFER_SIZE \<Longrightarrow>
    ctl_byte (store_ctl 0 bs s) i = bs ! i"
  by (simp add: ctl_byte_def store_ctl_def nth_append)

text \<open>C13: the data stage of a control read delivers exactly the bytes of the buffer, from
  \<open>dataoff\<close> on and as many as \<open>datasize\<close> says, in packets of 64 bytes and a last shorter one, followed by
  an empty packet exactly when \<open>usb_needs_zlp\<close> is set; however the host schedules it.\<close>

theorem control_in_data_stage:
  assumes "usb_periph b dev" "tx_ready (dev (hw s))"
    and "unat (dataoff s) + unat (datasize s) < 2 ^ 16"
    and "in_stage cfg b dev (usb_control_send_chunk b s) ps"
  shows "ps = in_packets (map (\<lambda>i. ctl_byte s (unat (dataoff s) + i)) [0..<unat (datasize s)]) (usb_needs_zlp s \<noteq> 0) \<and>
    concat ps = map (\<lambda>i. ctl_byte s (unat (dataoff s) + i)) [0..<unat (datasize s)]"
  using usb_periph.in_stage_todo [OF assms(1, 4) refl assms(2, 3)]
  by (simp add: in_todo_def concat_in_packets)

definition usb_dev0 :: usb_dev where
  "usb_dev0 = \<lparr>ep_reg = (\<lambda>_. 0x20), pma = (\<lambda>_. 0)(0 := 0x40, 2 := 0x80), d_btable = 0\<rparr>"

lemma tx_ready_dev0: "tx_ready usb_dev0"
  by (simp add: tx_ready_def usb_dev0_def)

definition demo_state :: "usb_dev usb_world" where
  "demo_state = usb_boot usb_dev0 (\<lambda>_. 0)"

lemma demo_fields [simp]:
  "i < 4096 \<Longrightarrow> ctl_byte demo_state i = 0" "dataoff demo_state = 0" "usb_needs_zlp demo_state = 0"
  "hw demo_state = usb_dev0" "length (usbd_control_buffer demo_state) = 4096"
  by (simp_all add: demo_state_def usb_boot_def ctl_byte_def)

lemma control_in_data_stage_witness:
  "\<exists>ps. in_stage (cmake_build False) usb_bus (\<lambda>d. d) (usb_control_send_chunk usb_bus (demo_state\<lparr>datasize := 3\<rparr>)) ps \<and>
    concat ps = [0, 0, 0]"
proof -
  let ?s = "demo_state\<lparr>datasize := 3\<rparr>"
  have rdy: "tx_ready (hw ?s)" by (simp add: tx_ready_dev0)
  have off: "unat (dataoff ?s) + unat (datasize ?s) < 2 ^ 16"
    by simp
  have "usb_fsm_state (usb_control_send_chunk usb_bus ?s) = LAST_DATA_IN"
    using usb.send_chunk_dev(2) [OF rdy off] by simp
  then have "in_stage (cmake_build False) usb_bus (\<lambda>d. d) (usb_control_send_chunk usb_bus ?s)
      [tx_packet (hw (usb_control_send_chunk usb_bus ?s))]"
    by (rule in_last)
  with control_in_data_stage [OF usb.usb_periph_axioms rdy off this] show ?thesis
    by (intro exI conjI) (assumption, simp add: upt_rec)
qed

definition get_descriptor_request :: "u16 \<Rightarrow> u16 \<Rightarrow> usb_setup_data" where
  "get_descriptor_request val len =
     \<lparr>bmRequestType = 0x80, bRequest = USB_REQ_GET_DESCRIPTOR, wValue = val, wIndex = 0, wLength = len\<rparr>"

lemma get_descriptor_chunk:
  assumes "length (usbd_control_buffer s) = DFU_TRANSFER_SIZE" "len \<noteq> 0"
    and "(val, desc) \<in> {(0x0100, bytes_of_device dev_desc), (0x0200, config_desc cfg)}"
    and "usb_req s = get_descriptor_request val len"
  obtains t where "usb_control_setup_read cfg b s = Some (usb_control_send_chunk b t)" "hw t = hw s"
    "unat (dataoff t) + unat (datasize t) < 2 ^ 16" "in_todo t = [take (unat len) desc]"
    "\<not> 64 < unat (datasize t)" "usb_needs_zlp t = 0"
proof -
  have len: "length desc < 64" "length desc \<le> DFU_TRANSFER_SIZE"
    using assms(3) by (auto simp: config_desc_def)
  define n where "n = min (unat len) (length desc)"
  define t where "t = (store_ctl 0 desc (s\<lparr>dataoff := 0\<rparr>))\<lparr>datasize := of_nat n, usb_needs_zlp := 0\<rparr>"
  have "of_nat n = (if len < of_nat (length desc) then len else (of_nat (length desc) :: u16))"
    using len(1) by (auto simp: n_def min_def word_less_nat_alt unsigned_of_nat take_bit_nat_eq_self)
  moreover have "desc = (if val = 0x0100 then bytes_of_device dev_desc else config_desc cfg)"
    using assms(3) by auto
  ultimately have "usb_control_setup_read cfg b s = Some (usb_control_send_chunk b t)"
    using assms(2-4)
    by (auto simp: usb_control_setup_read_def usb_control_request_dispatch_def class_request_def
        get_descriptor_request_def usbd_standard_request_def usbd_standard_request_device_def
        usb_standard_get_descriptor_def ret_true_def needs_zlp_def t_def Let_def config_desc_def)
  moreover have "hw t = hw s" by (simp add: t_def store_ctl_def)
  moreover have n: "dataoff t = 0" "unat (datasize t) = n" "n < 64"
    using len by (simp_all add: t_def n_def store_ctl_def unsigned_of_nat take_bit_nat_eq_self)
  moreover have "map (\<lambda>i. ctl_byte t (unat (dataoff t) + i)) [0..<unat (datasize t)] = take n desc"
    using len assms(1) ctl_byte_store [of _ desc "s\<lparr>dataoff := 0\<rparr>"] n
    by (intro nth_equalityI) (auto simp: t_def n_def)
  then have "in_todo t = [take (unat len) desc]"
    using n by (simp add: in_todo_def in_packets.simps t_def n_def min_def)
  moreover have "usb_needs_zlp t = 0" by (simp add: t_def)
  ultimately show ?thesis by (intro that) simp_all
qed

text \<open>C21: a GET_DESCRIPTOR request for the device or the configuration descriptor is always answered: the
  endpoint is opened with a packet of exactly the first \<open>wLength\<close> bytes of the descriptor, and this is
  the whole data stage.\<close>

theorem get_descriptor_answer:
  assumes "usb_periph b dev" "tx_ready (dev (hw s))"
    and "length (usbd_control_buffer s) = DFU_TRANSFER_SIZE" "len \<noteq> 0"
    and "(val, desc) \<in> {(0x0100, bytes_of_device dev_desc), (0x0200, config_desc cfg)}"
    and "usb_req s = get_descriptor_request val len"
  shows "\<exists>s1. usb_control_setup_read cfg b s = Some s1 \<and> tx_valid (dev (hw s1)) \<and>
    tx_packet (dev (hw s1)) = take (unat len) desc \<and> usb_fsm_state s1 = LAST_DATA_IN \<and>
    in_stage cfg b dev s1 = (\<lambda>ps. ps = [take (unat len) desc])"
proof -
  obtain t where t: "usb_control_setup_read cfg b s = Some (usb_control_send_chunk b t)" "hw t = hw s"
      "unat (dataoff t) + unat (datasize t) < 2 ^ 16" "in_todo t = [take (unat len) desc]"
      "\<not> 64 < unat (datasize t)" "usb_needs_zlp t = 0"
    by (rule get_descriptor_chunk [OF assms(3-6)])
  let ?s1 = "usb_control_send_chunk b t"
  have rdy: "tx_ready (dev (hw t))" using assms(2) t(2) by simp
  have chunk: "usb_fsm_state ?s1 = LAST_DATA_IN" "tx_packet (dev (hw ?s1)) = take (unat len) desc"
    using usb_periph.send_chunk_dev(2) [OF assms(1) rdy t(3, 5, 6)] t(4) by simp_all
  have "in_stage cfg b dev ?s1 ps \<longleftrightarrow> ps = [take (unat len) desc]" for ps
    using in_last [OF chunk(1), of cfg b dev] chunk usb_periph.in_stage_todo [OF assms(1) _ refl rdy t(3), of cfg ps] t(4) by auto
  moreover have "tx_valid (dev (hw ?s1))" by (rule usb_periph.send_chunk_valid [OF assms(1) rdy])
  ultimately show ?thesis using t(1) chunk by blast
qed

lemma get_descriptor_answer_witness:
  "\<exists>s1. usb_control_setup_read (cmake_build False) usb_bus
       (demo_state\<lparr>usb_req := get_descriptor_request 0x0100 8\<rparr>) = Some s1 \<and>
     in_stage (cmake_build False) usb_bus (\<lambda>d. d) s1 [[18, 1, 0, 2, 0, 0, 0, 64]]"
proof -
  let ?s = "demo_state\<lparr>usb_req := get_descriptor_request 0x0100 8\<rparr>"
  have ok: "length (usbd_control_buffer ?s) = DFU_TRANSFER_SIZE" "(8 :: u16) \<noteq> 0"
    "(0x0100, bytes_of_device dev_desc) \<in> {(0x0100, bytes_of_device dev_desc), (0x0200, config_desc (cmake_build False))}"
    "usb_req ?s = get_descriptor_request 0x0100 8"
    by simp_all
  have rdy: "tx_ready (hw ?s)" by (simp add: tx_ready_dev0)
  have "take (unat (8 :: u16)) (bytes_of_device dev_desc) = [18, 1, 0, 2, 0, 0, 0, 64]"
    by (simp add: bytes_of_device_def dev_desc_def le16_def lo8_def hi8_def)
  then show ?thesis using get_descriptor_answer [OF usb.usb_periph_axioms rdy ok] by auto
qed

text \<open>C34: the toggle macros do what their names say: on an endpoint register with toggle bits they
  set exactly the status field, or clear exactly the one flag, whatever the register held, and
  acknowledge nothing else.\<close>

theorem ep_macros_exact:
  assumes "usb_periph b dev" "ep < 8"
  shows "(\<forall>st\<in>{USB_EP_TX_STAT_DISABLED, USB_EP_TX_STAT_STALL, USB_EP_TX_STAT_NAK, USB_EP_TX_STAT_VALID}.
      ep_reg (dev (hw (USB_SET_EP_TX_STAT b ep st s))) ep = (ep_reg (dev (hw s)) ep AND NOT USB_EP_TX_STAT) OR st) \<and>
    (\<forall>st\<in>{USB_EP_RX_STAT_DISABLED, USB_EP_RX_STAT_STALL, USB_EP_RX_STAT_NAK, USB_EP_RX_STAT_VALID}.
      ep_reg (dev (hw (USB_SET_EP_RX_STAT b ep st s))) ep = (ep_reg (dev (hw s)) ep AND NOT USB_EP_RX_STAT) OR st) \<and>
    ep_reg (dev (hw (USB_CLR_EP_RX_CTR b ep s))) ep = ep_reg (dev (hw s)) ep AND NOT USB_EP_RX_CTR \<and>
    ep_reg (dev (hw (USB_CLR_EP_TX_CTR b ep s))) ep = ep_reg (dev (hw s)) ep AND NOT USB_EP_TX_CTR \<and>
    ep_reg (dev (hw (USB_CLR_EP_TX_DTOG b ep s))) ep = ep_reg (dev (hw s)) ep AND NOT USB_EP_TX_DTOG \<and>
    ep_reg (dev (hw (USB_CLR_EP_RX_DTOG b ep s))) ep = ep_reg (dev (hw s)) ep AND NOT USB_EP_RX_DTOG"
  by (intro conjI ballI) (simp_all add: usb_periph.dev_ep_macros [OF assms])

lemma ep_macros_exact_witness:
  "ep_reg (hw (USB_SET_EP_RX_STAT usb_bus 0 USB_EP_RX_STAT_VALID \<lparr>hw = usb_dev0\<lparr>ep_reg := (\<lambda>_. 0xA2A0)\<rparr>\<rparr>)) 0 = 0xB2A0"
  using ep_macros_exact [OF usb.usb_periph_axioms, of 0 "\<lparr>hw = usb_dev0\<lparr>ep_reg := (\<lambda>_. 0xA2A0)\<rparr>\<rparr>"]
  by simp

text \<open>C35: copying a buffer into packet memory and back gives the same bytes, for every length, odd
  ones included, that fits.\<close>

theorem pma_round_trip:
  assumes "usb_periph b dev" "p + (len + 1) div 2 \<le> 256"
  shows "fst (st_usbfs_copy_from_pm b (pma_addr p) len (st_usbfs_copy_to_pm b (pma_addr p) src len s)) = map src [0..<len]"
  by (rule usb_periph.dev_copy_round_trip [OF assms])

lemma pma_round_trip_witness:
  "fst (st_usbfs_copy_from_pm usb_bus (pma_addr 32) 3 (st_usbfs_copy_to_pm usb_bus (pma_addr 32) (\<lambda>i. of_nat i + 7) 3
     \<lparr>hw = usb_dev0\<rparr>)) = [7, 8, 9]"
  using pma_round_trip [OF usb.usb_periph_axioms, of 32 3 "\<lambda>i. of_nat i + 7" "\<lparr>hw = usb_dev0\<rparr>"]
  by (simp add: upt_rec)


section \<open>The data stage comes to its end\<close>

lemma send_chunk_left:
  "64 < unat (datasize s) \<Longrightarrow> unat (datasize (usb_control_send_chunk b s)) = unat (datasize s) - 64 \<and>
     usb_needs_zlp (usb_control_send_chunk b s) = usb_needs_zlp s"
  "\<not> 64 < unat (datasize s) \<Longrightarrow> datasize (usb_control_send_chunk b s) = 0 \<and>
     usb_needs_zlp (usb_control_send_chunk b s) = 0"
  by (simp_all add: unat_sub word_le_nat_alt usb_control_send_chunk_def case_prod_beta word_less_nat_alt usb_fields_eq [OF more_write_packet])

context usb_periph begin

lemma in_stage_exists:
  assumes "tx_ready (dev (hw s))" "unat (dataoff s) + unat (datasize s) < 2 ^ 16"
  shows "in_stage cfg b dev (usb_control_send_chunk b s) (in_todo s)"
proof -
  have "\<exists>ps. in_stage cfg b dev (usb_control_send_chunk b s) ps"
    using assms
  proof (induction "unat (datasize s) + (if usb_needs_zlp s = 0 then 0 else 1)" arbitrary: s rule: less_induct)
    case less
    let ?s1 = "usb_control_send_chunk b s"
    note chunk = send_chunk_dev [OF less.prems]
    show ?case
    proof (cases "usb_fsm_state ?s1 = LAST_DATA_IN")
      case True
      then show ?thesis using in_stage.in_last [of "usb_control_send_chunk b s"] by blast
    next
      case False
      then have st: "usb_fsm_state ?s1 = DATA_IN"
        and bound: "unat (dataoff ?s1) + unat (datasize ?s1) < 2 ^ 16"
        using chunk by (cases "64 < unat (datasize s)"; cases "usb_needs_zlp s = 0"; auto)+
      have dec: "unat (datasize ?s1) + (if usb_needs_zlp ?s1 = 0 then 0 else 1)
          < unat (datasize s) + (if usb_needs_zlp s = 0 then 0 else 1)"
        using False chunk send_chunk_left [of s] by (cases "64 < unat (datasize s)"; cases "usb_needs_zlp s = 0") auto
      let ?t = "?s1\<lparr>hw := hw s\<rparr>"
      have "\<exists>ps. in_stage cfg b dev (usb_control_send_chunk b ?t) ps"
        using less.hyps [of ?t] dec less.prems(1) bound by simp
      moreover have "usbd_control_in cfg b ?t = Some (usb_control_send_chunk b ?t)"
        using st by (simp add: usbd_control_in_def)
      ultimately show ?thesis using in_stage.in_more [where h = "hw s" and dev = dev, OF st less.prems(1)] by blast
    qed
  qed
  then show ?thesis using in_stage_todo [OF _ refl assms] by auto
qed

end


text \<open>C14: the data stage of a control read comes to its end: if the host takes each packet and the
  endpoint is free again, a finite number of IN transactions leads to the last packet, and the
  packets taken are those of \<open>in_packets\<close>.\<close>

theorem control_in_completes:
  assumes "usb_periph b dev" "tx_ready (dev (hw s))"
    and "unat (dataoff s) + unat (datasize s) < 2 ^ 16"
  shows "in_stage cfg b dev (usb_control_send_chunk b s)
    (in_packets (map (\<lambda>i. ctl_byte s (unat (dataoff s) + i)) [0..<unat (datasize s)]) (usb_needs_zlp s \<noteq> 0))"
  using usb_periph.in_stage_exists [OF assms] by (simp add: in_todo_def)

lemma control_in_completes_witness:
  "\<exists>ps. in_stage (cmake_build False) usb_bus (\<lambda>d. d) (usb_control_send_chunk usb_bus (demo_state\<lparr>datasize := 4097\<rparr>)) ps \<and>
     length (concat ps) = 4097"
proof -
  have "tx_ready (hw (demo_state\<lparr>datasize := 4097\<rparr>))"
    "unat (dataoff (demo_state\<lparr>datasize := 4097\<rparr>)) + unat (datasize (demo_state\<lparr>datasize := 4097\<rparr>)) < 2 ^ 16"
    by (simp_all add: tx_ready_dev0)
  from control_in_completes [OF usb.usb_periph_axioms this, of "cmake_build False"]
  show ?thesis by (intro exI conjI) (assumption, simp add: concat_in_packets)
qed

definition class_in_request :: "u8 \<Rightarrow> u16 \<Rightarrow> usb_setup_data" where
  "class_in_request r len = \<lparr>bmRequestType = 0xA1, bRequest = r, wValue = 0, wIndex = 0, wLength = len\<rparr>"

lemma class_in_chunk:
  assumes "usb_req s = class_in_request 6 len" "len \<noteq> 0"
  shows "usb_control_setup_read cfg b s = Some (usb_control_send_chunk b
    (s\<lparr>dataoff := 0, usbdfu_state := STATE_DFU_IDLE, datasize := len, usb_needs_zlp := 0\<rparr>))"
proof -
  have "class_request (usb_req s)" by (simp add: assms(1) class_request_def class_in_request_def)
  moreover have "dfu_req_of (bRequest (usb_req s)) = Some DFU_ABORT"
    by (simp add: assms(1) class_in_request_def dfu_req_of_def)
  ultimately show ?thesis
    using assms(2)
    by (simp add: usb_control_setup_read_def usb_control_request_dispatch_def usbdfu_control_request_def
        needs_zlp_def Let_def ret_true_def assms(1) class_in_request_def)
qed

text \<open>C26: a class request with the direction bit set makes the device send as many bytes as the host
  asks for: for DFU_ABORT with a \<open>wLength\<close> above 4096, the bytes behind the first 4096 are the RAM that
  follows \<open>usbd_control_buffer\<close>. (The setup stage checks \<open>wLength\<close> for writes only.)\<close>

theorem class_in_overread:
  assumes "usb_periph b dev" "tx_ready (dev (hw s))"
    and "usb_req s = class_in_request 6 len" "DFU_TRANSFER_SIZE \<le> unat len"
  shows "\<exists>s1 ps. usb_control_setup_read cfg b s = Some s1 \<and> in_stage cfg b dev s1 ps \<and>
    drop DFU_TRANSFER_SIZE (concat ps) = map (ram_beyond s) [0..<unat len - DFU_TRANSFER_SIZE]"
proof -
  let ?t = "s\<lparr>dataoff := 0, usbdfu_state := STATE_DFU_IDLE, datasize := len, usb_needs_zlp := 0\<rparr>"
  have "len \<noteq> 0" using assms(4) by auto
  have room: "unat (dataoff ?t) + unat (datasize ?t) < 2 ^ 16"
    using unsigned_less [of len, where 'a = nat] by simp
  have "in_stage cfg b dev (usb_control_send_chunk b ?t) (in_todo ?t)"
    using usb_periph.in_stage_exists [OF assms(1) _ room] assms(2) by simp
  moreover have "drop DFU_TRANSFER_SIZE (concat (in_todo ?t)) = map (ram_beyond s) [0..<unat len - DFU_TRANSFER_SIZE]"
    by (rule nth_equalityI) (simp_all add: in_todo_def concat_in_packets ctl_byte_def)
  ultimately show ?thesis using class_in_chunk [OF assms(3) \<open>len \<noteq> 0\<close>] by blast
qed

lemma class_in_overread_witness:
  "\<exists>s1 ps. usb_control_setup_read (cmake_build False) usb_bus
      ((usb_boot usb_dev0 (\<lambda>k. if k = 1 then 0x5A else 0))\<lparr>usb_req := class_in_request 6 4098\<rparr>) = Some s1 \<and>
    in_stage (cmake_build False) usb_bus (\<lambda>d. d) s1 ps \<and> drop 4096 (concat ps) = [0, 0x5A]"
proof -
  let ?s = "(usb_boot usb_dev0 (\<lambda>k. if k = 1 then 0x5A else 0))\<lparr>usb_req := class_in_request 6 4098\<rparr>"
  have "tx_ready (hw ?s)" "usb_req ?s = class_in_request 6 4098" "DFU_TRANSFER_SIZE \<le> unat (4098 :: u16)"
    by (simp_all add: usb_boot_def tx_ready_dev0)
  from class_in_overread [OF usb.usb_periph_axioms this, of "cmake_build False"]
  show ?thesis by (simp add: upt_rec usb_boot_def)
qed

end
