(* ===== verification/DfuFlash.thy ===== *)
theory DfuFlash
  imports UsbSafe
begin

text \<open>
  What the deferred DFU operations do to the flash: on a controller that satisfies \<open>fmc_device\<close>, the
  contents of the array after a block write; on any hardware at all, which stores are issued.
\<close>

section \<open>A block write on a working controller\<close>

lemma range_erased:
  assumes g: "geometry d" and al: "unat a mod unat (d_page d) = 0" and k: "k < n"
    and a: "0x8000000 \<le> unat a" "unat a + n \<le> 0x8000000 + unat (d_size d)"
  shows "in_array d (a + of_nat k)" "range_wiped d a (a + of_nat n) (a + of_nat k) = 0xFF"
proof -
  have size: "unat (d_size d) \<le> 0x4000000" using g by (simp add: geometry_def word_le_nat_alt)
  have uk: "unat (a + of_nat k) = unat a + k" if "k \<le> n" for k
    using that a(2) size by (simp add: unat_word_ariths unsigned_of_nat take_bit_eq_mod mod_simps)
  have pos: "0 < unat (d_page d)" using g by (auto simp: geometry_def)
  show inn: "in_array d (a + of_nat k)"
    using uk [of k] k a by (simp add: in_array_unat [OF g])
  have pg: "unat (page_of d (a + of_nat k)) = unat a + (k - k mod unat (d_page d))"
  proof -
    have "(unat a + k) mod unat (d_page d) = k mod unat (d_page d)"
      using al by (simp add: mod_eq_0_iff_dvd) (metis dvd_imp_mod_0 mod_add_left_eq add_0)
    moreover have "k mod unat (d_page d) \<le> k" by simp
    ultimately show ?thesis using k uk [of k] by (simp add: unat_page_of [OF g])
  qed
  have "a \<le> page_of d (a + of_nat k)"
    unfolding word_le_nat_alt pg by (rule le_add1)
  moreover have "page_of d (a + of_nat k) < a + of_nat n"
    using k uk [of n] pg by (simp add: word_less_nat_alt)
  ultimately show "range_wiped d a (a + of_nat n) (a + of_nat k) = 0xFF"
    using inn by (simp add: range_wiped_def)
qed

text \<open>The array after a block: its pages erased, its bytes laid over them.\<close>

definition block_image :: "fmc_dev \<Rightarrow> u32 \<Rightarrow> nat \<Rightarrow> u8 list \<Rightarrow> u32 \<Rightarrow> u8" where
  "block_image d a n bs = overlay (range_wiped d a (a + of_nat n)) a 0 (2 * (n div 2)) bs"

lemma safe_erased_frame [simp]:
  "page_size (s\<lparr>safe_erased := v\<rparr>) = page_size s" "flash_app_end (s\<lparr>safe_erased := v\<rparr>) = flash_app_end s"
  by (simp_all add: page_size_def get_flash_page_size_def lnCpuID_vendor_def flash_app_end_def
      lnCpuID_flashSize_def Let_def)

context fmc_device begin

lemma program_block_dev:
  assumes g: "geometry (dev (hw s))" and ctl: "d_ctl (dev (hw s)) = 0"
    and ps: "page_size s = d_page (dev (hw s))" and al: "unat a mod unat (page_size s) = 0"
    and a: "0x8000000 \<le> unat a" "unat a + unat (prog_len s) \<le> 0x8000000 + unat (d_size (dev (hw s)))"
  obtains s' where "dfu_program_block b a s = Some s'"
    "cells (dev (hw s')) = block_image (dev (hw s)) a (unat (prog_len s)) (prog_buf s)"
    "d_ctl (dev (hw s')) = 0" "d_key1 (dev (hw s')) = d_key1 (dev (hw s))"
    "d_page (dev (hw s')) = d_page (dev (hw s))" "d_size (dev (hw s')) = d_size (dev (hw s))" "flash_only s s'"
proof -
  let ?D = "dev (hw s)" and ?n = "unat (prog_len s)"
  have size: "unat (d_size ?D) \<le> 0x4000000" using g by (simp add: geometry_def word_le_nat_alt)
  have len: "a + ucast (prog_len s) = a + of_nat ?n" by simp
  have "unat (a + of_nat ?n) \<le> unat a + ?n"
    unfolding len [symmetric] by (simp add: unat_word_ariths)
  then have lim: "unat (a + of_nat ?n) \<le> 0x8000000 + unat (d_size ?D)" using a(2) by simp
  obtain s1 where s1: "flash_erase_range b a (a + of_nat ?n) s = Some s1"
      "settled (dev (hw s1)) = (settled ?D)\<lparr>cells := range_wiped ?D a (a + of_nat ?n)\<rparr>"
    using erase_range_dev [OF g ctl ps al a(1) lim] by blast
  note d1 = settled_eqD [OF s1(2)]
  have only1: "flash_only s s1" by (rule flash_only_erase_range [OF s1(1)])
  note same = dfu_fields_eq [OF flash_only_dfu [OF only1]]
  have in1: "in_array (dev (hw s1)) = in_array ?D" by (simp add: in_array_def d1 fun_eq_iff)
  have span: "erased_span (dev (hw s1)) a (2 * (?n div 2))"
    unfolding erased_span_def in1 d1(1)
  proof (intro allI impI)
    fix k assume "k < 2 * (?n div 2)"
    then have "k < ?n" by linarith
    then show "in_array ?D (a + of_nat k) \<and> range_wiped ?D a (a + of_nat ?n) (a + of_nat k) = 0xFF"
      using range_erased [OF g _ _ a, of k] al ps by simp
  qed
  have even: "unat a mod 2 = 0"
    using al g ps by (auto simp: geometry_def mod_eq_0_iff_dvd dest: dvd_trans [rotated, of _ _ 2])
  have bound: "?n \<le> 2 ^ 32" using unsigned_less [of "prog_len s", where 'a = nat] by simp
  have ctl1: "d_ctl (dev (hw s1)) = 0" using d1(2) ctl by simp
  have img: "overlay (cells (dev (hw s1))) a 0 (2 * (?n div 2)) (prog_buf s) = block_image ?D a ?n (prog_buf s)"
    by (simp add: block_image_def d1)
  show ?thesis
  proof (cases "gd32 s1")
    case True
    obtain s2 where s2: "flash_program_buffer_gd32 b a (prog_buf s) ?n s1 = Some s2"
      "dev (hw s2) = (dev (hw s1))\<lparr>d_busy := 0, cells := overlay (cells (dev (hw s1))) a 0 (2 * (?n div 2)) (prog_buf s)\<rparr>"
      by (rule program_buffer_gd32_dev [OF ctl1 even bound span])
    then show ?thesis using True s1(1) same d1 ctl1 img
        flash_only_trans [OF only1 flash_only_more [OF more_program_buffer_gd32 [OF s2(1)]]]
      by (intro that [of s2]) (simp_all add: dfu_program_block_def)
  next
    case False
    obtain s2 where s2: "flash_program_buffer b a (prog_buf s) ?n s1 = Some s2"
      "dev (hw s2) = (dev (hw s1))\<lparr>d_busy := 0, cells := overlay (cells (dev (hw s1))) a 0 (2 * (?n div 2)) (prog_buf s)\<rparr>"
      by (rule program_buffer_dev [OF ctl1 even bound span])
    then show ?thesis using False s1(1) same d1 ctl1 img
        flash_only_trans [OF only1 flash_only_more [OF more_program_buffer [OF s2(1)]]]
      by (intro that [of s2]) (simp_all add: dfu_program_block_def)
  qed
qed

text \<open>The erase of a safe-write build comes first and once.\<close>

lemma safewrite_dev:
  assumes g: "geometry (dev (hw s))" and ctl: "d_ctl (dev (hw s)) = 0"
    and ps: "page_size s = d_page (dev (hw s))" and fend: "unat (flash_app_end s) \<le> 0x8000000 + unat (d_size (dev (hw s)))"
  obtains s' where "(if c then check_do_erase b s else Some s) = Some s'"
    "settled (dev (hw s')) = (settled (dev (hw s)))\<lparr>cells :=
      if c \<and> \<not> safe_erased s then range_wiped (dev (hw s)) flash_app_start (flash_app_end s) else cells (dev (hw s))\<rparr>"
    "safe_erased s' \<longleftrightarrow> safe_erased s \<or> c" "page_size s' = page_size s" "flash_app_end s' = flash_app_end s"
    "flash_world.more s' = flash_world.more s"
proof (cases "c \<and> \<not> safe_erased s")
  case True
  have start: "flash_app_start = 0x8002000" by (simp add: flash_app_start_def)
  have al: "unat flash_app_start mod unat (page_size s) = 0" "0x8000000 \<le> unat flash_app_start"
    using g ps by (auto simp: start geometry_def)
  obtain s1 where s1: "flash_erase_range b flash_app_start (flash_app_end s) s = Some s1"
      "settled (dev (hw s1)) = (settled (dev (hw s)))\<lparr>cells := range_wiped (dev (hw s)) flash_app_start (flash_app_end s)\<rparr>"
    using erase_range_dev [OF g ctl ps al fend] by blast
  note only = flash_only_eqs [OF flash_only_erase_range [OF s1(1)]]
  show ?thesis
  proof (rule that)
    show "(if c then check_do_erase b s else Some s) = Some (s1\<lparr>safe_erased := True\<rparr>)"
      using True s1(1) by (simp add: check_do_erase_def)
    show "page_size (s1\<lparr>safe_erased := True\<rparr>) = page_size s"
      using only(5) by simp
    show "flash_app_end (s1\<lparr>safe_erased := True\<rparr>) = flash_app_end s"
      using only(2) by (simp add: flash_app_end_def lnCpuID_flashSize_def)
  qed (use True s1(2) only in simp_all)
next
  case False
  then show ?thesis by (intro that [of s]) (auto simp: check_do_erase_def settled_def)
qed

end

lemma range_wiped_ctl [simp]: "range_wiped (d\<lparr>d_ctl := v\<rparr>) = range_wiped d"
  by (simp add: range_wiped_def page_of_def fun_eq_iff)

lemma page_size_more:
  fixes s s' :: "('h, 'm) flash_world_scheme"
  shows "world.more s' = world.more s \<Longrightarrow> page_size s' = page_size s"
  by (rule flash_only_eqs(5) [OF flash_only_more])

lemma flash_app_end_more:
  fixes s s' :: "('h, 'm) cpu_world_scheme"
  assumes "world.more s' = world.more s"
  shows "flash_app_end s' = flash_app_end s"
  using cpu_more_eq(2) [OF assms] by (simp add: flash_app_end_def lnCpuID_flashSize_def)

lemmas unlock_more = more_unlock_lock(1) [where opt = False]
lemmas lock_more = more_unlock_lock(2)

lemma dfu_state_frame [simp]:
  "page_size (s\<lparr>usbdfu_state := st\<rparr>) = page_size s" "flash_app_end (s\<lparr>usbdfu_state := st\<rparr>) = flash_app_end s"
  by (simp_all add: page_size_def get_flash_page_size_def lnCpuID_vendor_def flash_app_end_def
      lnCpuID_flashSize_def Let_def)

text \<open>The pages a block write erases: in a safe-write build, the first time, the whole application.\<close>

definition erase_span :: "build \<Rightarrow> ('h, 'm) flash_world_scheme \<Rightarrow> u32 \<Rightarrow> nat \<Rightarrow> u32 \<times> u32" where
  "erase_span cfg s a n =
     (if ENABLE_SAFEWRITE cfg \<and> \<not> safe_erased s then (flash_app_start, flash_app_end s)
      else (a, a + of_nat n))"

definition written :: "fmc_dev \<Rightarrow> u32 \<times> u32 \<Rightarrow> u32 \<Rightarrow> nat \<Rightarrow> u8 list \<Rightarrow> u32 \<Rightarrow> u8" where
  "written d sp a n bs = overlay (range_wiped d (fst sp) (snd sp)) a 0 (2 * (n div 2)) bs"

lemma range_wiped_twice:
  assumes "in_array d' = in_array d" "page_of d' = page_of d" "cells d' = range_wiped d lo hi" "lo \<le> a" "l \<le> hi"
  shows "range_wiped d' a l = range_wiped d lo hi"
  using assms(4, 5) by (auto simp: range_wiped_def assms(1-3) fun_eq_iff)

lemma block_written_all:
  assumes "fmc_device b dev" "geometry (dev (hw s))" "fmc_idle (dev (hw s))"
    and "usbdfu_state s = STATE_DFU_DNBUSY" "prog_blocknum s \<noteq> 0"
    and "page_size s = d_page (dev (hw s))" "flash_app_end s = 0x8000000 + d_size (dev (hw s))"
    and "a = dfu_block_addr (prog_addr s) (prog_blocknum s)" "unat a mod unat (page_size s) = 0"
    and "0x8002000 \<le> unat a" "unat a + unat (prog_len s) \<le> unat (flash_app_end s)"
  shows "\<exists>s'. usbdfu_getstatus_complete cfg b s = Some s' \<and> usbdfu_state s' = STATE_DFU_DNLOAD_IDLE \<and>
    fmc_idle (dev (hw s')) \<and>
    cells (dev (hw s')) = written (dev (hw s)) (erase_span cfg s a (unat (prog_len s))) a (unat (prog_len s)) (prog_buf s) \<and>
    d_page (dev (hw s')) = d_page (dev (hw s)) \<and> d_size (dev (hw s')) = d_size (dev (hw s)) \<and>
    page_size s' = page_size s \<and> flash_app_end s' = flash_app_end s \<and>
    (safe_erased s' \<longleftrightarrow> safe_erased s \<or> ENABLE_SAFEWRITE cfg) \<and> prog_addr s' = prog_addr s"
proof -
  let ?s1 = "flash_unlock b False s" and ?D = "dev (hw s)" and ?n = "unat (prog_len s)"
  let ?wipe = "ENABLE_SAFEWRITE cfg \<and> \<not> safe_erased s"
  have d1: "dev (hw ?s1) = ?D\<lparr>d_ctl := 0\<rparr>" by (rule fmc_device.unlock_dev [OF assms(1, 3)])
  note only1 = flash_only_eqs [OF flash_only_more [OF unlock_more [of b s]]]
  note same1 = dfu_fields_eq [OF only1(4)]
  have end1: "flash_app_end ?s1 = flash_app_end s" by (rule flash_app_end_more [OF unlock_more])
  have size: "unat (d_size ?D) \<le> 0x4000000" using assms(2) by (simp add: geometry_def word_le_nat_alt)
  have fend: "unat (flash_app_end s) = 0x8000000 + unat (d_size ?D)"
    using size by (simp add: assms(7) unat_word_ariths)
  obtain t where t: "(if ENABLE_SAFEWRITE cfg then check_do_erase b ?s1 else Some ?s1) = Some t"
    "settled (dev (hw t)) = (settled (dev (hw ?s1)))\<lparr>cells := if ENABLE_SAFEWRITE cfg \<and> \<not> safe_erased ?s1
      then range_wiped (dev (hw ?s1)) flash_app_start (flash_app_end ?s1) else cells (dev (hw ?s1))\<rparr>"
    "safe_erased t \<longleftrightarrow> safe_erased ?s1 \<or> ENABLE_SAFEWRITE cfg" "page_size t = page_size ?s1"
    "flash_app_end t = flash_app_end ?s1" "flash_world.more t = flash_world.more ?s1"
    by (rule fmc_device.safewrite_dev [OF assms(1), of ?s1 "ENABLE_SAFEWRITE cfg"])
      (use assms(2, 6) fend in \<open>simp_all add: d1 only1 end1\<close>)
  note dt = settled_eqD [OF t(2), unfolded d1 only1 end1, simplified]
  note same = dfu_fields_eq [OF t(6), unfolded same1]
  have gt: "geometry (dev (hw t))" using assms(2) dt by (simp add: geometry_def)
  have a: "flash_app_start \<le> a" "a + of_nat ?n \<le> flash_app_end s"
    using assms(10, 11) fend size
    by (simp_all add: word_le_nat_alt flash_app_start_def unat_word_ariths)
  obtain s2 where s2: "dfu_program_block b a t = Some s2"
    "cells (dev (hw s2)) = block_image (dev (hw t)) a (unat (prog_len t)) (prog_buf t)"
    "d_ctl (dev (hw s2)) = 0" "d_key1 (dev (hw s2)) = d_key1 (dev (hw t))"
    "d_page (dev (hw s2)) = d_page (dev (hw t))" "d_size (dev (hw s2)) = d_size (dev (hw t))" "flash_only t s2"
    by (rule fmc_device.program_block_dev [OF assms(1) gt])
      (use assms(6, 9-11) fend in \<open>simp_all add: dt t(4) only1 same\<close>)
  have busy: "dfu_busy_operation cfg b ?s1 = Some s2"
    using s2(1) t(1, 5) a assms(5, 8)
    by (simp add: dfu_busy_operation_def dfu_write_block_def same same1 end1)
  have d3: "dev (hw (flash_lock b s2)) = (dev (hw s2))\<lparr>d_ctl := FLASH_CR_LOCK\<rparr>"
    by (rule fmc_device.lock_dev [OF assms(1) s2(3)])
  have "in_array (dev (hw t)) = in_array ?D" "page_of (dev (hw t)) = page_of ?D"
    by (simp_all add: in_array_def page_of_def dt fun_eq_iff)
  note twice = range_wiped_twice [OF this _ a]
  have "range_wiped (dev (hw t)) a (a + of_nat ?n) =
      range_wiped ?D (fst (erase_span cfg s a ?n)) (snd (erase_span cfg s a ?n))"
  proof (cases ?wipe)
    case True
    then show ?thesis using dt(1) by (subst twice) (simp_all add: erase_span_def only1)
  next
    case False
    then show ?thesis using dt(1)
      by (auto simp: erase_span_def range_wiped_def in_array_def page_of_def dt only1 fun_eq_iff)
  qed
  then have "cells (dev (hw s2)) = written ?D (erase_span cfg s a ?n) a ?n (prog_buf s)"
    by (simp add: s2(2) block_image_def written_def same)
  moreover note only2 = flash_only_eqs [OF s2(7)] and only3 = flash_only_eqs [OF flash_only_more [OF lock_more [of b s2]]]
  moreover have "prog_addr (flash_lock b s2) = prog_addr s"
    using dfu_fields_eq(5) [OF only3(4)] dfu_fields_eq(5) [OF only2(4)] same(5) by simp
  moreover have "flash_app_end (flash_lock b s2) = flash_app_end s"
    using only3(2) only2(2) t(5) end1 by (simp add: flash_app_end_def lnCpuID_flashSize_def)
  ultimately show ?thesis
    using assms(3, 4) busy s2(3-6) d3 dt t(3, 4) only1
    by (simp add: usbdfu_getstatus_complete_def fmc_idle_def)
qed

text \<open>C4: a block of a download is programmed completely: when the host polls the status after DNLOAD,
  the flash controller ends up locked and idle, the pages of the block are erased if they had to be
  and then hold the block, every other page is as before, and the state is dfuDNLOAD-IDLE. (An odd
  last byte is not programmed: the image has \<open>2 * (n div 2)\<close> bytes of the block.)\<close>

theorem dfu_block_written:
  assumes "fmc_device b dev" "geometry (dev (hw s))" "fmc_idle (dev (hw s))"
    and "usbdfu_state s = STATE_DFU_DNBUSY" "prog_blocknum s \<noteq> 0"
    and "ENABLE_SAFEWRITE cfg \<longrightarrow> safe_erased s"
    and "page_size s = d_page (dev (hw s))" "flash_app_end s = 0x8000000 + d_size (dev (hw s))"
    and "a = dfu_block_addr (prog_addr s) (prog_blocknum s)" "unat a mod unat (page_size s) = 0"
    and "0x8002000 \<le> unat a" "unat a + unat (prog_len s) \<le> unat (flash_app_end s)"
  shows "\<exists>s'. usbdfu_getstatus_complete cfg b s = Some s' \<and> usbdfu_state s' = STATE_DFU_DNLOAD_IDLE \<and>
    fmc_idle (dev (hw s')) \<and>
    cells (dev (hw s')) = block_image (dev (hw s)) a (unat (prog_len s)) (prog_buf s)"
  using block_written_all [OF assms(1-5, 7-12), of cfg] assms(6)
  by (auto simp: written_def erase_span_def block_image_def)

definition dfu_demo :: "'h \<Rightarrow> 'h usb_world" where
  "dfu_demo h = (usb_boot h (\<lambda>_. 0))\<lparr>usbdfu_state := STATE_DFU_DNBUSY, prog_blocknum := 2,
     prog_addr := 0x8002400, prog_len := 4, prog_buf := [1, 2, 3, 4] @ zeros 4092\<rparr>"

lemma dfu_demo_simps [simp]:
  "hw (dfu_demo h) = h" "usbdfu_state (dfu_demo h) = STATE_DFU_DNBUSY" "prog_blocknum (dfu_demo h) = 2"
  "prog_addr (dfu_demo h) = 0x8002400" "prog_len (dfu_demo h) = 4" "page_size (dfu_demo h) = 1024"
  "flash_app_end (dfu_demo h) = 0x8010000" "safe_erased (dfu_demo h) = False"
  "prog_buf (dfu_demo h) = [1, 2, 3, 4] @ zeros 4092"
  by (simp_all add: dfu_demo_def usb_boot_def page_size_def get_flash_page_size_def lnCpuID_vendor_def
      flash_app_end_def lnCpuID_flashSize_def)

lemma dfu_block_written_witness:
  "\<exists>s'. usbdfu_getstatus_complete (cmake_build False) fmc_bus (dfu_demo flash_demo) = Some s' \<and>
     usbdfu_state s' = STATE_DFU_DNLOAD_IDLE \<and>
     cells (hw s') 0x8002400 = 1 \<and> cells (hw s') 0x8002403 = 4 \<and> cells (hw s') 0x8002404 = 0xFF"
proof -
  have "fmc_idle (hw (dfu_demo flash_demo))" "d_page (hw (dfu_demo flash_demo)) = 1024" "d_size (hw (dfu_demo flash_demo)) = 0x10000"
    by (simp_all add: fmc_idle_def flash_demo_def)
  moreover have "dfu_block_addr (prog_addr (dfu_demo flash_demo)) (prog_blocknum (dfu_demo flash_demo)) = 0x8002400"
    by (simp add: dfu_block_addr_def)
  ultimately obtain s' where s': "usbdfu_getstatus_complete (cmake_build False) fmc_bus (dfu_demo flash_demo) = Some s'"
      "usbdfu_state s' = STATE_DFU_DNLOAD_IDLE"
      "cells (hw s') = block_image flash_demo 0x8002400 4 ([1, 2, 3, 4] @ zeros 4092)"
    using dfu_block_written [OF fmc.fmc_device_axioms, of "dfu_demo flash_demo" "cmake_build False" "0x8002400"]
    by (auto simp: geometry_demo cmake_build_def)
  then show ?thesis
    by (intro exI [of _ s'])
      (simp add: block_image_def overlay_def range_wiped_def in_array_def flash_demo_def page_of_def)
qed

end
