(* ===== verification/Download.thy ===== *)
theory Download
  imports DfuFlash
begin

text \<open>
  Whole downloads: what a DfuSe host does with the class requests of \<open>dfu.cpp\<close>, from the address
  command to the zero-length block, and what is then in the flash.
\<close>

section \<open>The host\<close>

definition dfu_request :: "u8 \<Rightarrow> u16 \<Rightarrow> u16 \<Rightarrow> usb_setup_data" where
  "dfu_request req val len =
     \<lparr>bmRequestType = 0x21, bRequest = req, wValue = val, wIndex = 0, wLength = len\<rparr>"

text \<open>A DNLOAD whose data stage has filled the control buffer, and a GETSTATUS with the callback of
  its status stage.\<close>

definition host_block ::
  "build \<Rightarrow> 'h bus \<Rightarrow> u16 \<Rightarrow> u8 list \<Rightarrow> ('h, 'm) dfu_world_scheme \<Rightarrow> ('h, 'm) dfu_world_scheme option" where
  "host_block cfg b k bs s0 =
     (let s1 = s0\<lparr>usbd_control_buffer := bs @ drop (length bs) (usbd_control_buffer s0)\<rparr>;
          n = of_nat (length bs);
          (_, _, _, s2) = usbdfu_control_request cfg b (dfu_request 1 k n) n s1;
          (_, _, cb, s3) = usbdfu_control_request cfg b (dfu_request 3 0 6) 6 s2
      in case cb of None \<Rightarrow> Some s3 | Some c \<Rightarrow> usb_callback_run cfg b c s3)"

text \<open>The host's side is the same whether \<open>blk k bs\<close>, the transfer of one block, is looked at as two class
  requests or as all the transactions on the bus.\<close>

fun host_download :: "(u16 \<Rightarrow> u8 list \<Rightarrow> 's \<Rightarrow> 's option) \<Rightarrow> u16 \<Rightarrow> u8 list list \<Rightarrow> 's \<Rightarrow> 's option" where
  "host_download blk k [] s = Some s"
| "host_download blk k (bs # bss) s = do { s1 \<leftarrow> blk k bs s; host_download blk (k + 1) bss s1 }"

function chunks :: "u8 list \<Rightarrow> u8 list list" where
  "chunks xs = (if xs = [] then [] else take DFU_TRANSFER_SIZE xs # chunks (drop DFU_TRANSFER_SIZE xs))"
  by pat_completeness auto
termination
  by (relation "measure length") simp_all

declare chunks.simps [simp del]

definition set_address :: "u32 \<Rightarrow> u8 list" where
  "set_address a = CMD_SETADDR # map (\<lambda>i. byte_of32 i a) [0, 1, 2, 3]"

definition host_session :: "(u16 \<Rightarrow> u8 list \<Rightarrow> 's \<Rightarrow> 's option) \<Rightarrow> u32 \<Rightarrow> u8 list \<Rightarrow> 's \<Rightarrow> 's option" where
  "host_session blk a img s = do {
     s1 \<leftarrow> blk 0 (set_address a) s;
     s2 \<leftarrow> host_download blk 2 (chunks img) s1;
     blk 0 [] s2
   }"

section \<open>One block\<close>

lemma page_size_cong:
  "cached_size s = cached_size t \<Longrightarrow> cpu_vendor s = cpu_vendor t \<Longrightarrow> page_size s = page_size t"
  by (simp add: page_size_def get_flash_page_size_def lnCpuID_vendor_def Let_def)

lemma app_end_cong: "cpu_flashSize s = cpu_flashSize t \<Longrightarrow> flash_app_end s = flash_app_end t"
  by (simp add: flash_app_end_def lnCpuID_flashSize_def)

lemma overlay_cong:
  assumes "\<And>i. i < n \<Longrightarrow> d ! i = d' ! i"
  shows "overlay m a 0 n d = overlay m a 0 n d'"
  using assms by (auto simp: overlay_def fun_eq_iff)

text \<open>What the download depends on: the controller, up to what an operation leaves behind, and the
  variables that the guards and the choice of the routine read.\<close>

definition kept :: "('h, 'm) dfu_world_scheme \<Rightarrow> ('k, 'n) dfu_world_scheme \<Rightarrow> bool" where
  "kept s t \<longleftrightarrow>
     prog_addr t = prog_addr s \<and> safe_erased t = safe_erased s \<and> cached_size t = cached_size s \<and>
     cpu_vendor t = cpu_vendor s \<and> cpu_flashSize t = cpu_flashSize s"

lemma kept_refl [simp, intro]: "kept s s"
  by (simp add: kept_def)

lemma kept_trans [trans]: "kept s t \<Longrightarrow> kept t u \<Longrightarrow> kept s u"
  by (simp add: kept_def)

lemma kept_update [simp]:
  "kept s (t\<lparr>hw := h\<rparr>) = kept s t" "kept s (t\<lparr>usbdfu_state := st\<rparr>) = kept s t"
  "kept s (t\<lparr>usbd_control_buffer := buf\<rparr>) = kept s t" "kept s (t\<lparr>ram_beyond := r\<rparr>) = kept s t"
  "kept s (t\<lparr>prog_buf := buf\<rparr>) = kept s t" "kept s (t\<lparr>prog_len := n\<rparr>) = kept s t"
  "kept s (t\<lparr>prog_blocknum := k\<rparr>) = kept s t" "kept s (set_ctl ws t) = kept s t"
  by (simp_all add: kept_def set_ctl_def)

definition flash_view ::
  "('h \<Rightarrow> fmc_dev) \<Rightarrow> ('h, 'm) dfu_world_scheme \<Rightarrow> fmc_dev \<times> u32 \<times> bool \<times> u32 \<times> LN_VENDOR \<times> int" where
  "flash_view dev s =
     (settled (dev (hw s)), prog_addr s, safe_erased s, cached_size s, cpu_vendor s, cpu_flashSize s)"

text \<open>The controller and the variables the guards use, between two requests.\<close>

definition flash_settled :: "('h \<Rightarrow> fmc_dev) \<Rightarrow> ('h, 'm) dfu_world_scheme \<Rightarrow> bool" where
  "flash_settled dev s \<longleftrightarrow>
     geometry (dev (hw s)) \<and> fmc_idle (dev (hw s)) \<and> page_size s = d_page (dev (hw s)) \<and>
     flash_app_end s = 0x8000000 + d_size (dev (hw s))"

lemma settled_eq:
  assumes "settled d' = settled d"
  shows "cells d' = cells d" "d_ctl d' = d_ctl d" "d_page d' = d_page d" "d_size d' = d_size d"
    "d_key1 d' = d_key1 d" "geometry d' = geometry d" "fmc_idle d' = fmc_idle d" "written d' = written d"
    "range_wiped d' = range_wiped d"
proof -
  have eq: "settled d' = (settled d)\<lparr>cells := cells d\<rparr>" using assms by (simp add: settled_def)
  note d = settled_eqD [OF eq]
  show "cells d' = cells d" "d_ctl d' = d_ctl d" "d_page d' = d_page d" "d_size d' = d_size d" "d_key1 d' = d_key1 d"
    "geometry d' = geometry d" "fmc_idle d' = fmc_idle d"
    by (simp_all add: d geometry_def fmc_idle_def)
  show wiped: "range_wiped d' = range_wiped d"
    by (simp add: range_wiped_def in_array_def page_of_def d fun_eq_iff)
  show "written d' = written d" by (simp add: written_def wiped fun_eq_iff)
qed

lemma flash_view_kept:
  "flash_view dev t = flash_view dev s \<longleftrightarrow> settled (dev (hw t)) = settled (dev (hw s)) \<and> kept s t"
  by (auto simp: flash_view_def kept_def)

lemma flash_view_eq:
  assumes "flash_view dev t = flash_view dev s"
  shows "settled (dev (hw t)) = settled (dev (hw s))" "prog_addr t = prog_addr s" "safe_erased t = safe_erased s"
    "page_size t = page_size s" "flash_app_end t = flash_app_end s" "flash_settled dev t = flash_settled dev s"
proof -
  note view = assms [unfolded flash_view_def prod.inject]
  show d: "settled (dev (hw t)) = settled (dev (hw s))" and "prog_addr t = prog_addr s" "safe_erased t = safe_erased s"
    using view by simp_all
  show "page_size t = page_size s" "flash_app_end t = flash_app_end s"
    using view page_size_cong [of t s] app_end_cong [of t s] by simp_all
  then show "flash_settled dev t = flash_settled dev s"
    by (simp add: flash_settled_def settled_eq [OF d])
qed

text \<open>The state in which the callback runs.\<close>

definition busy_state ::
  "('h \<Rightarrow> fmc_dev) \<Rightarrow> u16 \<Rightarrow> u8 list \<Rightarrow> ('h, 'm) dfu_world_scheme \<Rightarrow> ('h, 'm) dfu_world_scheme \<Rightarrow> bool" where
  "busy_state dev k bs s t \<longleftrightarrow>
     flash_view dev t = flash_view dev s \<and> usbdfu_state t = STATE_DFU_DNBUSY \<and> prog_blocknum t = k \<and>
     prog_len t = of_nat (length bs) \<and> take (length bs) (prog_buf t) = bs"

lemma host_block_busy:
  assumes "0 < length bs" "length bs \<le> DFU_TRANSFER_SIZE"
  obtains t where "host_block cfg b k bs s = usbdfu_getstatus_complete cfg b t" "busy_state dev k bs s t"
proof -
  let ?n = "of_nat (length bs) :: u16"
  have n: "unat ?n = length bs" "?n \<noteq> 0"
  proof -
    show "unat ?n = length bs" using assms(2) by (simp add: unsigned_of_nat take_bit_nat_eq_self)
    then show "?n \<noteq> 0" using assms(1) by auto
  qed
  define s2 where "s2 = s\<lparr>usbd_control_buffer := bs @ drop (length bs) (usbd_control_buffer s),
    prog_blocknum := k, prog_len := ?n, prog_buf := bs @ drop (length bs) (prog_buf s),
    usbdfu_state := STATE_DFU_DNLOAD_SYNC\<rparr>"
  have "usbdfu_control_request cfg b (dfu_request 1 k ?n) ?n
      (s\<lparr>usbd_control_buffer := bs @ drop (length bs) (usbd_control_buffer s)\<rparr>) = (USBD_REQ_HANDLED, ?n, None, s2)"
    using n assms(2) by (simp add: usbdfu_control_request_def dfu_req_of_def dfu_request_def dfu_dnload_def s2_def Let_def)
  moreover have "usbdfu_control_request cfg b (dfu_request 3 0 6) 6 s2 =
      (USBD_REQ_HANDLED, 6, Some Getstatus_complete, dfu_getstatus_reply s2)"
    by (simp add: usbdfu_control_request_def dfu_req_of_def dfu_request_def)
  ultimately have "host_block cfg b k bs s = usbdfu_getstatus_complete cfg b (dfu_getstatus_reply s2)"
    by (simp add: host_block_def usb_callback_run_def Let_def)
  moreover have "busy_state dev k bs s (dfu_getstatus_reply s2)"
    by (simp add: busy_state_def flash_view_def dfu_getstatus_reply_def usbdfu_getstatus_def set_ctl_def s2_def)
  ultimately show ?thesis by (rule that)
qed

text \<open>What a block with a number, and the address command, leave behind.\<close>

definition block_done ::
  "build \<Rightarrow> ('h \<Rightarrow> fmc_dev) \<Rightarrow> u32 \<Rightarrow> u8 list \<Rightarrow> ('h, 'm) dfu_world_scheme \<Rightarrow> ('h, 'm) dfu_world_scheme \<Rightarrow> bool" where
  "block_done cfg dev a bs s s' \<longleftrightarrow>
     usbdfu_state s' = STATE_DFU_DNLOAD_IDLE \<and> flash_settled dev s' \<and>
     cells (dev (hw s')) = written (dev (hw s)) (erase_span cfg s a (length bs)) a (length bs) bs \<and>
     d_page (dev (hw s')) = d_page (dev (hw s)) \<and> d_size (dev (hw s')) = d_size (dev (hw s)) \<and>
     flash_app_end s' = flash_app_end s \<and> (safe_erased s' \<longleftrightarrow> safe_erased s \<or> ENABLE_SAFEWRITE cfg) \<and>
     prog_addr s' = prog_addr s"

definition address_done ::
  "('h \<Rightarrow> fmc_dev) \<Rightarrow> u32 \<Rightarrow> ('h, 'm) dfu_world_scheme \<Rightarrow> ('h, 'm) dfu_world_scheme \<Rightarrow> bool" where
  "address_done dev a s s' \<longleftrightarrow>
     usbdfu_state s' = STATE_DFU_DNLOAD_IDLE \<and> flash_settled dev s' \<and>
     settled (dev (hw s')) = settled (dev (hw s)) \<and> flash_app_end s' = flash_app_end s \<and>
     safe_erased s' = safe_erased s \<and> prog_addr s' = a"

lemma block_done_view:
  assumes "block_done cfg dev a bs s t" "flash_view dev u = flash_view dev t" "usbdfu_state u = usbdfu_state t"
  shows "block_done cfg dev a bs s u"
  using assms(1, 3) flash_view_eq [OF assms(2)] settled_eq [OF flash_view_eq(1) [OF assms(2)]]
  by (simp add: block_done_def)

lemma address_done_view:
  assumes "address_done dev a s t" "flash_view dev u = flash_view dev t" "usbdfu_state u = usbdfu_state t"
  shows "address_done dev a s u"
  using assms(1, 3) flash_view_eq [OF assms(2)] by (simp add: address_done_def)

text \<open>The callback does what the block asks for.\<close>

lemma callback_programs:
  assumes "fmc_device b dev" "flash_settled dev s" "k \<noteq> 0" "0 < length bs" "length bs \<le> DFU_TRANSFER_SIZE"
    and "a = dfu_block_addr (prog_addr s) k" "unat a mod unat (d_page (dev (hw s))) = 0"
    and "0x8002000 \<le> unat a" "unat a + length bs \<le> unat (flash_app_end s)" "busy_state dev k bs s t"
  shows "\<exists>s'. usbdfu_getstatus_complete cfg b t = Some s' \<and> block_done cfg dev a bs s s'"
proof -
  have n: "unat (of_nat (length bs) :: u16) = length bs"
    using assms(5) by (simp add: unsigned_of_nat take_bit_nat_eq_self)
  have buf: "prog_buf t ! i = bs ! i" if "i < length bs" for i
    using assms(10) that by (metis busy_state_def nth_take)
  have buf': "written d sp a (length bs) (prog_buf t) = written d sp a (length bs) bs" for d sp
    unfolding written_def by (rule overlay_cong, rule buf) presburger
  note bt = assms(10) [unfolded busy_state_def] and st = assms(2) [unfolded flash_settled_def]
  have view: "flash_view dev t = flash_view dev s" using bt by simp
  note same = flash_view_eq [OF view] and eq = settled_eq [OF flash_view_eq(1) [OF view]]
  have span: "erase_span cfg t a (length bs) = erase_span cfg s a (length bs)"
    by (simp add: erase_span_def same)
  have len: "unat (prog_len t) = length bs" using bt n by simp
  have "geometry (dev (hw t))" "fmc_idle (dev (hw t))" "usbdfu_state t = STATE_DFU_DNBUSY" "prog_blocknum t \<noteq> 0"
    "page_size t = d_page (dev (hw t))" "flash_app_end t = 0x8000000 + d_size (dev (hw t))"
    "a = dfu_block_addr (prog_addr t) (prog_blocknum t)" "unat a mod unat (page_size t) = 0" "0x8002000 \<le> unat a"
    "unat a + unat (prog_len t) \<le> unat (flash_app_end t)"
    using assms(3, 6-9) bt st len same eq by simp_all
  from block_written_all [OF assms(1) this, of cfg, unfolded len buf' span] obtain s' where
    "usbdfu_getstatus_complete cfg b t = Some s' \<and> usbdfu_state s' = STATE_DFU_DNLOAD_IDLE \<and>
    fmc_idle (dev (hw s')) \<and>
    cells (dev (hw s')) = written (dev (hw t)) (erase_span cfg s a (length bs)) a (length bs) bs \<and>
    d_page (dev (hw s')) = d_page (dev (hw t)) \<and> d_size (dev (hw s')) = d_size (dev (hw t)) \<and>
    page_size s' = page_size t \<and> flash_app_end s' = flash_app_end t \<and>
    (safe_erased s' \<longleftrightarrow> safe_erased t \<or> ENABLE_SAFEWRITE cfg) \<and> prog_addr s' = prog_addr t" by blast
  then show ?thesis
    using st same eq by (intro exI [of _ s']) (simp add: block_done_def flash_settled_def geometry_def)
qed

text \<open>The address that the command of \<open>set_address\<close> names.\<close>

lemma address_read:
  assumes "busy_state dev k (set_address a) s t"
  shows "read_u32 (prog_buf t) 1 = a" "prog_buf t ! 0 = CMD_SETADDR"
proof -
  have len: "length (set_address a) = 5" by (simp add: set_address_def)
  have buf: "prog_buf t ! i = set_address a ! i" if "i < 5" for i
    using assms that len by (metis busy_state_def nth_take)
  have "read_u32 (prog_buf t) 1 = read_u32 (set_address a) 1" by (simp add: read_u32_def buf)
  also have "\<dots> = a"
    using mk32_bytes [of a] by (simp add: read_u32_def set_address_def mk32_def)
  finally show "read_u32 (prog_buf t) 1 = a" .
  show "prog_buf t ! 0 = CMD_SETADDR" using buf [of 0] by (simp add: set_address_def)
qed

lemma callback_sets_address:
  assumes "fmc_device b dev" "flash_settled dev s" "busy_state dev 0 (set_address a) s t"
  shows "\<exists>s'. usbdfu_getstatus_complete cfg b t = Some s' \<and> address_done dev a s s'"
proof -
  let ?s1 = "flash_unlock b False t" and ?D = "dev (hw t)"
  note bt = assms(3) [unfolded busy_state_def]
  have view: "flash_view dev t = flash_view dev s" using bt by simp
  note same = flash_view_eq [OF view]
  have st: "flash_settled dev t" using assms(2) same by simp
  note only1 = flash_only_eqs [OF flash_only_more [OF unlock_more [of b t]]]
  note same1 = dfu_fields_eq [OF only1(4)]
  have d1: "dev (hw ?s1) = ?D\<lparr>d_ctl := 0\<rparr>"
    using fmc_device.unlock_dev [OF assms(1), of t] st by (simp add: flash_settled_def)
  let ?s2 = "?s1\<lparr>prog_addr := a\<rparr>"
  have busy: "dfu_busy_operation cfg b ?s1 = Some ?s2"
    using bt address_read [OF assms(3)] by (simp add: dfu_busy_operation_def same1)
  have d3: "dev (hw (flash_lock b ?s2)) = ?D\<lparr>d_ctl := FLASH_CR_LOCK\<rparr>"
    using fmc_device.lock_dev [OF assms(1), of ?s2] by (simp add: d1)
  note only3 = flash_only_eqs [OF flash_only_more [OF lock_more [of b ?s2]]]
  have ps: "page_size ?s2 = page_size t" "flash_app_end ?s2 = flash_app_end t"
    using page_size_cong [of ?s2 ?s1] app_end_cong [of ?s2 t] only1 by simp_all
  have "flash_app_end (flash_lock b ?s2) = flash_app_end t"
    using app_end_cong [OF only3(2)] ps(2) by simp
  moreover have "?D = ?D\<lparr>d_ctl := FLASH_CR_LOCK\<rparr>"
    using st by (simp add: flash_settled_def fmc_idle_def)
  ultimately show ?thesis
    using bt st busy d3 only3 only1 ps dfu_fields_eq [OF only3(4)] same
    by (intro exI [of _ "(flash_lock b ?s2)\<lparr>usbdfu_state := STATE_DFU_DNLOAD_IDLE\<rparr>"])
      (simp add: usbdfu_getstatus_complete_def address_done_def flash_settled_def)
qed

section \<open>What the host relies on\<close>

text \<open>The contract of one block transfer: blocks with a number are programmed, the address command sets
  the address, the empty block ends the download. \<open>I\<close> is what the transfers themselves keep.\<close>

locale block_host =
  fixes cfg :: build and dev :: "'h \<Rightarrow> fmc_dev"
    and blk :: "u16 \<Rightarrow> u8 list \<Rightarrow> ('h, 'm) dfu_world_scheme \<Rightarrow> ('h, 'm) dfu_world_scheme option"
    and I :: "('h, 'm) dfu_world_scheme \<Rightarrow> bool"
  assumes programs: "I s \<Longrightarrow> flash_settled dev s \<Longrightarrow> k \<noteq> 0 \<Longrightarrow> 0 < length bs \<Longrightarrow> length bs \<le> DFU_TRANSFER_SIZE \<Longrightarrow>
      a = dfu_block_addr (prog_addr s) k \<Longrightarrow> unat a mod unat (d_page (dev (hw s))) = 0 \<Longrightarrow> 0x8002000 \<le> unat a \<Longrightarrow>
      unat a + length bs \<le> unat (flash_app_end s) \<Longrightarrow>
      \<exists>s'. blk k bs s = Some s' \<and> I s' \<and> block_done cfg dev a bs s s'"
    and takes_address: "I s \<Longrightarrow> flash_settled dev s \<Longrightarrow> unat a \<le> unat (flash_app_end s) \<Longrightarrow>
      \<exists>s'. blk 0 (set_address a) s = Some s' \<and> I s' \<and> address_done dev a s s'"
    and finishes: "I s \<Longrightarrow> flash_settled dev s \<Longrightarrow>
      \<exists>s'. blk 0 [] s = Some s' \<and> I s' \<and> usbdfu_state s' = STATE_DFU_MANIFEST \<and> flash_view dev s' = flash_view dev s"

lemma class_host:
  assumes "fmc_device b dev"
  shows "block_host cfg dev (host_block cfg b) (\<lambda>_. True)"
proof
  fix s :: "('a, 'b) dfu_world_scheme" and k :: u16 and bs :: "u8 list" and a :: u32
  assume st: "flash_settled dev s" and n: "0 < length bs" "length bs \<le> DFU_TRANSFER_SIZE"
    and *: "k \<noteq> 0" "a = dfu_block_addr (prog_addr s) k" "unat a mod unat (d_page (dev (hw s))) = 0"
      "0x8002000 \<le> unat a" "unat a + length bs \<le> unat (flash_app_end s)"
  obtain t where t: "host_block cfg b k bs s = usbdfu_getstatus_complete cfg b t" "busy_state dev k bs s t"
    by (rule host_block_busy [OF n])
  show "\<exists>s'. host_block cfg b k bs s = Some s' \<and> True \<and> block_done cfg dev a bs s s'"
    using callback_programs [OF assms st *(1) n *(2-5) t(2)] t(1) by simp
next
  fix s :: "('a, 'b) dfu_world_scheme" and a :: u32
  assume st: "flash_settled dev s"
  obtain t where t: "host_block cfg b 0 (set_address a) s = usbdfu_getstatus_complete cfg b t"
    "busy_state dev 0 (set_address a) s t"
    by (rule host_block_busy [of "set_address a"]) (simp_all add: set_address_def)
  show "\<exists>s'. host_block cfg b 0 (set_address a) s = Some s' \<and> True \<and> address_done dev a s s'"
    using callback_sets_address [OF assms st t(2)] t(1) by simp
next
  fix s :: "('a, 'b) dfu_world_scheme"
  let ?s = "(dfu_getstatus_reply (s\<lparr>usbdfu_state := STATE_DFU_MANIFEST_SYNC\<rparr>))"
  have "host_block cfg b 0 [] s = Some ?s"
    by (simp add: host_block_def usbdfu_control_request_def dfu_req_of_def dfu_request_def dfu_dnload_def
        usb_callback_run_def usbdfu_getstatus_complete_def dfu_getstatus_reply_def usbdfu_getstatus_def set_ctl_def Let_def)
  moreover have "usbdfu_state ?s = STATE_DFU_MANIFEST" "flash_view dev ?s = flash_view dev s"
    by (simp_all add: flash_view_def dfu_getstatus_reply_def usbdfu_getstatus_def set_ctl_def)
  ultimately show "\<exists>s'. host_block cfg b 0 [] s = Some s' \<and> True \<and> usbdfu_state s' = STATE_DFU_MANIFEST \<and>
      flash_view dev s' = flash_view dev s" by blast
qed

interpretation fmch: block_host cfg "\<lambda>d. d" "host_block cfg fmc_bus" "\<lambda>_. True" for cfg
  by (rule class_host [OF fmc.fmc_device_axioms])

section \<open>Block after block\<close>

lemma unat_minus_less:
  fixes x a :: u32
  assumes "unat a + n \<le> 2 ^ 32"
  shows "unat (x - a) < n \<longleftrightarrow> unat a \<le> unat x \<and> unat x < unat a + n"
    and "unat a \<le> unat x \<Longrightarrow> unat (x - a) = unat x - unat a"
proof -
  show eq: "unat (x - a) = unat x - unat a" if "unat a \<le> unat x"
    using that by (simp add: unat_sub word_le_nat_alt)
  have "unat (x - a) = 2 ^ 32 + unat x - unat a" if "\<not> unat a \<le> unat x"
    using that by (simp add: unat_sub_if')
  then show "unat (x - a) < n \<longleftrightarrow> unat a \<le> unat x \<and> unat x < unat a + n"
    using eq assms by (cases "unat a \<le> unat x") auto
qed

text \<open>What \<open>written\<close> says of one address, without wrap-around.\<close>

lemma written_at:
  assumes "unat a + n \<le> 2 ^ 32" "even n"
  shows "written d sp a n bs x =
    (if unat a \<le> unat x \<and> unat x < unat a + n then bs ! (unat x - unat a) else range_wiped d (fst sp) (snd sp) x)"
proof -
  have "2 * (n div 2) = n" using assms(2) by simp
  then show ?thesis using unat_minus_less [OF assms(1), of x] by (auto simp: written_def overlay_def)
qed

lemma written_append:
  assumes g: "geometry d" and m: "unat (d_page d) dvd m" "even m" "even n" "length bs1 = m"
    and a: "unat (d_page d) dvd unat a" "unat a + m + n < 2 ^ 32"
    and sp: "lo \<le> a" "a + of_nat m \<le> hi"
    and d': "in_array d' = in_array d" "page_of d' = page_of d" "cells d' = written d (lo, hi) a m bs1"
  shows "written d' (a + of_nat m, a + of_nat m + of_nat n) (a + of_nat m) n bs2 =
    written d (lo, max hi (a + of_nat (m + n))) a (m + n) (bs1 @ bs2)"
proof
  fix x
  let ?p = "unat (page_of d x)"
  have um: "unat (a + of_nat m) = unat a + m" "unat (a + of_nat m + of_nat n) = unat a + m + n"
    "unat (a + of_nat (m + n)) = unat a + m + n"
    using a(2) by (simp_all add: unat_word_ariths unsigned_of_nat take_bit_eq_mod mod_simps)
  have page: "?p = unat x - unat x mod unat (d_page d)" by (rule unat_page_of [OF g])
  have below: "unat a + m \<le> ?p \<longleftrightarrow> unat a + m \<le> unat x"
  proof -
    have "unat (d_page d) dvd unat a + m" using a(1) m(1) by simp
    then have "unat a + m \<le> unat x - unat x mod unat (d_page d)" if "unat a + m \<le> unat x"
      using that by (metis div_mult_self_is_m div_le_mono dvd_div_mult_self minus_mod_eq_div_mult mult_le_mono1)
    then show ?thesis unfolding page by (meson diff_le_self le_trans)
  qed
  have hi: "unat a + m \<le> unat hi" using sp(2) um(1) by (simp add: word_le_nat_alt)
  have lo: "unat lo \<le> unat a" using sp(1) by (simp add: word_le_nat_alt)
  have le: "unat a + m \<le> 2 ^ 32" "unat (a + of_nat m) + n \<le> 2 ^ 32" "unat a + (m + n) \<le> 2 ^ 32"
    using a(2) um by simp_all
  have mx: "unat (max hi (a + of_nat (m + n))) = max (unat hi) (unat a + m + n)"
    using um(3) by (simp add: max_def word_le_nat_alt)
  show "written d' (a + of_nat m, a + of_nat m + of_nat n) (a + of_nat m) n bs2 x =
    written d (lo, max hi (a + of_nat (m + n))) a (m + n) (bs1 @ bs2) x"
  proof -
    have e: "even (m + n)" using m by simp
    note unfold = written_at [OF le(2) m(3), of d'] written_at [OF le(3) e, of d] range_wiped_def d'
      written_at [OF le(1) m(2), of d] fst_conv snd_conv word_le_nat_alt word_less_nat_alt um mx
    consider "unat a \<le> unat x" "unat x < unat a + m" | "unat a + m \<le> unat x" "unat x < unat a + m + n"
      | "unat x < unat a \<or> unat a + m + n \<le> unat x" by linarith
    then show ?thesis
    proof cases
      case 1
      then have "unat x - unat a < m" by linarith
      with 1 show ?thesis unfolding unfold below by (simp add: nth_append m(4))
    next
      case 2
      then have "\<not> unat x - unat a < m" by linarith
      with 2 show ?thesis unfolding unfold by (simp add: nth_append m(4))
    next
      case 3
      then have "\<not> (unat a + m \<le> unat x \<and> unat x < unat a + m + n)"
        "\<not> (unat a \<le> unat x \<and> unat x < unat a + m)" "\<not> (unat a \<le> unat x \<and> unat x < unat a + (m + n))"
        by linarith+
      then show ?thesis unfolding unfold using hi lo by (simp only: if_False) (auto simp: not_less)
    qed
  qed
qed

lemma next_block_addr:
  fixes k :: u16
  assumes "unat k + 1 < 2 ^ 16"
  shows "dfu_block_addr addr (k + 1) = dfu_block_addr addr k + of_nat DFU_TRANSFER_SIZE" "unat (k + 1) = unat k + 1"
proof -
  show k1: "unat (k + 1) = unat k + 1" using assms by (simp add: unat_word_ariths)
  have "(ucast (k + 1) :: u32) = of_nat (unat (k + 1))" "(ucast k :: u32) = of_nat (unat k)" by simp_all
  then have "(ucast (k + 1) :: u32) = ucast k + 1" by (simp only: k1 of_nat_add of_nat_1)
  then show "dfu_block_addr addr (k + 1) = dfu_block_addr addr k + of_nat DFU_TRANSFER_SIZE"
    by (simp add: dfu_block_addr_def algebra_simps)
qed

lemma settled_end:
  assumes "flash_settled dev s"
  shows "unat (flash_app_end s) \<le> 0xC000000" "unat (d_page (dev (hw s))) dvd DFU_TRANSFER_SIZE"
    "unat (d_page (dev (hw s))) dvd 0x8002000"
  using assms by (auto simp: flash_settled_def geometry_def unat_word_ariths word_le_nat_alt)

lemma erase_span_grows:
  assumes "erase_span cfg s a m = (lo, hi)" "0x8002000 \<le> unat a"
    and "unat a + (m + n) \<le> unat (flash_app_end s)" "unat (flash_app_end s) \<le> 0xC000000"
  shows "lo \<le> a" "a + of_nat m \<le> hi" "(lo, max hi (a + of_nat (m + n))) = erase_span cfg s a (m + n)"
proof -
  have u: "unat (a + of_nat i) = unat a + i" if "i \<le> m + n" for i
    using that assms(3, 4) by (simp add: unat_word_ariths unsigned_of_nat take_bit_eq_mod mod_simps)
  have "flash_app_start \<le> a" using assms(2) by (simp add: flash_app_start_def word_le_nat_alt)
  moreover have "a + of_nat i \<le> flash_app_end s" if "i \<le> m + n" for i
    unfolding word_le_nat_alt u [OF that] using that assms(3) by simp
  moreover have "a + of_nat m \<le> a + of_nat (m + n)" using u [of m] u [of "m + n"] by (simp add: word_le_nat_alt)
  ultimately show "lo \<le> a" "a + of_nat m \<le> hi" "(lo, max hi (a + of_nat (m + n))) = erase_span cfg s a (m + n)"
    using assms(1) by (auto simp: erase_span_def max_def simp del: of_nat_add split: if_splits intro: order.antisym)
qed

context block_host begin

lemma download_blocks:
  assumes "I s" "flash_settled dev s" "img \<noteq> []" "2 \<le> unat k" "unat k + length (chunks img) \<le> 2 ^ 16"
    and "even (length img)" "a = dfu_block_addr (prog_addr s) k" "unat (d_page (dev (hw s))) dvd unat a"
    and "0x8002000 \<le> unat a" "unat a + length img \<le> unat (flash_app_end s)"
  shows "\<exists>s'. host_download blk k (chunks img) s = Some s' \<and> I s' \<and> usbdfu_state s' = STATE_DFU_DNLOAD_IDLE \<and>
    flash_settled dev s' \<and> prog_addr s' = prog_addr s \<and> flash_app_end s' = flash_app_end s \<and>
    d_page (dev (hw s')) = d_page (dev (hw s)) \<and> d_size (dev (hw s')) = d_size (dev (hw s)) \<and>
    cells (dev (hw s')) = written (dev (hw s)) (erase_span cfg s a (length img)) a (length img) img"
  using assms
proof (induction img arbitrary: s k a rule: chunks.induct)
  case (1 img)
  define bs where "bs = take DFU_TRANSFER_SIZE img"
  define rest where "rest = drop DFU_TRANSFER_SIZE img"
  have img: "img = bs @ rest" "chunks img = bs # chunks rest"
    using "1.prems"(3) by (simp_all add: bs_def rest_def chunks.simps [of img])
  have len: "0 < length bs" "length bs \<le> DFU_TRANSFER_SIZE" using "1.prems"(3) by (simp_all add: bs_def)
  have room: "unat a + length bs \<le> unat (flash_app_end s)" using "1.prems"(10) img(1) by simp
  have k: "k \<noteq> 0" using "1.prems"(4) by auto
  have al: "unat a mod unat (d_page (dev (hw s))) = 0" using "1.prems"(8) by simp
  obtain s1 where s1: "blk k bs s = Some s1" "usbdfu_state s1 = STATE_DFU_DNLOAD_IDLE" "flash_settled dev s1"
    "cells (dev (hw s1)) = written (dev (hw s)) (erase_span cfg s a (length bs)) a (length bs) bs"
    "d_page (dev (hw s1)) = d_page (dev (hw s))" "d_size (dev (hw s1)) = d_size (dev (hw s))"
    "flash_app_end s1 = flash_app_end s" "safe_erased s1 \<longleftrightarrow> safe_erased s \<or> ENABLE_SAFEWRITE cfg"
    "prog_addr s1 = prog_addr s" "I s1"
    using programs [OF "1.prems"(1, 2) k len "1.prems"(7) al "1.prems"(9) room] by (auto simp: block_done_def)
  show ?case
  proof (cases "rest = []")
    case True
    then show ?thesis using s1 img by (simp add: chunks.simps [of "[]"])
  next
    case False
    have full: "length bs = DFU_TRANSFER_SIZE" using False by (simp add: bs_def rest_def)
    have "1 \<le> length (chunks rest)" using False by (simp add: chunks.simps [of rest])
    then have k1: "unat k + 1 < 2 ^ 16" using "1.prems"(5) unfolding img(2) list.size by linarith
    note nxt = next_block_addr [OF k1]
    let ?a = "a + of_nat (length bs)"
    have end1: "unat (flash_app_end s) \<le> 0xC000000" by (rule settled_end [OF "1.prems"(2)])
    have ua: "unat ?a = unat a + length bs"
      using room end1 by (simp add: unat_word_ariths unsigned_of_nat take_bit_eq_mod mod_simps)
    have sum: "length img = length bs + length rest" by (simp add: img(1))
    have dvd: "unat (d_page (dev (hw s))) dvd length bs" using settled_end(2) [OF "1.prems"(2)] full by simp
    have "\<exists>s'. host_download blk (k + 1) (chunks rest) s1 = Some s' \<and> I s' \<and> usbdfu_state s' = STATE_DFU_DNLOAD_IDLE \<and>
      flash_settled dev s' \<and> prog_addr s' = prog_addr s1 \<and> flash_app_end s' = flash_app_end s1 \<and>
      d_page (dev (hw s')) = d_page (dev (hw s1)) \<and> d_size (dev (hw s')) = d_size (dev (hw s1)) \<and>
      cells (dev (hw s')) = written (dev (hw s1)) (erase_span cfg s1 ?a (length rest)) ?a (length rest) rest"
    proof (rule "1.IH" [OF "1.prems"(3), folded rest_def, OF s1(10, 3) False])
      show "2 \<le> unat (k + 1)" using nxt(2) "1.prems"(4) by simp
      show "unat (k + 1) + length (chunks rest) \<le> 2 ^ 16" using nxt(2) "1.prems"(5) img(2) by simp
      show "even (length rest)" using "1.prems"(6) sum full by simp
      show "?a = dfu_block_addr (prog_addr s1) (k + 1)" using nxt(1) "1.prems"(7) s1(9) full by simp
      show "unat (d_page (dev (hw s1))) dvd unat ?a" using dvd "1.prems"(8) s1(5) ua by simp
      show "0x8002000 \<le> unat ?a" "unat ?a + length rest \<le> unat (flash_app_end s1)"
        using ua "1.prems"(9, 10) s1(7) sum by simp_all
    qed
    then obtain s' where s': "host_download blk (k + 1) (chunks rest) s1 = Some s'" "I s'" "usbdfu_state s' = STATE_DFU_DNLOAD_IDLE"
      "flash_settled dev s'" "prog_addr s' = prog_addr s1" "flash_app_end s' = flash_app_end s1"
      "d_page (dev (hw s')) = d_page (dev (hw s1))" "d_size (dev (hw s')) = d_size (dev (hw s1))"
      "cells (dev (hw s')) = written (dev (hw s1)) (erase_span cfg s1 ?a (length rest)) ?a (length rest) rest"
      by blast
    obtain lo hi where sp: "erase_span cfg s a (length bs) = (lo, hi)" by fastforce
    have le: "lo \<le> a" "?a \<le> hi" "(lo, max hi (a + of_nat (length bs + length rest))) = erase_span cfg s a (length img)"
      using erase_span_grows [OF sp "1.prems"(9), of "length rest"] room "1.prems"(10) end1 sum by simp_all
    have "erase_span cfg s1 ?a (length rest) = (?a, ?a + of_nat (length rest))"
      using s1(8) by (auto simp: erase_span_def)
    moreover have "geometry (dev (hw s))" using "1.prems"(2) by (simp add: flash_settled_def)
    moreover have "in_array (dev (hw s1)) = in_array (dev (hw s))" "page_of (dev (hw s1)) = page_of (dev (hw s))"
      by (simp_all add: in_array_def page_of_def s1(5, 6) fun_eq_iff)
    ultimately have "written (dev (hw s1)) (erase_span cfg s1 ?a (length rest)) ?a (length rest) rest =
        written (dev (hw s)) (erase_span cfg s a (length img)) a (length img) img"
      using written_append [where d = "dev (hw s)" and d' = "dev (hw s1)" and n = "length rest" and ?bs2.0 = rest,
          OF _ dvd _ _ refl "1.prems"(8) _ le(1, 2)] s1(4) sp full "1.prems"(6, 10) sum end1 le(3) img(1) by simp
    then have "cells (dev (hw s')) = written (dev (hw s)) (erase_span cfg s a (length img)) a (length img) img"
      using s'(9) by simp
    then show ?thesis using s1 s' img(2) by auto
  qed
qed

end

lemma chunks_count: "length (chunks img) * DFU_TRANSFER_SIZE < length img + DFU_TRANSFER_SIZE"
proof (induction img rule: chunks.induct)
  case (1 img)
  then show ?case
    by (cases "length img \<le> DFU_TRANSFER_SIZE") (subst chunks.simps, simp add: chunks.simps [of "[]"])+
qed

text \<open>The flash after a download of \<open>img\<close> to \<open>a\<close>.\<close>

definition flashed :: "build \<Rightarrow> fmc_dev \<Rightarrow> ('h, 'm) dfu_world_scheme \<Rightarrow> u32 \<Rightarrow> u8 list \<Rightarrow> u32 \<Rightarrow> u8" where
  "flashed cfg d s a img x =
     (if unat a \<le> unat x \<and> unat x < unat a + length img then img ! (unat x - unat a)
      else case erase_span cfg s a (length img) of (lo, hi) \<Rightarrow> range_wiped d lo hi x)"

context block_host begin

lemma image_downloaded:
  assumes "I s" "flash_settled dev s" "img \<noteq> []" "even (length img)"
    and "unat (d_page (dev (hw s))) dvd unat a" "0x8002000 \<le> unat a" "unat a + length img \<le> unat (flash_app_end s)"
  obtains s1 s2 where "blk 0 (set_address a) s = Some s1" "host_download blk 2 (chunks img) s1 = Some s2" "I s2"
    "usbdfu_state s2 = STATE_DFU_DNLOAD_IDLE" "flash_settled dev s2" "prog_addr s2 = a"
    "flash_app_end s2 = flash_app_end s" "cells (dev (hw s2)) = flashed cfg (dev (hw s)) s a img"
    "d_size (dev (hw s2)) = d_size (dev (hw s))"
proof -
  obtain s1 where s1: "blk 0 (set_address a) s = Some s1" "I s1" "flash_settled dev s1"
    "settled (dev (hw s1)) = settled (dev (hw s))" "flash_app_end s1 = flash_app_end s"
    "safe_erased s1 \<longleftrightarrow> safe_erased s" "prog_addr s1 = a"
    using takes_address [OF assms(1, 2), of a] assms(7) by (auto simp: address_done_def)
  note eq = settled_eq [OF s1(4)]
  have end1: "unat (flash_app_end s) \<le> 0xC000000" by (rule settled_end [OF assms(2)])
  have count: "unat (2 :: u16) + length (chunks img) \<le> 2 ^ 16"
    using chunks_count [of img] assms(6, 7) end1 by simp
  have k2: "2 \<le> unat (2 :: u16)" "a = dfu_block_addr (prog_addr s1) 2" by (simp_all add: dfu_block_addr_def s1(7))
  have "unat (d_page (dev (hw s1))) dvd unat a" "unat a + length img \<le> unat (flash_app_end s1)"
    using assms(5, 7) s1(5) eq by simp_all
  from download_blocks [OF s1(2, 3) assms(3) k2(1) count assms(4) k2(2) this(1) assms(6) this(2)]
  obtain s2 where s2: "host_download blk 2 (chunks img) s1 = Some s2" "I s2" "usbdfu_state s2 = STATE_DFU_DNLOAD_IDLE"
    "flash_settled dev s2" "prog_addr s2 = prog_addr s1" "flash_app_end s2 = flash_app_end s1"
    "d_size (dev (hw s2)) = d_size (dev (hw s1))"
    "cells (dev (hw s2)) = written (dev (hw s1)) (erase_span cfg s1 a (length img)) a (length img) img"
    by blast
  have "erase_span cfg s1 a (length img) = erase_span cfg s a (length img)"
    by (simp add: erase_span_def s1(5, 6))
  moreover have "unat a + length img \<le> 2 ^ 32" using assms(7) end1 by simp
  ultimately have "cells (dev (hw s2)) = flashed cfg (dev (hw s)) s a img"
    using written_at [OF _ assms(4)] s2(8) eq by (auto simp: flashed_def fun_eq_iff case_prod_beta)
  with s1 s2 eq show ?thesis by (intro that [of s1 s2]) simp_all
qed

lemma session_done:
  assumes "I s" "flash_settled dev s" "img \<noteq> []" "even (length img)"
    and "unat (d_page (dev (hw s))) dvd unat a" "0x8002000 \<le> unat a" "unat a + length img \<le> unat (flash_app_end s)"
  shows "\<exists>s'. host_session blk a img s = Some s' \<and> I s' \<and> usbdfu_state s' = STATE_DFU_MANIFEST \<and>
    flash_settled dev s' \<and> cells (dev (hw s')) = flashed cfg (dev (hw s)) s a img"
proof -
  obtain s1 s2 where s12: "blk 0 (set_address a) s = Some s1" "host_download blk 2 (chunks img) s1 = Some s2" "I s2"
    "flash_settled dev s2" "cells (dev (hw s2)) = flashed cfg (dev (hw s)) s a img"
    by (rule image_downloaded [OF assms])
  obtain s' where s': "blk 0 [] s2 = Some s'" "I s'" "usbdfu_state s' = STATE_DFU_MANIFEST"
    "flash_view dev s' = flash_view dev s2"
    using finishes [OF s12(3, 4)] by blast
  then show ?thesis
    using s12 flash_view_eq [OF s'(4)] settled_eq [OF flash_view_eq(1) [OF s'(4)]]
    by (auto simp: host_session_def)
qed

end

section \<open>Reading back\<close>

text \<open>The flash read byte by byte.\<close>

locale fmc_readable = fmc_device +
  assumes byte_value: "in_array (dev h) a \<Longrightarrow> fst (ld8 b a h) = cells (dev h) a"
    and byte_load: "in_array (dev h) a \<Longrightarrow> dev (snd (ld8 b a h)) = dev h"
begin

lemma bytes_read:
  assumes "\<And>i. i < n \<Longrightarrow> in_array (dev (hw s)) (a + of_nat i)"
  shows "fst (read_bytes b a n s) = map (\<lambda>i. cells (dev (hw s)) (a + of_nat i)) [0..<n] \<and>
    dev (hw (snd (read_bytes b a n s))) = dev (hw s)"
  using assms
proof (induction n arbitrary: a s)
  case (Suc n)
  have here: "in_array (dev (hw s)) a" using Suc.prems [of 0] by simp
  let ?s = "snd (rd8 b a s)"
  have d: "dev (hw ?s) = dev (hw s)" using byte_load [OF here] by simp
  have "in_array (dev (hw ?s)) (a + 1 + of_nat i)" if "i < n" for i
    unfolding d using Suc.prems [of "Suc i"] that by (simp add: ac_simps)
  note IH = Suc.IH [OF this]
  have "[0..<Suc n] = 0 # map Suc [0..<n]" by (simp add: upt_conv_Cons map_Suc_upt del: upt_Suc)
  then show ?case using IH byte_value [OF here] byte_load [OF here]
    by (simp add: case_prod_beta d comp_def ac_simps del: upt_Suc)
qed simp

end

interpretation fmcr: fmc_readable fmc_bus "\<lambda>d. d"
  by unfold_locales (simp_all add: fmc_bus_def)

definition host_upload ::
  "build \<Rightarrow> 'h bus \<Rightarrow> u16 \<Rightarrow> ('h, 'm) dfu_world_scheme \<Rightarrow> u8 list \<times> ('h, 'm) dfu_world_scheme" where
  "host_upload cfg b k s =
     (let n = of_nat DFU_TRANSFER_SIZE; (_, n', _, s') = usbdfu_control_request cfg b (dfu_request 2 k n) n s
      in (take (unat n') (usbd_control_buffer s'), s'))"

lemma block_addr:
  assumes "j + 2 < 2 ^ 16"
  shows "dfu_block_addr a (2 + of_nat j) = a + of_nat (DFU_TRANSFER_SIZE * j)" "2 + of_nat j \<noteq> (0 :: u16)"
proof -
  have u: "unat (2 + of_nat j :: u16) = 2 + j"
    using assms by (simp add: unat_word_ariths unsigned_of_nat take_bit_eq_mod mod_simps)
  then show "2 + of_nat j \<noteq> (0 :: u16)" by auto
  have "(ucast (2 + of_nat j :: u16) :: u32) = of_nat (unat (2 + of_nat j :: u16))" by simp
  then show "dfu_block_addr a (2 + of_nat j) = a + of_nat (DFU_TRANSFER_SIZE * j)"
    by (simp only: u dfu_block_addr_def) (simp add: algebra_simps)
qed

lemma settled_size:
  assumes "flash_settled dev s"
  shows "unat (flash_app_end s) = 0x8000000 + unat (d_size (dev (hw s)))"
  using assms by (auto simp: flash_settled_def geometry_def unat_word_ariths word_le_nat_alt)

text \<open>UPLOAD of a full block of an image in the flash.\<close>

lemma upload_reads:
  fixes t :: "('h, 'm) dfu_world_scheme"
  assumes "fmc_readable b dev" "flash_settled dev t" "cells (dev (hw t)) = flashed cfg d s (prog_addr t) img"
    and "ENABLE_DFU_UPLOAD cfg" "0x8002000 \<le> unat (prog_addr t)" "unat (prog_addr t) + length img \<le> unat (flash_app_end t)"
    and "DFU_TRANSFER_SIZE * Suc j \<le> length img" "wValue req = 2 + of_nat j"
    and "blk = take DFU_TRANSFER_SIZE (drop (DFU_TRANSFER_SIZE * j) img)"
  obtains t' where "dfu_upload cfg b req t = (of_nat DFU_TRANSFER_SIZE, t')" "dev (hw t') = dev (hw t)"
    "world.more t' = world.more (t\<lparr>usbdfu_state := STATE_DFU_UPLOAD_IDLE, usbd_control_buffer := blk\<rparr>)"
proof -
  let ?o = "DFU_TRANSFER_SIZE * j" and ?a = "prog_addr t"
  let ?t = "t\<lparr>usbdfu_state := STATE_DFU_UPLOAD_IDLE\<rparr>"
  have end1: "unat (flash_app_end t) \<le> 0xC000000" by (rule settled_end [OF assms(2)])
  have room: "unat ?a + ?o + DFU_TRANSFER_SIZE \<le> unat (flash_app_end t)" using assms(6, 7) by simp
  have j: "j + 2 < 2 ^ 16" using assms(5) room end1 by simp
  note base = block_addr [OF j]
  have u: "unat (?a + of_nat ?o + of_nat i) = unat ?a + ?o + i" if "i \<le> DFU_TRANSFER_SIZE" for i
    using that room end1 by (simp add: unat_word_ariths unsigned_of_nat take_bit_eq_mod mod_simps)
  have guard: "flash_app_start \<le> ?a + of_nat ?o" "?a + of_nat ?o + of_nat DFU_TRANSFER_SIZE \<le> flash_app_end t"
    using u [of 0] u [of DFU_TRANSFER_SIZE] assms(5) room by (simp_all add: word_le_nat_alt flash_app_start_def)
  have inn: "in_array (dev (hw ?t)) (?a + of_nat ?o + of_nat i)" if "i < DFU_TRANSFER_SIZE" for i
    using that u [of i] room assms(2, 5) settled_size [OF assms(2)]
    by (subst in_array_unat) (simp_all add: flash_settled_def)
  let ?r = "read_bytes b (?a + of_nat ?o) DFU_TRANSFER_SIZE ?t"
  have read: "fst ?r = map (\<lambda>i. cells (dev (hw t)) (?a + of_nat ?o + of_nat i)) [0..<DFU_TRANSFER_SIZE]"
    "dev (hw (snd ?r)) = dev (hw t)"
    using fmc_readable.bytes_read [OF assms(1), of DFU_TRANSFER_SIZE ?t "?a + of_nat ?o"] inn by simp_all
  have "cells (dev (hw t)) (?a + of_nat ?o + of_nat i) = img ! (?o + i)" if "i < DFU_TRANSFER_SIZE" for i
    using that u [of i] assms(7) by (simp add: assms(3) flashed_def)
  then have "fst ?r = map (\<lambda>i. img ! (?o + i)) [0..<DFU_TRANSFER_SIZE]"
    unfolding read by (intro map_cong refl) simp
  also have "\<dots> = blk"
    using assms(7) unfolding assms(9) by (intro nth_equalityI) simp_all
  finally have bytes: "fst ?r = blk" .
  show ?thesis
  proof (rule that)
    show "dfu_upload cfg b req t = (of_nat DFU_TRANSFER_SIZE, (snd ?r)\<lparr>usbd_control_buffer := blk\<rparr>)"
      using guard bytes assms(4, 8) base by (simp add: dfu_upload_def case_prod_beta Let_def)
    show "world.more ((snd ?r)\<lparr>usbd_control_buffer := blk\<rparr>) =
        world.more (t\<lparr>usbdfu_state := STATE_DFU_UPLOAD_IDLE, usbd_control_buffer := blk\<rparr>)"
      using more_read_bytes [of b "?a + of_nat ?o" DFU_TRANSFER_SIZE ?t]
      by (cases "snd ?r"; cases t) simp
  qed (use read(2) in simp)
qed

section \<open>Properties\<close>

text \<open>C5: a whole session programs the image: on a controller as documented, the address command, the
  blocks of the image and the zero-length block all succeed and leave the device about to reset,
  the controller locked, exactly the bytes of the image at its address, the other bytes of the pages
  it touches erased (in a safe-write build all of the application's, on the first download), and
  every other byte as it was.\<close>

theorem session_programs_image:
  assumes "fmc_device b dev" "flash_settled dev s" "img \<noteq> []" "even (length img)"
    and "unat (d_page (dev (hw s))) dvd unat a" "0x8002000 \<le> unat a" "unat a + length img \<le> unat (flash_app_end s)"
  shows "\<exists>s'. host_session (host_block cfg b) a img s = Some s' \<and> usbdfu_state s' = STATE_DFU_MANIFEST \<and>
    flash_settled dev s' \<and> cells (dev (hw s')) = flashed cfg (dev (hw s)) s a img"
  using block_host.session_done [OF class_host [OF assms(1)] TrueI assms(2-7)] by blast

lemma demo_settled:
  "flash_settled (\<lambda>d. d) (usb_boot flash_demo (\<lambda>_. 0))" "flash_app_end (usb_boot flash_demo (\<lambda>_. 0)) = 0x8010000"
  using geometry_demo
  by (simp_all add: flash_settled_def usb_boot_def fmc_idle_def page_size_def get_flash_page_size_def
      lnCpuID_vendor_def flash_app_end_def lnCpuID_flashSize_def Let_def) (simp_all add: flash_demo_def)

text \<open>Five thousand bytes at 0x8002400.\<close>

lemma session_programs_image_witness:
  "\<exists>s'. host_session (host_block (cmake_build False) fmc_bus) 0x8002400 (replicate 5000 7) (usb_boot flash_demo (\<lambda>_. 0)) = Some s' \<and>
    usbdfu_state s' = STATE_DFU_MANIFEST \<and> cells (hw s') 0x8003787 = 7 \<and> cells (hw s') 0x8003788 = 0xFF"
proof -
  let ?s = "usb_boot flash_demo (\<lambda>_. 0)"
  have d: "hw ?s = flash_demo" "d_page flash_demo = 1024" by (simp_all add: usb_boot_def flash_demo_def)
  obtain s' where "host_session (host_block (cmake_build False) fmc_bus) 0x8002400 (replicate 5000 7) ?s = Some s'"
    "usbdfu_state s' = STATE_DFU_MANIFEST" "cells (hw s') = flashed (cmake_build False) flash_demo ?s 0x8002400 (replicate 5000 7)"
    using session_programs_image [OF fmc.fmc_device_axioms demo_settled(1), of "replicate 5000 7" "0x8002400" "cmake_build False"]
    by (auto simp: demo_settled(2) d)
  then show ?thesis
    by (intro exI [of _ s'])
      (simp add: flashed_def erase_span_def cmake_build_def range_wiped_def in_array_def flash_demo_def page_of_def)
qed

text \<open>C7: what a session has written can be read back: after the download, UPLOAD of block \<open>j + 2\<close> answers
  with the \<open>j\<close>-th full block of the image, and reading changes nothing in the flash.\<close>

theorem download_upload_roundtrip:
  assumes "fmc_readable b dev" "flash_settled dev s" "even (length img)" "ENABLE_DFU_UPLOAD cfg"
    and "unat (d_page (dev (hw s))) dvd unat a" "0x8002000 \<le> unat a" "unat a + length img \<le> unat (flash_app_end s)"
    and "DFU_TRANSFER_SIZE * Suc j \<le> length img"
  shows "\<exists>s1 s2. host_block cfg b 0 (set_address a) s = Some s1 \<and> host_download (host_block cfg b) 2 (chunks img) s1 = Some s2 \<and>
    fst (host_upload cfg b (2 + of_nat j) s2) = take DFU_TRANSFER_SIZE (drop (DFU_TRANSFER_SIZE * j) img) \<and>
    dev (hw (snd (host_upload cfg b (2 + of_nat j) s2))) = dev (hw s2)"
proof -
  have dv: "fmc_device b dev" using assms(1) by (simp add: fmc_readable_def)
  have "img \<noteq> []" using assms(8) by auto
  obtain s1 s2 where s12: "host_block cfg b 0 (set_address a) s = Some s1" "host_download (host_block cfg b) 2 (chunks img) s1 = Some s2"
    "flash_settled dev s2" "prog_addr s2 = a" "flash_app_end s2 = flash_app_end s"
    "cells (dev (hw s2)) = flashed cfg (dev (hw s)) s a img" "d_size (dev (hw s2)) = d_size (dev (hw s))"
    by (rule block_host.image_downloaded [OF class_host [OF dv] TrueI assms(2) \<open>img \<noteq> []\<close> assms(3, 5-7)])
  let ?blk = "take DFU_TRANSFER_SIZE (drop (DFU_TRANSFER_SIZE * j) img)"
  have img2: "cells (dev (hw s2)) = flashed cfg (dev (hw s)) s (prog_addr s2) img"
    and at: "0x8002000 \<le> unat (prog_addr s2)" "unat (prog_addr s2) + length img \<le> unat (flash_app_end s2)"
    using s12(4-6) assms(6, 7) by simp_all
  have req: "wValue (dfu_request 2 (2 + of_nat j) (of_nat DFU_TRANSFER_SIZE)) = 2 + of_nat j"
    by (simp only: dfu_request_def usb_setup_data.simps)
  obtain s3 where s3: "dfu_upload cfg b (dfu_request 2 (2 + of_nat j) (of_nat DFU_TRANSFER_SIZE)) s2 = (of_nat DFU_TRANSFER_SIZE, s3)"
    "dev (hw s3) = dev (hw s2)"
    "world.more s3 = world.more (s2\<lparr>usbdfu_state := STATE_DFU_UPLOAD_IDLE, usbd_control_buffer := ?blk\<rparr>)"
    by (rule upload_reads [OF assms(1) s12(3) img2 assms(4) at assms(8) req refl])
  have "usbd_control_buffer s3 = ?blk" using dfu_fields_eq(1) [OF flash_more [OF s3(3)]] by simp
  then show ?thesis using s12(1, 2) s3
    by (auto simp: host_upload_def usbdfu_control_request_def dfu_req_of_def dfu_request_def)
qed

lemma download_upload_roundtrip_witness:
  "\<exists>(s1 :: fmc_dev usb_world) s2. host_download (host_block ((cmake_build False)\<lparr>ENABLE_DFU_UPLOAD := True\<rparr>) fmc_bus) 2 (chunks (replicate 5000 7)) s1 = Some s2 \<and>
    fst (host_upload ((cmake_build False)\<lparr>ENABLE_DFU_UPLOAD := True\<rparr>) fmc_bus 2 s2) = replicate 4096 7"
proof -
  let ?s = "usb_boot flash_demo (\<lambda>_. 0)" and ?c = "(cmake_build False)\<lparr>ENABLE_DFU_UPLOAD := True\<rparr>"
  have d: "hw ?s = flash_demo" "d_page flash_demo = 1024" by (simp_all add: usb_boot_def flash_demo_def)
  show ?thesis
    using download_upload_roundtrip [OF fmcr.fmc_readable_axioms demo_settled(1), of "replicate 5000 7" ?c "0x8002400" 0]
    by (auto simp: demo_settled(2) d)
qed

end
