(* ===== verification/UsbOut.thy ===== *)
theory UsbOut
  imports UsbPeriph Download
begin

text \<open>
  The data stage of a control write: the OUT transactions of a DFU_DNLOAD, packet by packet, up to
  the download the DFU class then holds.
\<close>

section \<open>Receiving one packet\<close>

text \<open>Endpoint 0 after an OUT transaction: a packet of at most 64 bytes lies in its receive buffer,
  and the endpoint takes no other.\<close>

definition rx_ready :: "usb_dev \<Rightarrow> bool" where
  "rx_ready d \<longleftrightarrow> d_btable d = 0 \<and> even (unat (pma d 2)) \<and> unat (pma d 2) \<le> 448 \<and>
     pma d 3 AND 0x3ff \<le> 64 \<and> ep_reg d 0 AND USB_EP_RX_STAT \<noteq> USB_EP_RX_STAT_VALID"

definition rx_packet :: "usb_dev \<Rightarrow> u8 list" where
  "rx_packet d = pma_bytes d (unat (pma d 2) div 2) (unat (pma d 3 AND 0x3ff))"

lemma length_rx_packet: "length (rx_packet d) = unat (pma d 3 AND 0x3ff)"
  by (simp add: rx_packet_def pma_bytes_def)

context usb_periph begin

lemma read_packet_dev:
  assumes rdy: "rx_ready (dev (hw s))" and len: "length (rx_packet (dev (hw s))) = unat len"
  obtains s' where "usbd_ep_read_packet b 0 len s = (rx_packet (dev (hw s)), s')" "world.more s' = world.more s"
proof -
  let ?D = "dev (hw s)"
  define p where "p = unat (pma ?D 2) div 2"
  define s1 where "s1 = snd (rd32 b (USB_EP_REG 0) s)"
  have d1: "dev (hw s1) = ?D" by (simp add: s1_def ep_load)
  have bt: "d_btable ?D = 0" using rdy by (simp add: rx_ready_def)
  have cnt: "pma ?D 3 AND 0x3ff = len"
    using len by (simp add: length_rx_packet word_unat_eq_iff)
  have count: "fst (USB_GET_EP_RX_COUNT b 0 s1) = pma ?D 3"
    using dev_btable(1) [of 0 6 s1] bt by (simp add: d1)
  have mn: "fst (rx_min b 0 len s1) = len" "dev (hw (snd (rx_min b 0 len s1))) = ?D"
    using count cnt dev_btable(2) [of 0 6 s1] bt by (simp_all add: rx_min_def case_prod_beta d1)
  define s2 where "s2 = snd (rx_min b 0 len s1)"
  have d2: "dev (hw s2) = ?D" using mn(2) by (simp add: s2_def)
  define s3 where "s3 = snd (USB_GET_EP_RX_BUFF b 0 s2)"
  have d3: "dev (hw s3) = ?D" and pm: "fst (USB_GET_EP_RX_BUFF b 0 s2) = pma_addr p"
  proof -
    have "4 * unat (0 :: u8) + unat (4 :: u32) div 2 = 2" by simp
    then have addr: "fst (USB_GET_EP_RX_ADDR b 0 s2) = pma ?D 2"
      using dev_btable(1) [of 0 4 s2] bt by (simp only: d2) simp
    show "dev (hw s3) = ?D"
      using dev_btable(2) [of 0 4 s2] bt by (simp add: s3_def USB_GET_EP_RX_BUFF_def case_prod_beta d2)
    have "(of_nat (unat (pma ?D 2)) :: u32) = of_nat (2 * p)" using rdy by (simp add: p_def rx_ready_def)
    then have "(ucast (pma ?D 2) :: u32) * 2 = 4 * of_nat p" by simp
    then show "fst (USB_GET_EP_RX_BUFF b 0 s2) = pma_addr p"
      by (simp add: USB_GET_EP_RX_BUFF_def case_prod_beta addr pma_addr_def)
  qed
  have "unat len \<le> 64" using rdy cnt by (simp add: rx_ready_def word_le_nat_alt)
  then have fits: "p + (unat len + 1) div 2 \<le> 256" using rdy unfolding p_def rx_ready_def
    by (elim conjE) linarith
  have bytes: "fst (st_usbfs_copy_from_pm b (pma_addr p) (unat len) s3) = rx_packet ?D"
    unfolding dev_copy_from_pm(1) [OF fits] d3 by (simp add: rx_packet_def p_def cnt)
  have stat: "\<not> fst (rd32 b (USB_EP_REG 0) s) AND ucast USB_EP_RX_STAT = ucast USB_EP_RX_STAT_VALID"
    using rdy ep_value [of 0 "hw s"] by (simp only: and_ucast16 ucast16_inject) (simp add: rx_ready_def)
  have "fst (usbd_ep_read_packet b 0 len s) = rx_packet ?D"
    using stat pm mn(1) bytes
    by (simp add: usbd_ep_read_packet_def case_prod_beta Let_def s1_def [symmetric] s2_def [symmetric] s3_def [symmetric])
  then show ?thesis by (metis more_read_packet prod.collapse that)
qed

end

section \<open>Packet after packet\<close>

text \<open>The packets of \<open>bs\<close>: full ones and the rest.\<close>

function out_packets :: "u8 list \<Rightarrow> u8 list list" where
  "out_packets bs = (if length bs \<le> 64 then [bs] else take 64 bs # out_packets (drop 64 bs))"
  by pat_completeness auto
termination by (relation "measure length") auto

declare out_packets.simps [simp del]

text \<open>The hardware receives a packet, then the firmware handles the transaction.\<close>

fun out_steps ::
  "build \<Rightarrow> 'h bus \<Rightarrow> 'h list \<Rightarrow> ('h, 'm) usb_world_scheme \<Rightarrow> ('h, 'm) usb_world_scheme option" where
  "out_steps cfg b [] s = Some s"
| "out_steps cfg b (h # hs) s = do { s1 \<leftarrow> usbd_control_out cfg b (s\<lparr>hw := h\<rparr>); out_steps cfg b hs s1 }"

definition receives :: "('h \<Rightarrow> usb_dev) \<Rightarrow> 'h \<Rightarrow> u8 list \<Rightarrow> bool" where
  "receives dev h p \<longleftrightarrow> rx_ready (dev h) \<and> rx_packet (dev h) = p"

text \<open>In the middle of the data stage: \<open>d\<close> bytes of \<open>bs\<close> are in the buffer. \<open>s\<close> is the state before it.\<close>

definition out_state :: "('h, 'm) usb_world_scheme \<Rightarrow> u8 list \<Rightarrow> nat \<Rightarrow> ('h, 'm) usb_world_scheme \<Rightarrow> bool" where
  "out_state s bs d t \<longleftrightarrow>
     usb_req t = usb_req s \<and> usb_complete_cb t = usb_complete_cb s \<and>
     usb_force_nak t = (usb_force_nak s)[0 := 0] \<and> kept s t \<and> prog_buf t = prog_buf s \<and> d \<le> length bs \<and> datasize t = of_nat d \<and>
     length (usbd_control_buffer t) = DFU_TRANSFER_SIZE \<and> take d (usbd_control_buffer t) = take d bs"

text \<open>The end of it: the DFU class has taken over block \<open>k\<close>, and the status stage is under way.\<close>

definition holds_download :: "('h, 'm) usb_world_scheme \<Rightarrow> u8 list \<Rightarrow> u16 \<Rightarrow> ('h, 'm) usb_world_scheme \<Rightarrow> bool" where
  "holds_download s bs k s' \<longleftrightarrow>
     usb_fsm_state s' = STATUS_IN \<and> usb_req s' = usb_req s \<and> usb_complete_cb s' = usb_complete_cb s \<and>
     usb_force_nak s' = (usb_force_nak s)[0 := 0] \<and> kept s s' \<and>
     length (usbd_control_buffer s') = DFU_TRANSFER_SIZE \<and> usbdfu_state s' = STATE_DFU_DNLOAD_SYNC \<and>
     prog_buf s' = bs @ drop (length bs) (prog_buf s) \<and> prog_len s' = of_nat (length bs) \<and> prog_blocknum s' = k"

lemma kept_more:
  fixes t u :: "('h, 'm) usb_world_scheme"
  assumes "world.more u = world.more t"
  shows "kept s u = kept s t"
  using assms by (cases t; cases u) (simp add: kept_def)

lemma kept_usb_update [simp]:
  "kept s (t\<lparr>usb_fsm_state := st\<rparr>) = kept s t" "kept s (t\<lparr>datasize := d\<rparr>) = kept s t"
  "kept s (t\<lparr>dataoff := d\<rparr>) = kept s t" "kept s (t\<lparr>usb_needs_zlp := z\<rparr>) = kept s t"
  "kept s (t\<lparr>usb_req := q\<rparr>) = kept s t" "kept s (t\<lparr>usb_complete_cb := cb\<rparr>) = kept s t"
  "kept s (t\<lparr>usb_force_nak := f\<rparr>) = kept s t" "kept s (store_ctl off bs t) = kept s t"
  by (simp_all add: kept_def store_ctl_def)

context usb_periph begin

lemma recv_chunk_dev:
  assumes "out_state s bs d t" "usb_req s = dfu_request 1 k (of_nat (length bs))" "length bs \<le> DFU_TRANSFER_SIZE"
    and "receives dev (hw t) (take 64 (drop d bs))"
  obtains t' where "usb_control_recv_chunk b t = (True, t')" "out_state s bs (min (length bs) (d + 64)) t'"
    "usb_fsm_state t' = usb_fsm_state t"
    "hw t' = hw (snd (usbd_ep_read_packet b 0 (of_nat (length (take 64 (drop d bs)))) t))"
proof -
  define p where "p = take 64 (drop d bs)"
  note st = assms(1) [unfolded out_state_def]
  have len: "length p = min (length bs - d) 64" "d + length p \<le> DFU_TRANSFER_SIZE" "min (length bs) (d + 64) = d + length p"
    using st assms(3) by (auto simp: p_def)
  have n: "unat (of_nat (length bs) :: u16) = length bs" "unat (of_nat d :: u16) = d"
    using assms(3) st by (simp_all add: unsigned_of_nat take_bit_nat_eq_self)
  define psize :: u16 where "psize = of_int (min 64 (uint (wLength (usb_req t)) - uint (datasize t)))"
  have psize: "psize = of_nat (length p)" "unat psize = length p"
  proof -
    have "uint (of_nat (length bs) :: u16) = int (length bs)" "uint (of_nat d :: u16) = int d"
      by (simp_all only: uint_nat n)
    moreover have "wLength (usb_req t) = of_nat (length bs)" "datasize t = of_nat d"
      using st assms(2) by (simp_all add: dfu_request_def)
    ultimately have "min 64 (uint (wLength (usb_req t)) - uint (datasize t)) = int (length p)"
      using st len(1) by (auto simp: min_def)
    then have "psize = of_int (int (length p))" by (simp only: psize_def)
    then show "psize = of_nat (length p)" by (simp only: of_int_of_nat_eq)
    then show "unat psize = length p" using len(1) by (simp add: unsigned_of_nat take_bit_nat_eq_self)
  qed
  obtain t1 where t1: "usbd_ep_read_packet b 0 psize t = (p, t1)" "world.more t1 = world.more t"
    using read_packet_dev [of t psize] assms(4) psize(2) by (auto simp: receives_def p_def)
  note eq = usb_fields_eq [OF t1(2)]
  define t' where "t' = (store_ctl d p t1)\<lparr>datasize := datasize (store_ctl d p t1) + of_nat (length p)\<rparr>"
  have d: "unat (datasize t) = d" using st n by simp
  have recv: "usb_control_recv_chunk b t = (True, t')"
    using t1(1) psize(1) d
    by (simp add: usb_control_recv_chunk_def psize_def [symmetric] Let_def t'_def)
  have buf: "usbd_control_buffer t' = take d bs @ p @ drop (d + length p) (usbd_control_buffer t)"
    using st len(2) by (simp add: t'_def store_ctl_def eq)
  have "take (d + length p) (usbd_control_buffer t') = take d bs @ p" using st by (simp add: buf)
  also have "\<dots> = take (d + length p) bs" by (simp add: take_add p_def len(1) [symmetric] min_def)
  finally have "out_state s bs (min (length bs) (d + 64)) t'"
    unfolding out_state_def len(3) using st len(1, 2) by (auto simp: t'_def store_ctl_def eq kept_more [OF t1(2)])
  moreover have "usb_fsm_state t' = usb_fsm_state t" by (simp add: t'_def eq)
  moreover have "hw t' = hw (snd (usbd_ep_read_packet b 0 (of_nat (length p)) t))"
    using t1(1) by (simp add: t'_def store_ctl_def psize(1) [symmetric])
  ultimately show ?thesis using recv unfolding p_def by (intro that)
qed

lemma control_out_more:
  assumes "out_state s bs d t" "usb_req s = dfu_request 1 k (of_nat (length bs))" "length bs \<le> DFU_TRANSFER_SIZE"
    and "receives dev (hw t) (take 64 (drop d bs))" "usb_fsm_state t = DATA_OUT" "d + 64 < length bs"
  obtains t' where "usbd_control_out cfg b t = Some t'" "out_state s bs (d + 64) t'"
    "usb_fsm_state t' = (if length bs \<le> d + 64 + 64 then LAST_DATA_OUT else DATA_OUT)"
    "hw t' = hw (snd (usbd_ep_read_packet b 0 64 t))"
proof -
  obtain t1 where t1: "usb_control_recv_chunk b t = (True, t1)" "out_state s bs (d + 64) t1" "usb_fsm_state t1 = DATA_OUT"
    "hw t1 = hw (snd (usbd_ep_read_packet b 0 64 t))"
    by (rule recv_chunk_dev [OF assms(1-4)]) (use assms(5, 6) in simp)
  note st = t1(2) [unfolded out_state_def]
  have "uint (of_nat (length bs) :: u16) = int (length bs)" "uint (of_nat (d + 64) :: u16) = int (d + 64)"
    using assms(3, 6) by (simp_all add: uint_nat unsigned_of_nat take_bit_nat_eq_self del: of_nat_add)
  moreover have "wLength (usb_req t1) = of_nat (length bs)" "datasize t1 = of_nat (d + 64)"
    using st assms(2) by (simp_all add: dfu_request_def)
  ultimately have "uint (wLength (usb_req t1)) - uint (datasize t1) \<le> 64 \<longleftrightarrow> length bs \<le> d + 64 + 64"
    by (simp only:) linarith
  then have "usbd_control_out cfg b t =
      Some (if length bs \<le> d + 64 + 64 then t1\<lparr>usb_fsm_state := LAST_DATA_OUT\<rparr> else t1)"
    using assms(5) t1(1) by (simp add: usbd_control_out_def)
  then show ?thesis using t1(2-4)
    by (intro that [of "if length bs \<le> d + 64 + 64 then t1\<lparr>usb_fsm_state := LAST_DATA_OUT\<rparr> else t1"]) (auto simp: out_state_def)
qed

lemma control_out_last:
  fixes t :: "('h, 'm) usb_world_scheme"
  assumes "out_state s bs d t" "usb_req s = dfu_request 1 k (of_nat (length bs))" "length bs \<le> DFU_TRANSFER_SIZE"
    and "receives dev (hw t) (take 64 (drop d bs))" "usb_fsm_state t = LAST_DATA_OUT" "length bs \<le> d + 64" "bs \<noteq> []"
  obtains t' and u :: "('h, 'm) usb_world_scheme" where "usbd_control_out cfg b t = Some t'" "holds_download s bs k t'"
    "hw t' = hw (snd (usbd_ep_write_packet b 0 (\<lambda>_. 0) 0 u))"
    "hw u = hw (snd (usbd_ep_read_packet b 0 (of_nat (length (take 64 (drop d bs)))) t))"
proof -
  obtain t1 where t1: "usb_control_recv_chunk b t = (True, t1)" "out_state s bs (length bs) t1"
    "hw t1 = hw (snd (usbd_ep_read_packet b 0 (of_nat (length (take 64 (drop d bs)))) t))"
    by (rule recv_chunk_dev [OF assms(1-4)]) (use assms(6) in \<open>simp add: min_def\<close>)
  note st = t1(2) [unfolded out_state_def]
  let ?n = "of_nat (length bs) :: u16"
  have n: "unat ?n = length bs" "?n \<noteq> 0" "\<not> DFU_TRANSFER_SIZE < length bs"
  proof -
    show "unat ?n = length bs" using assms(3) by (simp add: unsigned_of_nat take_bit_nat_eq_self)
    then show "?n \<noteq> 0" using assms(7) by auto
  qed (use assms(3) in simp)
  define d1 where "d1 = dfu_dnload (usb_req t1) ?n t1"
  define t2 where "t2 = d1\<lparr>datasize := ?n, usb_complete_cb := usb_complete_cb d1\<rparr>"
  have req: "usb_req t1 = dfu_request 1 k ?n" using st assms(2) by simp
  have val: "wValue (usb_req t1) = k" unfolding req by (simp add: dfu_request_def)
  have cls: "class_request (usb_req t1)"
    unfolding req by (simp add: class_request_def dfu_request_def)
  have ctl: "usbdfu_control_request cfg b (usb_req t1) (wLength (usb_req t1)) t1 = (USBD_REQ_HANDLED, ?n, None, d1)"
    unfolding d1_def req by (simp add: usbdfu_control_request_def dfu_req_of_def dfu_request_def)
  have "usb_control_request_dispatch cfg b t1 = Some (USBD_REQ_HANDLED, t2)"
    by (simp add: usb_control_request_dispatch_def cls ctl t2_def)
  then have out: "usbd_control_out cfg b t =
      Some ((snd (usbd_ep_write_packet b 0 (\<lambda>_. 0) 0 t2))\<lparr>usb_fsm_state := STATUS_IN\<rparr>)"
    using assms(5) t1(1) by (simp add: usbd_control_out_def case_prod_beta ret_true_def)
  have "prog_buf t2 = bs @ drop (length bs) (prog_buf s)" "prog_len t2 = ?n" "prog_blocknum t2 = k"
    "usbdfu_state t2 = STATE_DFU_DNLOAD_SYNC"
    "usb_req t2 = usb_req s" "usb_complete_cb t2 = usb_complete_cb s" "usb_force_nak t2 = (usb_force_nak s)[0 := 0]"
    "kept s t2" "length (usbd_control_buffer t2) = DFU_TRANSFER_SIZE" "hw t2 = hw t1"
    using st n val by (simp_all add: t2_def d1_def dfu_dnload_def Let_def)
  then have "holds_download s bs k ((snd (usbd_ep_write_packet b 0 (\<lambda>_. 0) 0 t2))\<lparr>usb_fsm_state := STATUS_IN\<rparr>)"
    using dfu_fields_eq [OF flash_more [OF more_write_packet [of b 0 "\<lambda>_. 0" 0 t2]]]
      usb_fields_eq [OF more_write_packet [of b 0 "\<lambda>_. 0" 0 t2]]
    by (simp add: holds_download_def kept_more [OF more_write_packet])
  then show ?thesis using t1(3) \<open>hw t2 = hw t1\<close> by (intro that [OF out, of t2]) simp_all
qed

lemma out_stage_delivers:
  assumes "usb_req s = dfu_request 1 k (of_nat (length bs))" "length bs \<le> DFU_TRANSFER_SIZE" "bs \<noteq> []"
    and "list_all2 (receives dev) hs (out_packets (drop d bs))" "out_state s bs d t"
    and "usb_fsm_state t = (if length bs \<le> d + 64 then LAST_DATA_OUT else DATA_OUT)"
  shows "\<exists>s'. out_steps cfg b hs t = Some s' \<and> holds_download s bs k s'"
  using assms(4-6)
proof (induction "length bs - d" arbitrary: d t hs rule: less_induct)
  case less
  have d: "d \<le> length bs" using less.prems(2) by (simp add: out_state_def)
  show ?case
  proof (cases "length bs \<le> d + 64")
    case True
    then have le: "length (drop d bs) \<le> 64" by simp
    have "take 64 (drop d bs) = drop d bs" by (rule take_all) (rule le)
    moreover have "out_packets (drop d bs) = [drop d bs]"
      unfolding out_packets.simps [of "drop d bs"] by (rule if_P) (rule le)
    ultimately obtain h where hs: "hs = [h]" "receives dev h (take 64 (drop d bs))"
      using less.prems(1) by (auto simp: list_all2_Cons2)
    have "out_state s bs d (t\<lparr>hw := h\<rparr>)" "usb_fsm_state (t\<lparr>hw := h\<rparr>) = LAST_DATA_OUT"
      using less.prems(2, 3) True by (simp_all add: out_state_def)
    then obtain t' where "usbd_control_out cfg b (t\<lparr>hw := h\<rparr>) = Some t'" "holds_download s bs k t'"
      using control_out_last [OF _ assms(1, 2) _ _ True assms(3), of "t\<lparr>hw := h\<rparr>" cfg] hs(2) by auto
    then show ?thesis using hs(1) by simp
  next
    case False
    then have "\<not> length (drop d bs) \<le> 64" by simp
    then have "out_packets (drop d bs) = take 64 (drop d bs) # out_packets (drop (d + 64) bs)"
      unfolding out_packets.simps [of "drop d bs"] by (simp only: if_False drop_drop add.commute)
    then obtain h hs' where hs: "hs = h # hs'" "receives dev h (take 64 (drop d bs))"
        "list_all2 (receives dev) hs' (out_packets (drop (d + 64) bs))"
      using less.prems(1) by (auto simp: list_all2_Cons2)
    have "out_state s bs d (t\<lparr>hw := h\<rparr>)" "usb_fsm_state (t\<lparr>hw := h\<rparr>) = DATA_OUT" "d + 64 < length bs"
      using less.prems(2, 3) False by (simp_all add: out_state_def)
    then obtain t' where t': "usbd_control_out cfg b (t\<lparr>hw := h\<rparr>) = Some t'" "out_state s bs (d + 64) t'"
        "usb_fsm_state t' = (if length bs \<le> d + 64 + 64 then LAST_DATA_OUT else DATA_OUT)"
      using control_out_more [OF _ assms(1, 2), of d "t\<lparr>hw := h\<rparr>" cfg] hs(2) by auto
    have "length bs - (d + 64) < length bs - d" using False by simp
    from less.hyps [OF this hs(3) t'(2, 3)] show ?thesis using hs(1) t'(1) by simp
  qed
qed

end

text \<open>The SETUP stage of a write opens the endpoint for the data stage.\<close>

lemma setup_write_opens:
  fixes s :: "('h, 'm) usb_world_scheme"
  assumes "usb_req s = dfu_request 1 k (of_nat (length bs))" "length bs \<le> DFU_TRANSFER_SIZE"
    and "length (usbd_control_buffer s) = DFU_TRANSFER_SIZE"
  shows "out_state s bs 0 (usb_control_setup_write b s)"
    "usb_fsm_state (usb_control_setup_write b s) = (if length bs \<le> 0 + 64 then LAST_DATA_OUT else DATA_OUT)"
    "hw (usb_control_setup_write b s) = hw (USB_SET_EP_RX_STAT b 0 USB_EP_RX_STAT_VALID s)"
proof -
  let ?t = "usb_control_setup_write b s"
  let ?s1 = "s\<lparr>datasize := 0, usb_fsm_state := (if length bs \<le> 64 then LAST_DATA_OUT else DATA_OUT)\<rparr>"
  have "unat (of_nat (length bs) :: u16) = length bs"
    using assms(2) by (simp add: unsigned_of_nat take_bit_nat_eq_self)
  then have "64 < (of_nat (length bs) :: u16) \<longleftrightarrow> \<not> length bs \<le> 64" "\<not> DFU_TRANSFER_SIZE < unat (wLength (usb_req s))"
    using assms(1, 2) by (simp_all add: word_less_nat_alt dfu_request_def not_le)
  then have t: "?t = usbd_ep_nak_set b 0 0 ?s1"
    using assms(1) by (simp add: usb_control_setup_write_def dfu_request_def)
  let ?s2 = "?s1\<lparr>usb_force_nak := (usb_force_nak s)[0 := 0]\<rparr>"
  have t2: "?t = USB_SET_EP_RX_STAT b 0 USB_EP_RX_STAT_VALID ?s2" by (simp add: t usbd_ep_nak_set_def)
  note eq = usb_fields_eq [OF more_ep_macros(4) [of b 0 "USB_EP_RX_STAT_VALID" ?s2]]
  show "out_state s bs 0 ?t" unfolding out_state_def t2 eq
    using assms(3) by (simp add: kept_more [OF more_ep_macros(4)])
  show "usb_fsm_state ?t = (if length bs \<le> 0 + 64 then LAST_DATA_OUT else DATA_OUT)" by (simp add: t)
  show "hw ?t = hw (USB_SET_EP_RX_STAT b 0 USB_EP_RX_STAT_VALID s)"
    unfolding t2 by (simp add: USB_SET_EP_RX_STAT_def TOG_SET_REG_BIT_MSK_AND_SET_def UPD_REG_def GET_REG_def SET_REG_def
        case_prod_beta)
qed

section \<open>Properties\<close>

text \<open>The data stage of a DFU_DNLOAD over USB: after the SETUP, when the host sends the packets of the
  block one by one and the hardware is, before each transaction, in any state that holds the next
  packet, every transaction is handled, and after the last one the DFU class holds exactly the
  block, with its number and its length, and the status stage has begun.\<close>

theorem dnload_over_usb:
  assumes "usb_periph b dev" "usb_req s = dfu_request 1 k (of_nat (length bs))" "bs \<noteq> []"
    and "length bs \<le> DFU_TRANSFER_SIZE" "length (usbd_control_buffer s) = DFU_TRANSFER_SIZE"
    and "list_all2 (receives dev) hs (out_packets bs)"
  shows "\<exists>s'. out_steps cfg b hs (usb_control_setup_write b s) = Some s' \<and>
    usb_fsm_state s' = STATUS_IN \<and> usbdfu_state s' = STATE_DFU_DNLOAD_SYNC \<and>
    prog_buf s' = bs @ drop (length bs) (prog_buf s) \<and> prog_len s' = of_nat (length bs) \<and> prog_blocknum s' = k"
  using usb_periph.out_stage_delivers [OF assms(1, 2, 4, 3) _ setup_write_opens(1, 2) [OF assms(2, 4, 5)], of hs cfg] assms(6)
  by (auto simp: holds_download_def)

text \<open>A peripheral that has received a packet.\<close>

definition rx_dev :: "u8 list \<Rightarrow> usb_dev" where
  "rx_dev p = usb_dev0\<lparr>pma := (\<lambda>k. mk16 (p ! (2 * (k - 64))) (p ! (2 * (k - 64) + 1)))(2 := 0x80, 3 := of_nat (length p))\<rparr>"

lemma rx_dev_receives:
  assumes "length p \<le> 64"
  shows "receives (\<lambda>d. d) (rx_dev p) p"
proof -
  have "take_bit 10 (of_nat (length p) :: u16) = of_nat (take_bit 10 (length p))" by (rule take_bit_of_nat)
  also have "take_bit 10 (length p) = length p" using assms by (simp add: take_bit_nat_eq_self)
  finally have n: "(of_nat (length p) :: u16) AND 0x3ff = of_nat (length p)"
    by (simp add: take_bit_eq_mask mask_eq_exp_minus_1)
  have u: "unat (of_nat (length p) :: u16) = length p" using assms by (simp add: unsigned_of_nat take_bit_nat_eq_self)
  have "pma (rx_dev p) (64 + i) = mk16 (p ! (2 * i)) (p ! (2 * i + 1))" for i
    by (simp add: rx_dev_def)
  then have "pma_bytes (rx_dev p) 64 (length p) = p"
    by (intro nth_equalityI) (auto simp: pma_bytes_def elim!: oddE)
  then show ?thesis using assms n u
    by (simp add: receives_def rx_ready_def rx_packet_def word_le_nat_alt) (simp add: rx_dev_def usb_dev0_def)
qed

text \<open>Sixty-six bytes in two packets.\<close>

lemma dnload_over_usb_witness:
  "\<exists>s'. out_steps (cmake_build False) usb_bus [rx_dev (replicate 64 1), rx_dev [2, 3]]
      (usb_control_setup_write usb_bus ((usb_boot usb_dev0 (\<lambda>_. 0))\<lparr>usb_req := dfu_request 1 2 66\<rparr>)) = Some s' \<and>
    take 66 (prog_buf s') = replicate 64 1 @ [2, 3]"
proof -
  let ?bs = "replicate 64 1 @ [2, 3] :: u8 list"
  let ?s = "(usb_boot usb_dev0 (\<lambda>_. 0))\<lparr>usb_req := dfu_request 1 2 66\<rparr>"
  have "out_packets ?bs = [replicate 64 1, [2, 3]]"
    by (subst out_packets.simps, subst out_packets.simps) simp
  then have "list_all2 (receives (\<lambda>d. d)) [rx_dev (replicate 64 1), rx_dev [2, 3]] (out_packets ?bs)"
    using rx_dev_receives [of "replicate 64 1"] rx_dev_receives [of "[2, 3]"] by simp
  moreover have "usb_req ?s = dfu_request 1 2 (of_nat (length ?bs))" "length (usbd_control_buffer ?s) = DFU_TRANSFER_SIZE"
    by (simp_all add: usb_boot_def)
  ultimately show ?thesis
    using dnload_over_usb [OF usb.usb_periph_axioms, of ?s 2 ?bs "[rx_dev (replicate 64 1), rx_dev [2, 3]]" "cmake_build False"]
    by auto
qed

end
