(* ===== verification/DfuStores.thy ===== *)
theory DfuStores
  imports DfuFlash
begin

text \<open>
  Which stores the deferred DFU operations issue, on any hardware: the boot loader's own pages are
  never erased or programmed as long as the requested range does not wrap around at 2^32, and what
  happens when it does.
\<close>

section \<open>The policy\<close>

text \<open>The stores that leave the boot loader alone: the key and control registers; the address
  register with a page of the area \<open>[lo, hi)\<close>; half words and words of the area itself.\<close>

definition app_store :: "u32 \<Rightarrow> u32 \<Rightarrow> store \<Rightarrow> bool" where
  "app_store lo hi st =
     (case st of
        St8 a x \<Rightarrow> False
      | St16 a w \<Rightarrow> lo \<le> a \<and> unat a + 2 \<le> unat hi
      | St32 a v \<Rightarrow> a = FLASH_KEYR \<or> a = FLASH_CR \<or> (a = FLASH_AR \<and> lo \<le> v \<and> v < hi) \<or>
          (lo \<le> a \<and> unat a + 4 \<le> unat hi))"

lemma app_store_regs [simp]:
  "app_store lo hi (St32 FLASH_KEYR v)" "app_store lo hi (St32 FLASH_CR v)"
  "lo \<le> a \<Longrightarrow> a < hi \<Longrightarrow> app_store lo hi (St32 FLASH_AR a)"
  by (simp_all add: app_store_def)

lemma unat_no_wrap: "unat a + n < 2 ^ 32 \<Longrightarrow> k \<le> n \<Longrightarrow> unat (a + of_nat k) = unat a + k" for a :: u32
  by (simp add: unat_word_ariths unsigned_of_nat take_bit_eq_mod mod_simps)

lemma app_store_span:
  assumes "lo \<le> a" "unat a + n < 2 ^ 32" "unat a + n \<le> unat hi"
  shows "k < n div 2 \<Longrightarrow> app_store lo hi (St16 (a + 2 * of_nat k) w)"
    "k < n div 4 \<Longrightarrow> app_store lo hi (St32 (a + 4 * of_nat k) v)"
proof -
  have u: "unat (a + of_nat j) = unat a + j" if "j \<le> n" for j
    using unat_no_wrap [OF assms(2) that] .
  show "k < n div 2 \<Longrightarrow> app_store lo hi (St16 (a + 2 * of_nat k) w)"
    using u [of "2 * k"] assms(1, 3) by (auto simp: app_store_def word_le_nat_alt)
  show "k < n div 4 \<Longrightarrow> app_store lo hi (St32 (a + 4 * of_nat k) v)"
    using u [of "4 * k"] assms(1, 3) by (auto simp: app_store_def word_le_nat_alt)
qed

section \<open>The operations under a policy\<close>

context guarded_bus begin

lemma erase_range_P:
  assumes "flash_erase_range b a l s = Some s'" "P (hw s)"
    and "\<And>v. G (St32 FLASH_CR v)" "\<And>x. a \<le> x \<Longrightarrow> x < l \<Longrightarrow> G (St32 FLASH_AR x)"
    and "unat l + unat (page_size s) \<le> 2 ^ 32"
  shows "P (hw s')"
proof -
  have "b = b \<longrightarrow> P (hw s) \<longrightarrow> unat l + unat (page_size s) \<le> 2 ^ 32 \<longrightarrow>
      (\<forall>x. a \<le> x \<longrightarrow> x < l \<longrightarrow> G (St32 FLASH_AR x)) \<longrightarrow> P (hw s')"
  proof (rule flash_erase_range.raw_induct [OF _ assms(1), where
        P = "\<lambda>b' a l s s'. b' = b \<longrightarrow> P (hw s) \<longrightarrow> unat l + unat (page_size s) \<le> 2 ^ 32 \<longrightarrow>
          (\<forall>x. a \<le> x \<longrightarrow> x < l \<longrightarrow> G (St32 FLASH_AR x)) \<longrightarrow> P (hw s')"], intro impI)
    fix f b' a l and s s' :: "('h, 'm) flash_world_scheme"
    assume IH: "\<And>b' a l s s'. f b' a l s = Some s' \<Longrightarrow> b' = b \<longrightarrow> P (hw s) \<longrightarrow>
        unat l + unat (page_size s) \<le> 2 ^ 32 \<longrightarrow>
        (\<forall>x. a \<le> x \<longrightarrow> x < l \<longrightarrow> G (St32 FLASH_AR x)) \<longrightarrow> P (hw s')"
      and eq: "(if a < l then
        (case flash_page_is_erased b' a s of (e, s1) \<Rightarrow>
           Option.bind (if e then Some s1 else flash_erase_page b' a s1) (\<lambda>s2.
             case get_flash_page_size s2 of (ps, s3) \<Rightarrow> f b' (a + ps) l s3))
        else Some s) = Some s'"
      and b': "b' = b" and Ps: "P (hw s)" and room: "unat l + unat (page_size s) \<le> 2 ^ 32"
      and G: "\<forall>x. a \<le> x \<longrightarrow> x < l \<longrightarrow> G (St32 FLASH_AR x)"
    show "P (hw s')"
    proof (cases "a < l")
      case True
      then obtain s2 where s2: "erase_if_needed b a s = Some s2"
        and rest: "f b (a + page_size s2) l (snd (get_flash_page_size s2)) = Some s'"
        using eq b' by (auto simp: erase_if_needed_def case_prod_beta bind_eq_Some_conv)
      have P2: "P (hw s2)" using erase_if_needed_P [OF s2 Ps assms(3)] G True by simp
      have ps2: "page_size s2 = page_size s"
        by (rule flash_only_eqs(5) [OF flash_only_erase_if_needed [OF s2]])
      let ?s3 = "snd (get_flash_page_size s2)"
      have ps3: "page_size ?s3 = page_size s2" by (rule flash_only_eqs(5) [OF flash_only_get_page_size])
      have hw3: "hw ?s3 = hw s2" by (simp add: get_flash_page_size_def Let_def)
      have "unat (a + page_size s2) = unat a + unat (page_size s)"
        using True room by (simp add: ps2 unat_word_ariths word_less_nat_alt)
      then have "\<forall>x. a + page_size s2 \<le> x \<longrightarrow> x < l \<longrightarrow> G (St32 FLASH_AR x)"
        using G by (auto simp: word_le_nat_alt)
      then show ?thesis using IH [OF rest] P2 room by (simp add: ps2 ps3 hw3)
    next
      case False
      with eq Ps show ?thesis by simp
    qed
  qed
  with assms show ?thesis by blast
qed

lemma program_block_P:
  assumes "dfu_program_block b a s = Some s'" "P (hw s)" "G = app_store lo hi"
    and "lo \<le> a" "unat a + unat (prog_len s) \<le> unat hi"
    and "unat hi + unat (page_size s) \<le> 2 ^ 32" "page_size s \<noteq> 0"
  shows "P (hw s')"
proof -
  let ?n = "unat (prog_len s)"
  have pos: "0 < unat (page_size s)" using assms(7) by (simp add: unat_gt_0)
  have nw: "unat a + ?n < 2 ^ 32" using assms(5, 6) pos by linarith
  have lim: "unat (a + ucast (prog_len s)) = unat a + ?n"
    using unat_no_wrap [OF nw, of ?n] by simp
  obtain s1 where s1: "flash_erase_range b a (a + ucast (prog_len s)) s = Some s1"
    and rest: "(if gd32 s1 then flash_program_buffer_gd32 b a (prog_buf s1) (unat (prog_len s1)) s1
      else flash_program_buffer b a (prog_buf s1) (unat (prog_len s1)) s1) = Some s'"
    using assms(1) by (auto simp: dfu_program_block_def bind_eq_Some_conv)
  have len1: "prog_len s1 = prog_len s"
    by (rule dfu_fields_eq [OF flash_only_dfu [OF flash_only_erase_range [OF s1]]])
  have "P (hw s1)"
  proof (rule erase_range_P [OF s1 assms(2)])
    show "G (St32 FLASH_CR v)" for v unfolding assms(3) by (rule app_store_regs)
    show "G (St32 FLASH_AR x)" if "a \<le> x" "x < a + ucast (prog_len s)" for x
    proof -
      have "lo \<le> x" "x < hi"
        using that assms(4, 5) lim unfolding word_le_nat_alt word_less_nat_alt by linarith+
      then show ?thesis unfolding assms(3) by (rule app_store_regs)
    qed
    show "unat (a + ucast (prog_len s)) + unat (page_size s) \<le> 2 ^ 32" using lim assms(5, 6) by simp
  qed
  moreover note span = app_store_span [OF assms(4) nw assms(5)]
  ultimately show ?thesis
    using rest by (auto simp: len1 assms(3) split: if_splits
        intro: program_buffer_gd32_P program_buffer_P span app_store_regs simp del: fmc_reg.simps)
qed

lemma safewrite_P:
  assumes "(if c then check_do_erase b s else Some s) = Some s'" "P (hw s)"
    and "G = app_store flash_app_start (flash_app_end s)" "unat (flash_app_end s) + unat (page_size s) \<le> 2 ^ 32"
  shows "P (hw s')"
proof (cases "c \<and> \<not> safe_erased s")
  case True
  then obtain s1 where s1: "flash_erase_range b flash_app_start (flash_app_end s) s = Some s1" "hw s' = hw s1"
    using assms(1) by (auto simp: check_do_erase_def bind_eq_Some_conv)
  have "P (hw s1)"
    by (rule erase_range_P [OF s1(1) assms(2) _ _ assms(4)]; unfold assms(3); intro app_store_regs)
  then show ?thesis by (simp add: s1(2))
next
  case False
  then show ?thesis using assms(1, 2) by (auto simp: check_do_erase_def split: if_splits)
qed

end

text \<open>What a safe-write erase leaves of the quantities the guards use.\<close>

lemma safewrite_keeps:
  assumes "(if c then check_do_erase b s else Some s) = Some s'"
  shows "page_size s' = page_size s" "flash_app_end s' = flash_app_end s"
proof -
  have "page_size s' = page_size s \<and> flash_app_end s' = flash_app_end s"
  proof (cases "c \<and> \<not> safe_erased s")
    case True
    then obtain s1 where s1: "flash_erase_range b flash_app_start (flash_app_end s) s = Some s1"
      and s': "s' = s1\<lparr>safe_erased := True\<rparr>"
      using assms by (auto simp: check_do_erase_def bind_eq_Some_conv)
    note eqs = flash_only_eqs [OF flash_only_erase_range [OF s1]]
    have "page_size s' = page_size s1"
      by (simp add: s' page_size_def get_flash_page_size_def lnCpuID_vendor_def Let_def)
    then show ?thesis using eqs by (simp add: s' flash_app_end_def lnCpuID_flashSize_def)
  next
    case False
    then show ?thesis using assms by (auto simp: check_do_erase_def split: if_splits)
  qed
  then show "page_size s' = page_size s" "flash_app_end s' = flash_app_end s" by auto
qed

text \<open>The range of the pending operation: from where to where it would erase or program.\<close>

definition dfu_range :: "('h, 'm) dfu_world_scheme \<Rightarrow> nat \<times> nat" where
  "dfu_range s =
     (if prog_blocknum s = 0 then (unat (read_u32 (prog_buf s) 1), DFU_TRANSFER_SIZE)
      else (unat (dfu_block_addr (prog_addr s) (prog_blocknum s)), unat (prog_len s)))"

context guarded_bus begin

lemma busy_P:
  assumes "dfu_busy_operation cfg b s = Some s'" "P (hw s)"
    and G: "G = app_store flash_app_start (flash_app_end s)"
    and room: "unat (flash_app_end s) + unat (page_size s) \<le> 2 ^ 32" "page_size s \<noteq> 0"
    and nw: "fst (dfu_range s) + snd (dfu_range s) < 2 ^ 32"
  shows "P (hw s')"
proof (cases "prog_blocknum s = 0")
  case True
  show ?thesis
  proof (cases "prog_buf s ! 0 = CMD_ERASE")
    case erase: True
    let ?a = "read_u32 (prog_buf s) 1"
    from assms(1) True erase obtain s1
      where s1: "(if ENABLE_SAFEWRITE cfg then check_do_erase b s else Some s) = Some s1"
        and rest: "(if flash_app_start \<le> read_u32 (prog_buf s1) 1 \<and>
            read_u32 (prog_buf s1) 1 + of_nat DFU_TRANSFER_SIZE \<le> flash_app_end s
          then erase_if_needed b (read_u32 (prog_buf s1) 1) s1 else Some s1) = Some s'"
      by (auto simp: dfu_busy_operation_def dfu_cmd_erase_def Let_def bind_eq_Some_conv simp del: One_nat_def)
    note same = dfu_fields_eq [OF more_safewrite [OF s1]]
    have P1: "P (hw s1)" by (rule safewrite_P [OF s1 assms(2) G room(1)])
    have u: "unat (?a + 4096) = unat ?a + 4096"
      using unat_no_wrap [of ?a 4096 4096] nw True by (simp add: dfu_range_def)
    show ?thesis
    proof (cases "flash_app_start \<le> ?a \<and> ?a + of_nat DFU_TRANSFER_SIZE \<le> flash_app_end s")
      case guard: True
      then have e: "erase_if_needed b ?a s1 = Some s'" using rest by (simp add: same)
      have "?a < flash_app_end s" using guard u by (simp add: word_le_nat_alt word_less_nat_alt)
      then show ?thesis
        by (intro erase_if_needed_P [OF e P1]; unfold G; intro app_store_regs) (use guard in simp_all)
    next
      case False
      then show ?thesis using rest P1 by (auto simp: same)
    qed
  next
    case False
    then show ?thesis using assms(1, 2) True by (auto simp: dfu_busy_operation_def split: if_splits)
  qed
next
  case False
  let ?a = "dfu_block_addr (prog_addr s) (prog_blocknum s)"
  from assms(1) False obtain s1
    where s1: "(if ENABLE_SAFEWRITE cfg then check_do_erase b s else Some s) = Some s1"
      and rest: "(if flash_app_start \<le> dfu_block_addr (prog_addr s1) (prog_blocknum s1) \<and>
          dfu_block_addr (prog_addr s1) (prog_blocknum s1) + ucast (prog_len s1) \<le> flash_app_end s
        then dfu_program_block b (dfu_block_addr (prog_addr s1) (prog_blocknum s1)) s1 else Some s1) = Some s'"
    by (auto simp: dfu_busy_operation_def dfu_write_block_def Let_def bind_eq_Some_conv)
  note same = dfu_fields_eq [OF more_safewrite [OF s1]]
  have P1: "P (hw s1)" by (rule safewrite_P [OF s1 assms(2) G room(1)])
  have u: "unat (?a + ucast (prog_len s)) = unat ?a + unat (prog_len s)"
    using unat_no_wrap [of ?a "unat (prog_len s)" "unat (prog_len s)"] nw False by (simp add: dfu_range_def)
  show ?thesis
  proof (cases "flash_app_start \<le> ?a \<and> ?a + ucast (prog_len s) \<le> flash_app_end s")
    case guard: True
    then have e: "dfu_program_block b ?a s1 = Some s'" using rest by (simp add: same)
    show ?thesis
      by (rule program_block_P [OF e P1 G])
        (use guard u room safewrite_keeps [OF s1] in \<open>simp_all add: same word_le_nat_alt\<close>)
  next
    case False
    then show ?thesis using rest P1 by (auto simp: same)
  qed
qed

lemma complete_P:
  assumes "usbdfu_getstatus_complete cfg b s = Some s'" "P (hw s)"
    and G: "G = app_store flash_app_start (flash_app_end s)"
    and room: "unat (flash_app_end s) + unat (page_size s) \<le> 2 ^ 32" "page_size s \<noteq> 0"
    and nw: "fst (dfu_range s) + snd (dfu_range s) < 2 ^ 32"
  shows "P (hw s')"
proof (cases "usbdfu_state s = STATE_DFU_DNBUSY")
  case True
  let ?s1 = "flash_unlock b False s"
  from True assms(1) obtain s2 where s2: "dfu_busy_operation cfg b ?s1 = Some s2"
    and s': "hw s' = hw (flash_lock b s2)"
    by (auto simp: usbdfu_getstatus_complete_def Let_def bind_eq_Some_conv)
  have P1: "P (hw ?s1)" by (rule unlock_P [OF assms(2)]) (unfold G, rule app_store_regs)
  have same: "page_size ?s1 = page_size s" "flash_app_end ?s1 = flash_app_end s" "dfu_range ?s1 = dfu_range s"
    using dfu_fields_eq [OF flash_more [OF unlock_more [of b s]]]
    by (simp_all add: page_size_more [OF unlock_more] flash_app_end_more [OF unlock_more] dfu_range_def)
  have "P (hw s2)" by (rule busy_P [OF s2 P1]) (use G room nw same in simp_all)
  then have "P (hw (flash_lock b s2))" by (rule lock_P) (unfold G, rule app_store_regs)
  then show ?thesis by (simp add: s')
next
  case False
  then show ?thesis using assms(1, 2)
    by (cases "usbdfu_state s") (auto simp: usbdfu_getstatus_complete_def)
qed

end

section \<open>Properties\<close>

lemma flash_room:
  assumes "cpu_inv s" "cached_size s \<in> {0, 1024, 2048}"
  shows "unat (flash_app_end s) + unat (page_size s) \<le> 2 ^ 32" "page_size s \<noteq> 0"
    "0x8000000 \<le> unat (flash_app_end s)"
proof -
  obtain n where n: "cpu_flashSize s = int n" "n < 0x10000"
    using assms(1) by (auto simp: cpu_inv_def) (metis int_ops(3) nonneg_int_cases of_nat_less_iff of_nat_numeral)
  have "flash_app_end s = FLASH_BASE_ADDR + of_nat (n * 1024)"
    by (simp add: flash_app_end_def lnCpuID_flashSize_def n(1))
  then have e: "unat (flash_app_end s) = 0x8000000 + n * 1024"
    using n(2) by (simp only: unat_word_ariths unsigned_of_nat take_bit_eq_mod) simp
  have "page_size s = 1024 \<or> page_size s = 2048" by (rule page_size_cases [OF assms(2)])
  then show "unat (flash_app_end s) + unat (page_size s) \<le> 2 ^ 32" "page_size s \<noteq> 0"
    "0x8000000 \<le> unat (flash_app_end s)"
    using e n(2) by auto
qed

lemma fmc_device_trace: "fmc_device b dev \<Longrightarrow> fmc_device (trace_bus b) (\<lambda>(h, tr). dev h)"
  unfolding fmc_device_def by (simp add: trace_bus_def case_prod_beta)

text \<open>C8: on any hardware, the completion of a status request issues no store that erases or
  programs anything outside the application area: the page address stored for an erase and every
  programmed half word or word lie between the end of the boot loader and the end of the flash, and
  every other store goes to the key or control register. The range of the request must not wrap
  around at 2^32.\<close>

theorem boot_loader_untouched:
  assumes "cpu_inv s" "cached_size s \<in> {0, 1024, 2048}" "snd (hw s) = []"
    and "fst (dfu_range s) + snd (dfu_range s) < 2 ^ 32"
    and "usbdfu_getstatus_complete cfg (trace_bus b) s = Some s'"
  shows "list_all (app_store flash_app_start (flash_app_end s)) (snd (hw s'))"
  using traced.complete_P [OF assms(5) _ refl flash_room(1, 2) [OF assms(1, 2)] assms(4)] assms(3)
  by (cases "hw s"; cases "hw s'") simp

lemma boot_loader_untouched_witness:
  "\<exists>s'. usbdfu_getstatus_complete (cmake_build False) (trace_bus fmc_bus) (dfu_demo (flash_demo, [])) = Some s' \<and>
    list_all (app_store 0x8002000 0x8010000) (snd (hw s'))"
proof -
  let ?s = "dfu_demo (flash_demo, [] :: store list)"
  have size: "d_page flash_demo = 1024" "d_size flash_demo = 0x10000" "fmc_idle flash_demo"
    by (simp_all add: fmc_idle_def flash_demo_def)
  obtain s' where s': "usbdfu_getstatus_complete (cmake_build False) (trace_bus fmc_bus) ?s = Some s'"
    using block_written_all [OF fmc_device_trace [OF fmc.fmc_device_axioms], where s = ?s and cfg = "cmake_build False" and a = "0x8002400"]
    by (auto simp: geometry_demo cmake_build_def size dfu_block_addr_def)
  have "cpu_inv ?s" "cached_size ?s \<in> {0, 1024, 2048}" "snd (hw ?s) = []"
    "fst (dfu_range ?s) + snd (dfu_range ?s) < 2 ^ 32"
    by (simp_all add: dfu_range_def dfu_block_addr_def) (simp_all add: dfu_demo_def usb_boot_def cpu_inv_def)
  from boot_loader_untouched [OF this s'] s' show ?thesis by (simp add: flash_app_start_def)
qed

text \<open>C24: the guard of the block write is a sum modulo 2^32: a block of 4096 bytes at 0xFFFFF800
  passes it, and is programmed without an erase, its second half from address 0 on, where the
  chips alias the flash that holds the boot loader.\<close>

theorem block_guard_wraps:
  assumes "cpu_inv s" "\<not> ENABLE_SAFEWRITE cfg"
    and "prog_addr s = 0xFFFFF800" "prog_blocknum s = 2" "prog_len s = 4096"
  shows "dfu_busy_operation cfg b s =
      (if gd32 s then flash_program_buffer_gd32 b 0xFFFFF800 (prog_buf s) 4096 s
       else flash_program_buffer b 0xFFFFF800 (prog_buf s) 4096 s) \<and>
    (0xFFFFF800 :: u32) + 2 * of_nat 1024 = 0"
proof -
  have "0x8000000 \<le> unat (flash_app_end s)"
    using flash_room(3) [of "s\<lparr>cached_size := 0\<rparr>"] assms(1)
    by (simp add: cpu_inv_def flash_app_end_def lnCpuID_flashSize_def)
  then have "0xFFFFF800 + 4096 \<le> flash_app_end s" by (simp add: word_le_nat_alt)
  then show ?thesis
    using assms(2-5)
    by (simp add: dfu_busy_operation_def dfu_write_block_def dfu_program_block_def dfu_block_addr_def
        flash_app_start_def erase_range_unfold)
qed

lemma block_guard_wraps_witness:
  "dfu_busy_operation (cmake_build False) fmc_bus
      ((dfu_demo flash_demo)\<lparr>prog_addr := 0xFFFFF800, prog_len := 4096\<rparr>) =
    flash_program_buffer fmc_bus 0xFFFFF800 ([1, 2, 3, 4] @ zeros 4092) 4096
      ((dfu_demo flash_demo)\<lparr>prog_addr := 0xFFFFF800, prog_len := 4096\<rparr>)"
  using block_guard_wraps [of "(dfu_demo flash_demo)\<lparr>prog_addr := 0xFFFFF800, prog_len := 4096\<rparr>" "cmake_build False" fmc_bus]
  by (simp add: dfu_demo_def usb_boot_def cpu_inv_def cmake_build_def)

text \<open>C25: an erase command for a page closer than 4096 bytes to the end of the flash is dropped: the
  guard asks for a whole transfer, not a page. The flash is as before, and the next status reply is
  OK nevertheless.\<close>

theorem cmd_erase_tail_ignored:
  assumes "fmc_device b dev" "fmc_idle (dev (hw s))" "\<not> ENABLE_SAFEWRITE cfg"
    and "usbdfu_state s = STATE_DFU_DNBUSY" "prog_blocknum s = 0" "prog_buf s ! 0 = CMD_ERASE"
    and "fst (dfu_range s) + DFU_TRANSFER_SIZE < 2 ^ 32"
    and "unat (flash_app_end s) < fst (dfu_range s) + DFU_TRANSFER_SIZE"
  shows "\<exists>s'. usbdfu_getstatus_complete cfg b s = Some s' \<and> cells (dev (hw s')) = cells (dev (hw s)) \<and>
    fst (usbdfu_getstatus t s') = DFU_STATUS_OK"
proof -
  let ?s1 = "flash_unlock b False s" and ?a = "read_u32 (prog_buf s) 1"
  have d1: "dev (hw ?s1) = (dev (hw s))\<lparr>d_ctl := 0\<rparr>" by (rule fmc_device.unlock_dev [OF assms(1, 2)])
  note same = dfu_fields_eq [OF flash_more [OF unlock_more [of b s]]] flash_app_end_more [OF unlock_more [of b s]]
  have "unat (?a + 4096) = unat ?a + 4096"
    using unat_no_wrap [of ?a 4096 4096] assms(5, 7) by (simp add: dfu_range_def)
  then have "\<not> ?a + 4096 \<le> flash_app_end s"
    using assms(5, 8) by (simp add: dfu_range_def word_le_nat_alt)
  then have "dfu_busy_operation cfg b ?s1 = Some ?s1"
    using assms(3, 5, 6) by (simp add: dfu_busy_operation_def dfu_cmd_erase_def same)
  moreover have "dev (hw (flash_lock b ?s1)) = (dev (hw ?s1))\<lparr>d_ctl := FLASH_CR_LOCK\<rparr>"
    by (rule fmc_device.lock_dev [OF assms(1)]) (simp add: d1)
  ultimately show ?thesis
    using assms(4) by (simp add: usbdfu_getstatus_complete_def usbdfu_getstatus_def d1)
qed

lemma cmd_erase_tail_ignored_witness:
  "\<exists>s'. usbdfu_getstatus_complete (cmake_build False) fmc_bus
      ((dfu_demo flash_demo)\<lparr>prog_blocknum := 0, prog_buf := [0x41, 0x00, 0xFC, 0x00, 0x08] @ zeros 4091\<rparr>) = Some s' \<and>
    cells (hw s') = cells flash_demo"
proof -
  let ?s = "(dfu_demo flash_demo)\<lparr>prog_blocknum := 0, prog_buf := [0x41, 0x00, 0xFC, 0x00, 0x08] @ zeros 4091\<rparr>"
  have "fmc_idle (hw ?s)" "\<not> ENABLE_SAFEWRITE (cmake_build False)" "usbdfu_state ?s = STATE_DFU_DNBUSY"
    "prog_blocknum ?s = 0" "prog_buf ?s ! 0 = CMD_ERASE"
    "fst (dfu_range ?s) + DFU_TRANSFER_SIZE < 2 ^ 32"
    "unat (flash_app_end ?s) < fst (dfu_range ?s) + DFU_TRANSFER_SIZE"
    by (simp_all add: fmc_idle_def flash_demo_def cmake_build_def dfu_range_def read_u32_def dfu_demo_def
        usb_boot_def flash_app_end_def lnCpuID_flashSize_def)
  from cmd_erase_tail_ignored [OF fmc.fmc_device_axioms this, of 0] show ?thesis by auto
qed

end
