(* ===== verification/UsbChip.thy ===== *)
theory UsbChip
  imports UsbOut DfuStores
begin

text \<open>
  The chip as a whole, with the USB peripheral and the flash controller on one bus, and what one poll of
  the firmware does after each kind of transaction on endpoint 0: SETUP, OUT, IN. Each lemma gives the
  software state, the states of both directions of the endpoint, and that the flash is untouched.
\<close>

section \<open>The chip\<close>

text \<open>The addresses of the USB peripheral and its packet memory.\<close>

definition usb_space :: "u32 \<Rightarrow> bool" where
  "usb_space a \<longleftrightarrow> 0x40005C00 \<le> a \<and> a < 0x40006400"

text \<open>What an access to the USB peripheral leaves alone is some observation \<open>obs\<close> of the hardware: the flash
  controller, or the device address. Loads change neither it nor the peripheral, stores to the endpoints,
  the packet memory and the event registers do not change it.\<close>

locale usb_chip = usb_periph b dev
  for b :: "'h bus" and dev :: "'h \<Rightarrow> usb_dev" +
  fixes obs :: "'h \<Rightarrow> 'o"
  assumes loads_usb: "dev (snd (ld8 b a h)) = dev h" "dev (snd (ld16 b a h)) = dev h" "dev (snd (ld32 b a h)) = dev h"
    and loads_obs: "obs (snd (ld8 b a h)) = obs h" "obs (snd (ld16 b a h)) = obs h" "obs (snd (ld32 b a h)) = obs h"
    and usb_stores: "usb_space a \<Longrightarrow> a \<noteq> USB_DADDR_REG \<Longrightarrow> obs (st32 b a v h) = obs h"
    and event_stores: "a = USB_ISTR_REG \<or> a = USB_CNTR_REG \<or> a = USB_DADDR_REG \<Longrightarrow> dev (st32 b a v h) = dev h"

text \<open>The flash controller on the same bus: up to the busy counter, accesses to the USB peripheral leave it
  alone, and its own stores do not reach the USB peripheral.\<close>

locale dfu_chip = usb_chip b dev "\<lambda>h. settled (fdev h)" + fmc_device b fdev
  for b :: "'h bus" and dev :: "'h \<Rightarrow> usb_dev" and fdev :: "'h \<Rightarrow> fmc_dev" +
  assumes flash_stores: "\<not> usb_space a \<Longrightarrow> dev (st16 b a w h) = dev h" "\<not> usb_space a \<Longrightarrow> dev (st32 b a v h) = dev h"

text \<open>Endpoint 0: its buffers are in packet memory, behind the descriptor table.\<close>

definition ep0_ok :: "usb_dev \<Rightarrow> bool" where
  "ep0_ok d \<longleftrightarrow> d_btable d = 0 \<and> even (unat (pma d 0)) \<and> 8 \<le> unat (pma d 0) \<and> unat (pma d 0) \<le> 448 \<and>
     even (unat (pma d 2)) \<and> 8 \<le> unat (pma d 2) \<and> unat (pma d 2) \<le> 448"

definition rx_stat :: "usb_dev \<Rightarrow> u16" where "rx_stat d = ep_reg d 0 AND USB_EP_RX_STAT"

definition tx_stat :: "usb_dev \<Rightarrow> u16" where "tx_stat d = ep_reg d 0 AND USB_EP_TX_STAT"

text \<open>The chip with given states of the two directions of endpoint 0 and a given observation.\<close>

definition chip_at ::
  "('h \<Rightarrow> usb_dev) \<Rightarrow> ('h \<Rightarrow> 'o) \<Rightarrow> u16 \<Rightarrow> u16 \<Rightarrow> 'o \<Rightarrow> 'h \<Rightarrow> bool" where
  "chip_at dev obs rx tx D h \<longleftrightarrow>
     ep0_ok (dev h) \<and> rx_stat (dev h) = rx \<and> tx_stat (dev h) = tx \<and> obs h = D"

lemma usb_space_regs [simp]:
  "usb_space USB_ISTR_REG" "usb_space USB_CNTR_REG" "usb_space USB_DADDR_REG" "usb_space USB_BTABLE_REG"
  "ep < 8 \<Longrightarrow> usb_space (USB_EP_REG ep)" "ep < 8 \<Longrightarrow> USB_EP_REG ep \<notin> {USB_ISTR_REG, USB_CNTR_REG, USB_DADDR_REG}"
  "k < 256 \<Longrightarrow> usb_space (pma_addr k)" "k < 256 \<Longrightarrow> pma_addr k \<notin> {USB_ISTR_REG, USB_CNTR_REG, USB_DADDR_REG}"
proof -
  show "usb_space USB_ISTR_REG" "usb_space USB_CNTR_REG" "usb_space USB_DADDR_REG" "usb_space USB_BTABLE_REG"
    by (simp_all add: usb_space_def)
  have none: "pma_index a = None \<and> ep_index a = None" if "a \<in> {USB_ISTR_REG, USB_CNTR_REG, USB_DADDR_REG}" for a
    using that by (auto simp: pma_index_def ep_index_def)
  show "USB_EP_REG ep \<notin> {USB_ISTR_REG, USB_CNTR_REG, USB_DADDR_REG}" if "ep < 8"
    using ep_index_reg [OF that] none by (metis option.simps(3))
  show "pma_addr k \<notin> {USB_ISTR_REG, USB_CNTR_REG, USB_DADDR_REG}" if "k < 256"
    using pma_index_addr [OF that] none by (metis option.simps(3))
  show "usb_space (USB_EP_REG ep)" if "ep < 8"
  proof -
    have "unat (USB_EP_REG ep) = 0x40005C00 + 4 * unat ep"
      using unat_ep [OF that] that by (simp add: USB_EP_REG_def unat_word_ariths word_less_nat_alt)
    then show ?thesis using that by (simp add: usb_space_def word_le_nat_alt word_less_nat_alt)
  qed
  show "usb_space (pma_addr k)" if "k < 256"
  proof -
    have "unat (4 * of_nat k :: u32) = 4 * k"
      using that by (simp add: unat_word_ariths unsigned_of_nat take_bit_nat_eq_self)
    then have "unat (pma_addr k) = 0x40006000 + 4 * k" using that by (simp add: pma_addr_def unat_word_ariths)
    then show ?thesis using that by (simp add: usb_space_def word_le_nat_alt word_less_nat_alt)
  qed
qed

lemma usb_addr_neq [simp]:
  "ep < 8 \<Longrightarrow> USB_EP_REG ep \<noteq> USB_DADDR_REG" "k < 256 \<Longrightarrow> pma_addr k \<noteq> USB_DADDR_REG"
  using usb_space_regs(6) [of ep] usb_space_regs(8) [of k] by simp_all

lemma stat_bits:
  fixes r :: u16
  shows "st \<in> {0, 0x1000, 0x2000, 0x3000} \<Longrightarrow> ((r AND NOT USB_EP_RX_STAT) OR st) AND USB_EP_RX_STAT = st"
    "st \<in> {0, 0x1000, 0x2000, 0x3000} \<Longrightarrow> ((r AND NOT USB_EP_RX_STAT) OR st) AND USB_EP_TX_STAT = r AND USB_EP_TX_STAT"
    "((r AND NOT USB_EP_TX_STAT) OR USB_EP_TX_STAT_VALID) AND USB_EP_TX_STAT = USB_EP_TX_STAT_VALID"
    "((r AND NOT USB_EP_TX_STAT) OR USB_EP_TX_STAT_VALID) AND USB_EP_RX_STAT = r AND USB_EP_RX_STAT"
    "(r AND NOT USB_EP_RX_CTR) AND USB_EP_RX_STAT = r AND USB_EP_RX_STAT"
    "(r AND NOT USB_EP_RX_CTR) AND USB_EP_TX_STAT = r AND USB_EP_TX_STAT"
    "(r AND NOT USB_EP_TX_CTR) AND USB_EP_RX_STAT = r AND USB_EP_RX_STAT"
    "(r AND NOT USB_EP_TX_CTR) AND USB_EP_TX_STAT = r AND USB_EP_TX_STAT"
  by (rule word16_eqI, auto simp: bit_simps)+

section \<open>The firmware's accesses to endpoint 0\<close>

context usb_chip begin

lemma chip_loads [simp]:
  "chip_at dev obs rx tx D (snd (ld8 b a h)) = chip_at dev obs rx tx D h"
  "chip_at dev obs rx tx D (snd (ld16 b a h)) = chip_at dev obs rx tx D h"
  "chip_at dev obs rx tx D (snd (ld32 b a h)) = chip_at dev obs rx tx D h"
  "chip_at dev obs rx tx D (hw (snd (GET_REG b a s))) = chip_at dev obs rx tx D (hw s)"
  by (simp_all add: chip_at_def loads_usb loads_obs GET_REG_def case_prod_beta)

lemma chip_btable [simp]:
  "chip_at dev obs rx tx D (hw (snd (GET_BTABLE_ENTRY b ep off s))) = chip_at dev obs rx tx D (hw s)"
  "chip_at dev obs rx tx D (hw (snd (USB_GET_EP_RX_BUFF b ep s))) = chip_at dev obs rx tx D (hw s)"
  "chip_at dev obs rx tx D (hw (snd (rx_min b ep len s))) = chip_at dev obs rx tx D (hw s)"
  by (simp_all add: GET_BTABLE_ENTRY_def USB_GET_EP_RX_BUFF_def rx_min_def case_prod_beta)

lemma chip_copy_words_from [simp]:
  "chip_at dev obs rx tx D (hw (snd (copy_words_from_pm b pm i n s))) = chip_at dev obs rx tx D (hw s)"
  by (induction n arbitrary: i s) (simp_all add: case_prod_beta)

lemma chip_copy_from [simp]:
  "chip_at dev obs rx tx D (hw (snd (st_usbfs_copy_from_pm b pm len s))) = chip_at dev obs rx tx D (hw s)"
  by (simp add: st_usbfs_copy_from_pm_def case_prod_beta)

lemma obs_UPD [simp]:
  "usb_space a \<Longrightarrow> a \<noteq> USB_DADDR_REG \<Longrightarrow> obs (hw (UPD_REG b a f s)) = obs (hw s)"
  by (simp add: UPD_REG_def GET_REG_def SET_REG_def case_prod_beta usb_stores loads_obs)

lemma chip_macros:
  assumes "chip_at dev obs rx tx D (hw s)"
  shows "st \<in> {0, 0x1000, 0x2000, 0x3000} \<Longrightarrow> chip_at dev obs st tx D (hw (USB_SET_EP_RX_STAT b 0 st s))"
    and "chip_at dev obs rx tx D (hw (USB_CLR_EP_RX_CTR b 0 s))"
    and "chip_at dev obs rx tx D (hw (USB_CLR_EP_TX_CTR b 0 s))"
proof -
  have fl: "obs (hw (USB_SET_EP_RX_STAT b 0 st s)) = obs (hw s)"
    "obs (hw (USB_CLR_EP_RX_CTR b 0 s)) = obs (hw s)"
    "obs (hw (USB_CLR_EP_TX_CTR b 0 s)) = obs (hw s)"
    by (simp_all add: USB_SET_EP_RX_STAT_def USB_CLR_EP_RX_CTR_def USB_CLR_EP_TX_CTR_def
        USB_CLR_EP_NTOGGLE_BIT_AND_SET_def CLR_REG_BIT_MSK_AND_SET_def TOG_SET_REG_BIT_MSK_AND_SET_def)
  show "chip_at dev obs rx tx D (hw (USB_CLR_EP_RX_CTR b 0 s))" "chip_at dev obs rx tx D (hw (USB_CLR_EP_TX_CTR b 0 s))"
    using assms fl dev_ep_macros(3) [of 0 s] dev_ep_macros(4) [of 0 s] by (simp_all add: chip_at_def ep0_ok_def rx_stat_def tx_stat_def stat_bits(5-8) [simplified])
  show "chip_at dev obs st tx D (hw (USB_SET_EP_RX_STAT b 0 st s))" if "st \<in> {0, 0x1000, 0x2000, 0x3000}"
    using assms fl dev_ep_macros(2) [of 0 st s] that
    using stat_bits(1, 2) [OF that, of "ep_reg (dev (hw s)) 0"]
    by (simp add: chip_at_def ep0_ok_def rx_stat_def tx_stat_def del: insert_iff)
qed

lemma chip_read_packet:
  assumes "chip_at dev obs rx tx D (hw s)" "rx \<noteq> USB_EP_RX_STAT_VALID"
  shows "chip_at dev obs (if usb_force_nak s ! 0 = 0 then USB_EP_RX_STAT_VALID else rx) tx D
    (hw (snd (usbd_ep_read_packet b 0 len s)))"
proof -
  have "ep_reg (dev (hw s)) 0 AND USB_EP_RX_STAT \<noteq> USB_EP_RX_STAT_VALID"
    using assms by (simp add: chip_at_def rx_stat_def)
  then have stat: "\<not> fst (rd32 b (USB_EP_REG 0) s) AND ucast USB_EP_RX_STAT = ucast USB_EP_RX_STAT_VALID"
    using ep_value [of 0 "hw s"] by (simp only: and_ucast16 ucast16_inject) simp
  let ?s2 = "snd (rx_min b 0 len (snd (rd32 b (USB_EP_REG 0) s)))"
  let ?n = "unat (fst (rx_min b 0 len (snd (rd32 b (USB_EP_REG 0) s))))"
  define s4 where "s4 = snd (st_usbfs_copy_from_pm b (fst (USB_GET_EP_RX_BUFF b 0 ?s2)) ?n (snd (USB_GET_EP_RX_BUFF b 0 ?s2)))"
  have "chip_at dev obs rx tx D (hw s4)" using assms(1) by (simp add: s4_def)
  note clr = chip_macros(2) [OF this]
  have "world.more (USB_CLR_EP_RX_CTR b 0 s4) = world.more s" by (simp add: s4_def)
  note eq = usb_fields_eq(15) [OF this]
  have "snd (usbd_ep_read_packet b 0 len s) = (if usb_force_nak (USB_CLR_EP_RX_CTR b 0 s4) ! 0 = 0
      then USB_SET_EP_RX_STAT b 0 USB_EP_RX_STAT_VALID (USB_CLR_EP_RX_CTR b 0 s4) else USB_CLR_EP_RX_CTR b 0 s4)"
    using stat by (simp add: usbd_ep_read_packet_def case_prod_beta Let_def s4_def)
  then show ?thesis using clr chip_macros(1) [OF clr] by (simp add: eq)
qed

lemma chip_copy_words_to:
  assumes "p + i + n \<le> 256"
  shows "obs (hw (copy_words_to_pm b (pma_addr p) src i n s)) = obs (hw s)"
  using assms
proof (induction n arbitrary: i s)
  case (Suc n)
  have "usb_space (pma_addr (p + i))" using Suc.prems by simp
  then show ?case using Suc by (simp add: pma_addr_add usb_stores)
qed simp

lemma write_packet_obs:
  assumes "ep0_ok (dev (hw s))" "unat len \<le> 64"
  shows "obs (hw (snd (usbd_ep_write_packet b 0 src len s))) = obs (hw s)"
proof -
  let ?D = "dev (hw s)"
  define p where "p = unat (pma ?D 0) div 2"
  define s1 where "s1 = snd (rd32 b (USB_EP_REG 0) s)"
  define s2 where "s2 = snd (USB_GET_EP_TX_BUFF b 0 s1)"
  define s3 where "s3 = st_usbfs_copy_to_pm b (pma_addr p) src (unat len) s2"
  have d1: "dev (hw s1) = ?D" and f1: "obs (hw s1) = obs (hw s)"
    by (simp_all add: s1_def loads_usb loads_obs)
  have bt: "d_btable ?D = 0" using assms(1) by (simp add: ep0_ok_def)
  have d2: "dev (hw s2) = ?D"
    using dev_btable [of 0 0 s1] bt by (simp add: s2_def USB_GET_EP_TX_BUFF_def case_prod_beta d1)
  have "(of_nat (unat (pma ?D 0)) :: u32) = of_nat (2 * p)" using assms(1) by (simp add: p_def ep0_ok_def)
  then have "(ucast (pma ?D 0) :: u32) * 2 = 4 * of_nat p" by simp
  then have pm: "fst (USB_GET_EP_TX_BUFF b 0 s1) = pma_addr p"
    using dev_btable [of 0 0 s1] bt by (simp add: USB_GET_EP_TX_BUFF_def case_prod_beta d1 pma_addr_def)
  have fits: "p + (unat len + 1) div 2 \<le> 256" using assms unfolding p_def ep0_ok_def
    by (elim conjE) linarith
  have f2: "obs (hw s2) = obs (hw s)"
    by (simp add: s2_def USB_GET_EP_TX_BUFF_def GET_BTABLE_ENTRY_def GET_REG_def case_prod_beta loads_obs f1)
  have d3: "d_btable (dev (hw s3)) = 0" using dev_copy_to_pm [OF fits, of src s2] bt by (simp add: s3_def d2)
  have f3: "obs (hw s3) = obs (hw s)"
    using chip_copy_words_to [of p 0 "(unat len + 1) div 2" src s2] fits
    by (simp add: s3_def st_usbfs_copy_to_pm_def f2)
  have e: "btable_entry 0 2 0 = pma_addr 1" using btable_entry_0 [of 0 2] by simp
  have "fst (GET_REG b USB_BTABLE_REG s3) = 0" using d3 btable_value [of "hw s3"] by (simp add: GET_REG_def case_prod_beta)
  then have f4: "obs (hw (USB_SET_EP_TX_COUNT b 0 len s3)) = obs (hw s)"
    by (simp add: SET_BTABLE_ENTRY_def case_prod_beta e SET_REG_def usb_stores GET_REG_def loads_obs f3)
  have f5: "obs (hw (USB_SET_EP_TX_STAT b 0 st t)) = obs (hw t)" for st t
    by (simp add: USB_SET_EP_TX_STAT_def TOG_SET_REG_BIT_MSK_AND_SET_def)
  show ?thesis
    by (simp add: usbd_ep_write_packet_def case_prod_beta Let_def s1_def [symmetric] f1)
      (simp add: s2_def [symmetric] pm s3_def [symmetric] f4 f5)
qed

lemma chip_write_packet:
  assumes "chip_at dev obs rx tx D (hw s)" "tx \<noteq> USB_EP_TX_STAT_VALID" "unat len \<le> 64"
  shows "chip_at dev obs rx USB_EP_TX_STAT_VALID D (hw (snd (usbd_ep_write_packet b 0 src len s)))"
    and "tx_packet (dev (hw (snd (usbd_ep_write_packet b 0 src len s)))) = map src [0..<unat len]"
proof -
  have rdy: "tx_ready (dev (hw s))" using assms(1, 2) by (simp add: chip_at_def ep0_ok_def tx_ready_def tx_stat_def)
  obtain s' where s': "usbd_ep_write_packet b 0 src len s = (len, s')"
    "tx_packet (dev (hw s')) = map src [0..<unat len]" "pma (dev (hw s')) 0 = pma (dev (hw s)) 0"
    "d_btable (dev (hw s')) = 0" "pma (dev (hw s')) 2 = pma (dev (hw s)) 2"
    "ep_reg (dev (hw s')) 0 = (ep_reg (dev (hw s)) 0 AND NOT USB_EP_TX_STAT) OR USB_EP_TX_STAT_VALID"
    by (rule write_packet_dev [OF rdy assms(3)])
  have "obs (hw s') = obs (hw s)"
    using write_packet_obs [of s len src] assms(1, 3) s'(1) by (simp add: chip_at_def)
  then show "chip_at dev obs rx USB_EP_TX_STAT_VALID D (hw (snd (usbd_ep_write_packet b 0 src len s)))"
    using assms(1) s' stat_bits(3, 4) [of "ep_reg (dev (hw s)) 0"]
    by (simp add: chip_at_def ep0_ok_def rx_stat_def tx_stat_def)
  show "tx_packet (dev (hw (snd (usbd_ep_write_packet b 0 src len s)))) = map src [0..<unat len]"
    using s' by simp
qed

end

section \<open>The host's transactions\<close>

datatype usb_token = SETUP usb_setup_data | OUT "u8 list" | IN

definition usb_istr :: "'h bus \<Rightarrow> 'h \<Rightarrow> u16" where
  "usb_istr b h = ucast (fst (ld32 b USB_ISTR_REG h))"

text \<open>The peripheral after a transaction on endpoint 0: the event register says which direction, the
  packet lies in the receive buffer, and the direction answers NAK until the firmware opens it.\<close>

definition token_done :: "'h bus \<Rightarrow> ('h \<Rightarrow> usb_dev) \<Rightarrow> usb_token \<Rightarrow> 'h \<Rightarrow> bool" where
  "token_done b dev t h \<longleftrightarrow>
     ep0_ok (dev h) \<and> usb_istr b h AND USB_ISTR_RESET = 0 \<and> usb_istr b h AND USB_ISTR_CTR \<noteq> 0 \<and>
     usb_istr b h AND USB_ISTR_EP_ID = 0 \<and>
     (case t of
        SETUP r \<Rightarrow> usb_istr b h AND USB_ISTR_DIR \<noteq> 0 \<and> ep_reg (dev h) 0 AND USB_EP_SETUP \<noteq> 0 \<and>
          receives dev h (bytes_of_setup r) \<and> rx_stat (dev h) = USB_EP_RX_STAT_NAK \<and>
          tx_stat (dev h) = USB_EP_TX_STAT_NAK
      | OUT p \<Rightarrow> usb_istr b h AND USB_ISTR_DIR \<noteq> 0 \<and> ep_reg (dev h) 0 AND USB_EP_SETUP = 0 \<and>
          receives dev h p \<and> rx_stat (dev h) = USB_EP_RX_STAT_NAK
      | IN \<Rightarrow> usb_istr b h AND USB_ISTR_DIR = 0 \<and> tx_stat (dev h) = USB_EP_TX_STAT_NAK)"

text \<open>\<open>s'\<close> differs from \<open>s\<close> in nothing the two peripherals or the software hold.\<close>

definition same_chip ::
  "('h \<Rightarrow> usb_dev) \<Rightarrow> ('h \<Rightarrow> 'o) \<Rightarrow> ('h, 'm) world_scheme \<Rightarrow> ('h, 'm) world_scheme \<Rightarrow> bool" where
  "same_chip dev obs s s' \<longleftrightarrow>
     world.more s' = world.more s \<and> dev (hw s') = dev (hw s) \<and> obs (hw s') = obs (hw s)"

lemma same_chip_at: "same_chip dev obs s s' \<Longrightarrow> chip_at dev obs rx tx D (hw s') = chip_at dev obs rx tx D (hw s)"
  by (simp add: same_chip_def chip_at_def)

lemma same_chip_trans [trans]: "same_chip dev obs s t \<Longrightarrow> same_chip dev obs t u \<Longrightarrow> same_chip dev obs s u"
  by (simp add: same_chip_def)

lemma out_state_more:
  fixes t u :: "('h, 'm) usb_world_scheme"
  assumes "world.more u = world.more t"
  shows "out_state s bs d u = out_state s bs d t"
  by (simp add: out_state_def usb_fields_eq [OF assms] kept_more [OF assms])

lemma holds_download_more:
  fixes t u :: "('h, 'm) usb_world_scheme"
  assumes "world.more u = world.more t"
  shows "holds_download s bs k u = holds_download s bs k t"
  by (simp add: holds_download_def usb_fields_eq [OF assms] dfu_fields_eq [OF flash_more [OF assms]] kept_more [OF assms])

context usb_chip begin

lemma poll_ctr:
  assumes "usb_istr b (hw s) AND USB_ISTR_RESET = 0" "usb_istr b (hw s) AND USB_ISTR_CTR \<noteq> 0"
  obtains s1 where "same_chip dev obs s s1"
    "\<And>u. usb_ctr_event cfg b (usb_istr b (hw s)) s1 = Some u \<Longrightarrow>
      \<exists>s'. do_usb_poll cfg b s = Some s' \<and> same_chip dev obs u s'"
proof -
  define s1 where "s1 = snd (GET_REG b USB_ISTR_REG s)"
  have istr: "fst (GET_REG b USB_ISTR_REG s) = usb_istr b (hw s)"
    by (simp add: GET_REG_def usb_istr_def case_prod_beta)
  have "same_chip dev obs s s1"
    by (simp add: s1_def same_chip_def GET_REG_def case_prod_beta loads_usb loads_obs)
  moreover have clr: "same_chip dev obs u (clr_istr_if b i bt u)" for i bt and u :: "('h, 'b) usb_world_scheme"
    by (simp add: same_chip_def clr_istr_if_def CLR_REG_BIT_def SET_REG_def event_stores usb_stores)
  have cntr: "same_chip dev obs u (mod32 b USB_CNTR_REG f u)" for f and u :: "('h, 'b) usb_world_scheme"
    by (simp add: same_chip_def event_stores usb_stores loads_usb loads_obs)
  have "\<exists>s'. do_usb_poll cfg b s = Some s' \<and> same_chip dev obs u s'"
    if "usb_ctr_event cfg b (usb_istr b (hw s)) s1 = Some u" for u
    using that assms istr same_chip_trans [OF clr same_chip_trans [OF clr same_chip_trans [OF clr cntr]]]
    by (simp add: do_usb_poll_def case_prod_beta s1_def Let_def)
  ultimately show ?thesis by (intro that)
qed

text \<open>What the event is dispatched to.\<close>

lemma ctr_event:
  assumes "token_done b dev t (hw s)" "same_chip dev obs s s1"
  obtains s2 where "same_chip dev obs s s2"
    "usb_ctr_event cfg b (usb_istr b (hw s)) s1 =
      (case t of SETUP _ \<Rightarrow> usbd_control_setup cfg b s2 | OUT _ \<Rightarrow> usbd_control_out cfg b s2
       | IN \<Rightarrow> usbd_control_in cfg b (USB_CLR_EP_TX_CTR b 0 s2))"
proof -
  have ep: "(ucast (usb_istr b (hw s) AND USB_ISTR_EP_ID) :: u8) = 0" using assms(1) by (simp add: token_done_def)
  define s2 where "s2 = snd (rd32 b (USB_EP_REG 0) s1)"
  have s2: "same_chip dev obs s s2"
    using assms(2) by (simp add: same_chip_def s2_def loads_usb loads_obs)
  have "(ucast (fst (ld32 b (USB_EP_REG 0) (hw s1))) :: u16) = ep_reg (dev (hw s)) 0"
    using ep_value [of 0 "hw s1"] assms(2) by (simp add: same_chip_def)
  then have flag: "fst (ld32 b (USB_EP_REG 0) (hw s1)) AND ucast USB_EP_SETUP = 0 \<longleftrightarrow> ep_reg (dev (hw s)) 0 AND USB_EP_SETUP = 0"
    by (simp only: and_ucast16 ucast16_inject) (metis ucast_0 ucast16_inject)
  show ?thesis
  proof (cases t)
    case (SETUP r)
    then show ?thesis using assms(1) flag
      by (intro that [OF s2]) (simp add: usb_ctr_event_def case_prod_beta ep token_done_def s2_def)
  next
    case (OUT p)
    then show ?thesis using assms(1) flag
      by (intro that [OF s2]) (simp add: usb_ctr_event_def case_prod_beta ep token_done_def s2_def)
  next
    case IN
    then show ?thesis using assms(1)
      by (intro that [OF assms(2)]) (simp add: usb_ctr_event_def ep token_done_def)
  qed
qed

lemma poll_token:
  assumes "token_done b dev t (hw s)"
  obtains s1 where "same_chip dev obs s s1"
    "\<And>u. (case t of SETUP _ \<Rightarrow> usbd_control_setup cfg b s1 | OUT _ \<Rightarrow> usbd_control_out cfg b s1
       | IN \<Rightarrow> usbd_control_in cfg b (USB_CLR_EP_TX_CTR b 0 s1)) = Some u \<Longrightarrow>
      \<exists>s'. do_usb_poll cfg b s = Some s' \<and> same_chip dev obs u s'"
proof -
  have "usb_istr b (hw s) AND USB_ISTR_RESET = 0" "usb_istr b (hw s) AND USB_ISTR_CTR \<noteq> 0"
    using assms by (simp_all add: token_done_def)
  then obtain s0 where s0: "same_chip dev obs s s0"
    "\<And>u. usb_ctr_event cfg b (usb_istr b (hw s)) s0 = Some u \<Longrightarrow> \<exists>s'. do_usb_poll cfg b s = Some s' \<and> same_chip dev obs u s'"
    by (rule poll_ctr [where cfg = cfg]) blast
  obtain s1 where "same_chip dev obs s s1" "usb_ctr_event cfg b (usb_istr b (hw s)) s0 =
      (case t of SETUP _ \<Rightarrow> usbd_control_setup cfg b s1 | OUT _ \<Rightarrow> usbd_control_out cfg b s1
       | IN \<Rightarrow> usbd_control_in cfg b (USB_CLR_EP_TX_CTR b 0 s1))"
    by (rule ctr_event [OF assms s0(1)])
  then show ?thesis using s0(2) by (intro that) simp_all
qed

section \<open>The SETUP stage\<close>

lemma chip_nak_set:
  assumes "chip_at dev obs rx tx D (hw s)"
  shows "chip_at dev obs (if n = 0 then USB_EP_RX_STAT_VALID else USB_EP_RX_STAT_NAK) tx D (hw (usbd_ep_nak_set b 0 n s))"
proof -
  have "chip_at dev obs rx tx D (hw (s\<lparr>usb_force_nak := f\<rparr>))" for f using assms by simp
  note mac = chip_macros(1) [OF this]
  show ?thesis by (auto simp: usbd_ep_nak_set_def mac)
qed

lemma setup_stage:
  fixes s :: "('h, 'm) usb_world_scheme"
  assumes "chip_at dev obs USB_EP_RX_STAT_NAK USB_EP_TX_STAT_NAK D (hw s)" "receives dev (hw s) (bytes_of_setup r)"
    and "usb_force_nak s \<noteq> []"
  obtains s3 where "usbd_control_setup cfg b s =
      (if wLength r = 0 \<or> bmRequestType r AND 0x80 \<noteq> 0 then usb_control_setup_read cfg b s3
       else Some (usb_control_setup_write b s3))"
    "world.more s3 = world.more (s\<lparr>usb_complete_cb := None, usb_force_nak := (usb_force_nak s)[0 := 1], usb_req := r\<rparr>)"
    "chip_at dev obs USB_EP_RX_STAT_NAK USB_EP_TX_STAT_NAK D (hw s3)"
proof -
  let ?t = "s\<lparr>usb_complete_cb := None\<rparr>"
  let ?u = "?t\<lparr>usb_force_nak := (usb_force_nak s)[0 := 1]\<rparr>"
  define s1 where "s1 = usbd_ep_nak_set b 0 1 ?t"
  have "chip_at dev obs USB_EP_RX_STAT_NAK USB_EP_TX_STAT_NAK D (hw ?t)" using assms(1) by simp
  from chip_nak_set [OF this, of 1]
  have c1: "chip_at dev obs USB_EP_RX_STAT_NAK USB_EP_TX_STAT_NAK D (hw s1)"
    by (simp add: s1_def)
  have s1: "s1 = USB_SET_EP_RX_STAT b 0 USB_EP_RX_STAT_NAK ?u" by (simp add: s1_def usbd_ep_nak_set_def)
  have m1: "world.more s1 = world.more ?u" by (simp add: s1)
  have "dev (hw s1) = (dev (hw s))\<lparr>ep_reg := (ep_reg (dev (hw s)))(0 := (ep_reg (dev (hw s)) 0 AND NOT USB_EP_RX_STAT) OR 0x2000)\<rparr>"
    using dev_ep_macros(2) [of 0 "0x2000" ?u] by (simp add: s1)
  then have pm: "pma (dev (hw s1)) = pma (dev (hw s))" "d_btable (dev (hw s1)) = d_btable (dev (hw s))" by simp_all
  have packet: "rx_packet (dev (hw s1)) = bytes_of_setup r"
    using assms(2) unfolding receives_def rx_packet_def pma_bytes_def pm by simp
  have rdy: "rx_ready (dev (hw s1))"
    using assms(2) c1 by (simp add: receives_def rx_ready_def pm chip_at_def rx_stat_def)
  obtain s2 where s2: "usbd_ep_read_packet b 0 8 s1 = (bytes_of_setup r, s2)" "world.more s2 = world.more s1"
    using read_packet_dev [OF rdy, of 8] packet by auto
  have nak: "usb_force_nak s1 ! 0 \<noteq> 0" using usb_fields_eq(15) [OF m1] assms(3) by simp
  have "chip_at dev obs USB_EP_RX_STAT_NAK USB_EP_TX_STAT_NAK D (hw s2)"
    using chip_read_packet [OF c1, of 8] nak s2(1) by simp
  moreover have "world.more (s2\<lparr>usb_req := r\<rparr>) = world.more (?u\<lparr>usb_req := r\<rparr>)"
    using s2(2) m1 by (cases s2; cases s) auto
  ultimately show ?thesis
    using s2(1) by (intro that [of "s2\<lparr>usb_req := r\<rparr>"])
      (simp_all add: usbd_control_setup_def Let_def s1_def [symmetric] setup_overwrite_all)
qed

lemma chip_hw_eq: "hw t = hw s \<Longrightarrow> chip_at dev obs rx tx D (hw t) = chip_at dev obs rx tx D (hw s)"
  by simp

text \<open>A poll after a SETUP: the request is read, then dispatched by its direction.\<close>

lemma poll_setup:
  fixes s :: "('h, 'm) usb_world_scheme"
  assumes "token_done b dev (SETUP r) (hw s)" "usb_force_nak s \<noteq> []"
  obtains s3 where
    "\<And>u. (if wLength r = 0 \<or> bmRequestType r AND 0x80 \<noteq> 0 then usb_control_setup_read cfg b s3
       else Some (usb_control_setup_write b s3)) = Some u \<Longrightarrow>
      \<exists>s'. do_usb_poll cfg b s = Some s' \<and> same_chip dev obs u s'"
    "world.more s3 = world.more (s\<lparr>usb_complete_cb := None, usb_force_nak := (usb_force_nak s)[0 := 1], usb_req := r\<rparr>)"
    "chip_at dev obs USB_EP_RX_STAT_NAK USB_EP_TX_STAT_NAK (obs (hw s)) (hw s3)"
proof -
  obtain s1 where s1: "same_chip dev obs s s1"
    "\<And>u. usbd_control_setup cfg b s1 = Some u \<Longrightarrow> \<exists>s'. do_usb_poll cfg b s = Some s' \<and> same_chip dev obs u s'"
    by (rule poll_token [OF assms(1), where cfg = cfg]) simp
  have at: "chip_at dev obs USB_EP_RX_STAT_NAK USB_EP_TX_STAT_NAK (obs (hw s)) (hw s1)"
    and rx: "receives dev (hw s1) (bytes_of_setup r)"
    using assms(1) s1(1) by (simp_all add: same_chip_def chip_at_def token_done_def receives_def)
  have m: "world.more s1 = world.more s" using s1(1) by (simp add: same_chip_def)
  note eq = usb_fields_eq [OF m]
  have "usb_force_nak s1 \<noteq> []" using assms(2) by (simp add: eq)
  then obtain s3 where s3: "usbd_control_setup cfg b s1 =
      (if wLength r = 0 \<or> bmRequestType r AND 0x80 \<noteq> 0 then usb_control_setup_read cfg b s3
       else Some (usb_control_setup_write b s3))"
    "world.more s3 = world.more (s1\<lparr>usb_complete_cb := None, usb_force_nak := (usb_force_nak s1)[0 := 1], usb_req := r\<rparr>)"
    "chip_at dev obs USB_EP_RX_STAT_NAK USB_EP_TX_STAT_NAK (obs (hw s)) (hw s3)"
    by (rule setup_stage [OF at rx])
  have "world.more s3 = world.more (s\<lparr>usb_complete_cb := None, usb_force_nak := (usb_force_nak s)[0 := 1], usb_req := r\<rparr>)"
    using s3(2) m by (cases s; cases s1) simp
  then show ?thesis using s1(2) s3(1, 3) by (intro that) auto
qed

lemma poll_setup_write:
  fixes s :: "('h, 'm) usb_world_scheme"
  assumes "token_done b dev (SETUP r) (hw s)" "r = dfu_request 1 k (of_nat (length bs))" "usb_force_nak s \<noteq> []"
    and "bs \<noteq> []" "length bs \<le> DFU_TRANSFER_SIZE" "length (usbd_control_buffer s) = DFU_TRANSFER_SIZE"
  obtains s' where "do_usb_poll cfg b s = Some s'"
    "out_state (s\<lparr>usb_complete_cb := None, usb_req := r\<rparr>) bs 0 s'"
    "usb_fsm_state s' = (if length bs \<le> 0 + 64 then LAST_DATA_OUT else DATA_OUT)"
    "chip_at dev obs USB_EP_RX_STAT_VALID USB_EP_TX_STAT_NAK (obs (hw s)) (hw s')"
proof -
  have n: "(of_nat (length bs) :: u16) \<noteq> 0"
  proof -
    have "unat (of_nat (length bs) :: u16) = length bs" using assms(5) by (simp add: unsigned_of_nat take_bit_nat_eq_self)
    then show ?thesis using assms(4) by auto
  qed
  let ?s = "s\<lparr>usb_complete_cb := None, usb_req := r\<rparr>"
  obtain s3 where s3: "\<And>u. Some (usb_control_setup_write b s3) = Some u \<Longrightarrow>
      \<exists>s'. do_usb_poll cfg b s = Some s' \<and> same_chip dev obs u s'"
    "world.more s3 = world.more (s\<lparr>usb_complete_cb := None, usb_force_nak := (usb_force_nak s)[0 := 1], usb_req := r\<rparr>)"
    "chip_at dev obs USB_EP_RX_STAT_NAK USB_EP_TX_STAT_NAK (obs (hw s)) (hw s3)"
    by (rule poll_setup [OF assms(1, 3), where cfg = cfg]) (use n in \<open>simp add: assms(2) dfu_request_def\<close>)
  let ?u = "usb_control_setup_write b s3"
  obtain s' where s': "do_usb_poll cfg b s = Some s'" "same_chip dev obs ?u s'" using s3(1) by blast
  note eq3 = usb_fields_eq [OF s3(2)]
  have m: "world.more s' = world.more ?u" using s'(2) by (simp add: same_chip_def)
  note eq = usb_fields_eq [OF m]
  have "usb_req s3 = dfu_request 1 k (of_nat (length bs))" "length (usbd_control_buffer s3) = DFU_TRANSFER_SIZE"
    using assms(2, 6) by (simp_all add: eq3)
  note opens = setup_write_opens [OF this(1) assms(5) this(2), of b]
  have kept3: "kept ?s s3" unfolding kept_more [OF s3(2)] by (simp add: kept_def)
  have "out_state ?s bs 0 s'"
    using opens(1) kept_trans [OF kept3, of ?u]
    by (simp add: out_state_def eq eq3 kept_more [OF m])
  moreover have "usb_fsm_state s' = (if length bs \<le> 0 + 64 then LAST_DATA_OUT else DATA_OUT)"
    using opens(2) by (simp add: eq)
  moreover have "chip_at dev obs USB_EP_RX_STAT_VALID USB_EP_TX_STAT_NAK (obs (hw s)) (hw s')"
    using chip_macros(1) [OF s3(3), of USB_EP_RX_STAT_VALID] unfolding same_chip_at [OF s'(2)] opens(3) by simp
  ultimately show ?thesis using s'(1) by (intro that)
qed

section \<open>The data stage\<close>

lemma poll_out:
  assumes "token_done b dev (OUT p) (hw t)"
  obtains s1 where "same_chip dev obs t s1" "receives dev (hw s1) p"
    "chip_at dev obs USB_EP_RX_STAT_NAK (tx_stat (dev (hw t))) (obs (hw t)) (hw s1)"
    "\<And>u. usbd_control_out cfg b s1 = Some u \<Longrightarrow> \<exists>s'. do_usb_poll cfg b t = Some s' \<and> same_chip dev obs u s'"
proof -
  obtain s1 where s1: "same_chip dev obs t s1"
    "\<And>u. usbd_control_out cfg b s1 = Some u \<Longrightarrow> \<exists>s'. do_usb_poll cfg b t = Some s' \<and> same_chip dev obs u s'"
    by (rule poll_token [OF assms, where cfg = cfg]) simp
  show ?thesis
    by (rule that [OF s1(1) _ _ s1(2)])
      (use assms s1(1) in \<open>simp_all add: same_chip_def token_done_def receives_def chip_at_def\<close>)
qed

lemma poll_out_more:
  fixes s t :: "('h, 'm) usb_world_scheme"
  assumes "token_done b dev (OUT (take 64 (drop d bs))) (hw t)" "out_state s bs d t"
    and "usb_req s = dfu_request 1 k (of_nat (length bs))" "length bs \<le> DFU_TRANSFER_SIZE" "usb_force_nak s \<noteq> []"
    and "usb_fsm_state t = DATA_OUT" "d + 64 < length bs"
  obtains t' where "do_usb_poll cfg b t = Some t'" "out_state s bs (d + 64) t'"
    "usb_fsm_state t' = (if length bs \<le> d + 64 + 64 then LAST_DATA_OUT else DATA_OUT)"
    "chip_at dev obs USB_EP_RX_STAT_VALID (tx_stat (dev (hw t))) (obs (hw t)) (hw t')"
proof -
  obtain s1 where s1: "same_chip dev obs t s1" "receives dev (hw s1) (take 64 (drop d bs))"
    "chip_at dev obs USB_EP_RX_STAT_NAK (tx_stat (dev (hw t))) (obs (hw t)) (hw s1)"
    "\<And>u. usbd_control_out cfg b s1 = Some u \<Longrightarrow> \<exists>s'. do_usb_poll cfg b t = Some s' \<and> same_chip dev obs u s'"
    by (rule poll_out [OF assms(1), where cfg = cfg]) blast
  have m1: "world.more s1 = world.more t" using s1(1) by (simp add: same_chip_def)
  have st1: "out_state s bs d s1" "usb_fsm_state s1 = DATA_OUT"
    using assms(2, 6) by (simp_all add: out_state_more [OF m1] usb_fields_eq [OF m1])
  obtain u where u: "usbd_control_out cfg b s1 = Some u" "out_state s bs (d + 64) u"
    "usb_fsm_state u = (if length bs \<le> d + 64 + 64 then LAST_DATA_OUT else DATA_OUT)"
    "hw u = hw (snd (usbd_ep_read_packet b 0 64 s1))"
    by (rule control_out_more [OF st1(1) assms(3, 4) s1(2) st1(2) assms(7)])
  obtain t' where t': "do_usb_poll cfg b t = Some t'" "same_chip dev obs u t'" using s1(4) [OF u(1)] by blast
  have m: "world.more t' = world.more u" using t'(2) by (simp add: same_chip_def)
  have "usb_force_nak s1 ! 0 = 0" using st1(1) assms(5) by (simp add: out_state_def)
  then have "chip_at dev obs USB_EP_RX_STAT_VALID (tx_stat (dev (hw t))) (obs (hw t)) (hw t')"
    using chip_read_packet [OF s1(3), of 64] by (simp add: same_chip_at [OF t'(2)] u(4))
  then show ?thesis using t'(1) u(2, 3) by (intro that) (simp_all add: out_state_more [OF m] usb_fields_eq [OF m])
qed

lemma poll_out_last:
  fixes s t :: "('h, 'm) usb_world_scheme"
  assumes "token_done b dev (OUT (take 64 (drop d bs))) (hw t)" "out_state s bs d t"
    and "usb_req s = dfu_request 1 k (of_nat (length bs))" "length bs \<le> DFU_TRANSFER_SIZE" "usb_force_nak s \<noteq> []"
    and "usb_fsm_state t = LAST_DATA_OUT" "length bs \<le> d + 64" "bs \<noteq> []" "tx_stat (dev (hw t)) = USB_EP_TX_STAT_NAK"
  obtains t' where "do_usb_poll cfg b t = Some t'" "holds_download s bs k t'" "tx_packet (dev (hw t')) = []"
    "chip_at dev obs USB_EP_RX_STAT_VALID USB_EP_TX_STAT_VALID (obs (hw t)) (hw t')"
proof -
  obtain s1 where s1: "same_chip dev obs t s1" "receives dev (hw s1) (take 64 (drop d bs))"
    "chip_at dev obs USB_EP_RX_STAT_NAK (tx_stat (dev (hw t))) (obs (hw t)) (hw s1)"
    "\<And>u. usbd_control_out cfg b s1 = Some u \<Longrightarrow> \<exists>s'. do_usb_poll cfg b t = Some s' \<and> same_chip dev obs u s'"
    by (rule poll_out [OF assms(1), where cfg = cfg]) blast
  have m1: "world.more s1 = world.more t" using s1(1) by (simp add: same_chip_def)
  have st1: "out_state s bs d s1" "usb_fsm_state s1 = LAST_DATA_OUT"
    using assms(2, 6) by (simp_all add: out_state_more [OF m1] usb_fields_eq [OF m1])
  obtain u and v :: "('h, 'm) usb_world_scheme" where u: "usbd_control_out cfg b s1 = Some u" "holds_download s bs k u"
    "hw u = hw (snd (usbd_ep_write_packet b 0 (\<lambda>_. 0) 0 v))"
    "hw v = hw (snd (usbd_ep_read_packet b 0 (of_nat (length (take 64 (drop d bs)))) s1))"
    by (rule control_out_last [OF st1(1) assms(3, 4) s1(2) st1(2) assms(7, 8)])
  obtain t' where t': "do_usb_poll cfg b t = Some t'" "same_chip dev obs u t'" using s1(4) [OF u(1)] by blast
  have m: "world.more t' = world.more u" and d: "dev (hw t') = dev (hw u)" using t'(2) by (simp_all add: same_chip_def)
  have "usb_force_nak s1 ! 0 = 0" using st1(1) assms(5) by (simp add: out_state_def)
  then have v: "chip_at dev obs USB_EP_RX_STAT_VALID USB_EP_TX_STAT_NAK (obs (hw t)) (hw v)"
    using chip_read_packet [OF s1(3), of "of_nat (length (take 64 (drop d bs)))"] assms(9) by (simp add: u(4))
  have "chip_at dev obs USB_EP_RX_STAT_VALID USB_EP_TX_STAT_VALID (obs (hw t)) (hw t')"
    "tx_packet (dev (hw t')) = []"
    using chip_write_packet [OF v, of 0 "\<lambda>_. 0"] by (simp_all add: same_chip_at [OF t'(2)] d u(3))
  then show ?thesis using t'(1) u(2) by (intro that) (simp_all add: holds_download_more [OF m])
qed

section \<open>The status stages and GETSTATUS\<close>

lemma poll_in:
  assumes "token_done b dev IN (hw t)"
  obtains s1 where "world.more s1 = world.more t"
    "chip_at dev obs (rx_stat (dev (hw t))) USB_EP_TX_STAT_NAK (obs (hw t)) (hw s1)"
    "\<And>u. usbd_control_in cfg b s1 = Some u \<Longrightarrow> \<exists>s'. do_usb_poll cfg b t = Some s' \<and> same_chip dev obs u s'"
proof -
  obtain s1 where s1: "same_chip dev obs t s1"
    "\<And>u. usbd_control_in cfg b (USB_CLR_EP_TX_CTR b 0 s1) = Some u \<Longrightarrow>
      \<exists>s'. do_usb_poll cfg b t = Some s' \<and> same_chip dev obs u s'"
    by (rule poll_token [OF assms, where cfg = cfg]) simp
  have "chip_at dev obs (rx_stat (dev (hw t))) USB_EP_TX_STAT_NAK (obs (hw t)) (hw s1)"
    using assms s1(1) by (simp add: same_chip_def token_done_def chip_at_def)
  from chip_macros(3) [OF this] s1 show ?thesis
    by (intro that [of "USB_CLR_EP_TX_CTR b 0 s1"]) (simp_all add: same_chip_def)
qed

lemma poll_status_in:
  fixes t :: "('h, 'm) usb_world_scheme"
  assumes "token_done b dev IN (hw t)" "usb_fsm_state t = STATUS_IN" "usb_complete_cb t = None"
    and "bmRequestType (usb_req t) \<noteq> 0"
  obtains t' where "do_usb_poll cfg b t = Some t'" "world.more t' = world.more (t\<lparr>usb_fsm_state := IDLE\<rparr>)"
    "chip_at dev obs (rx_stat (dev (hw t))) USB_EP_TX_STAT_NAK (obs (hw t)) (hw t')"
proof -
  obtain s1 where s1: "world.more s1 = world.more t"
    "chip_at dev obs (rx_stat (dev (hw t))) USB_EP_TX_STAT_NAK (obs (hw t)) (hw s1)"
    "\<And>u. usbd_control_in cfg b s1 = Some u \<Longrightarrow> \<exists>s'. do_usb_poll cfg b t = Some s' \<and> same_chip dev obs u s'"
    by (rule poll_in [OF assms(1), where cfg = cfg]) blast
  let ?u = "s1\<lparr>usb_fsm_state := IDLE\<rparr>"
  have "usbd_control_in cfg b s1 = Some ?u"
    using assms(2-4) by (simp add: usbd_control_in_def run_complete_cb_def usb_fields_eq [OF s1(1)])
  then obtain t' where t': "do_usb_poll cfg b t = Some t'" "same_chip dev obs ?u t'" using s1(3) by blast
  have "world.more t' = world.more (t\<lparr>usb_fsm_state := IDLE\<rparr>)"
    using t'(2) s1(1) by (cases t; cases s1) (simp add: same_chip_def)
  then show ?thesis using s1(2) by (intro that [OF t'(1)]) (simp_all add: same_chip_at [OF t'(2)])
qed

lemma poll_last_data_in:
  fixes t :: "('h, 'm) usb_world_scheme"
  assumes "token_done b dev IN (hw t)" "usb_fsm_state t = LAST_DATA_IN"
  obtains t' where "do_usb_poll cfg b t = Some t'"
    "world.more t' = world.more (t\<lparr>usb_fsm_state := STATUS_OUT, usb_force_nak := (usb_force_nak t)[0 := 0]\<rparr>)"
    "chip_at dev obs USB_EP_RX_STAT_VALID USB_EP_TX_STAT_NAK (obs (hw t)) (hw t')"
proof -
  obtain s1 where s1: "world.more s1 = world.more t"
    "chip_at dev obs (rx_stat (dev (hw t))) USB_EP_TX_STAT_NAK (obs (hw t)) (hw s1)"
    "\<And>u. usbd_control_in cfg b s1 = Some u \<Longrightarrow> \<exists>s'. do_usb_poll cfg b t = Some s' \<and> same_chip dev obs u s'"
    by (rule poll_in [OF assms(1), where cfg = cfg]) blast
  let ?u = "usbd_ep_nak_set b 0 0 (s1\<lparr>usb_fsm_state := STATUS_OUT\<rparr>)"
  have "usbd_control_in cfg b s1 = Some ?u"
    using assms(2) by (simp add: usbd_control_in_def usb_fields_eq [OF s1(1)])
  then obtain t' where t': "do_usb_poll cfg b t = Some t'" "same_chip dev obs ?u t'" using s1(3) by blast
  have "world.more ?u = world.more (s1\<lparr>usb_fsm_state := STATUS_OUT, usb_force_nak := (usb_force_nak s1)[0 := 0]\<rparr>)"
    by (simp add: usbd_ep_nak_set_def)
  then have "world.more t' = world.more (t\<lparr>usb_fsm_state := STATUS_OUT, usb_force_nak := (usb_force_nak t)[0 := 0]\<rparr>)"
    using t'(2) s1(1) by (cases t; cases s1) (simp add: same_chip_def)
  moreover have "chip_at dev obs (rx_stat (dev (hw t))) USB_EP_TX_STAT_NAK (obs (hw t))
      (hw (s1\<lparr>usb_fsm_state := STATUS_OUT\<rparr>))" using s1(2) by simp
  from chip_nak_set [OF this, of 0]
  have "chip_at dev obs USB_EP_RX_STAT_VALID USB_EP_TX_STAT_NAK (obs (hw t)) (hw t')"
    by (simp add: same_chip_at [OF t'(2)])
  ultimately show ?thesis using t'(1) by (intro that)
qed

end

text \<open>What the host reads: status OK, the time to wait, and the new state.\<close>

definition status_bytes :: "dfu_state \<Rightarrow> u8 list" where
  "status_bytes st = [0, if st = STATE_DFU_DNBUSY then 100 else 0, 0, 0, dfu_state_code st, 0]"

abbreviation getstatus_request :: usb_setup_data where
  "getstatus_request \<equiv> class_in_request 3 6"

lemma getstatus_chunk:
  fixes s :: "('h, 'm) usb_world_scheme"
  assumes "usb_req s = getstatus_request" "usbdfu_state s \<in> {STATE_DFU_DNLOAD_SYNC, STATE_DFU_MANIFEST_SYNC}"
    and "length (usbd_control_buffer s) = DFU_TRANSFER_SIZE"
    and "st = (if usbdfu_state s = STATE_DFU_DNLOAD_SYNC then STATE_DFU_DNBUSY else STATE_DFU_MANIFEST)"
    and "tn = (dfu_getstatus_reply (s\<lparr>dataoff := 0\<rparr>))\<lparr>datasize := 6, usb_complete_cb := Some Getstatus_complete, usb_needs_zlp := 0\<rparr>"
  shows "usb_control_setup_read cfg b s = Some ((snd (usbd_ep_write_packet b 0 (ctl_byte tn) 6 tn))
      \<lparr>usb_fsm_state := LAST_DATA_IN, usb_needs_zlp := 0, datasize := 0\<rparr>)"
    and "map (ctl_byte tn) [0..<6] = status_bytes st"
proof -
  have "usb_control_setup_read cfg b s = Some (usb_control_send_chunk b tn)"
    by (simp add: usb_control_setup_read_def usb_control_request_dispatch_def class_request_def assms(1, 5)
        class_in_request_def usbdfu_control_request_def dfu_req_of_def Let_def ret_true_def needs_zlp_def)
  moreover have "(\<lambda>i. ctl_byte tn (unat (dataoff tn) + i)) = ctl_byte tn"
    by (simp add: assms(5) dfu_getstatus_reply_def set_ctl_def usbdfu_getstatus_def split: dfu_state.split prod.split)
  ultimately show "usb_control_setup_read cfg b s = Some ((snd (usbd_ep_write_packet b 0 (ctl_byte tn) 6 tn))
      \<lparr>usb_fsm_state := LAST_DATA_IN, usb_needs_zlp := 0, datasize := 0\<rparr>)"
    using assms(5) by (simp add: usb_control_send_chunk_def case_prod_beta usb_fields_eq(13) [OF more_write_packet])
  have upt: "[0..<6] = [0, 1, 2, 3, 4, 5]" by (simp add: upt_rec)
  show "map (ctl_byte tn) [0..<6] = status_bytes st"
    unfolding upt using assms(2-4)
    by (auto simp: assms(5) ctl_byte_def dfu_getstatus_reply_def set_ctl_def usbdfu_getstatus_def status_bytes_def)
qed

context usb_chip begin

lemma poll_getstatus:
  fixes t :: "('h, 'm) usb_world_scheme"
  assumes "token_done b dev (SETUP getstatus_request) (hw t)" "usb_force_nak t \<noteq> []"
    and "usbdfu_state t \<in> {STATE_DFU_DNLOAD_SYNC, STATE_DFU_MANIFEST_SYNC}"
    and "length (usbd_control_buffer t) = DFU_TRANSFER_SIZE"
    and "st = (if usbdfu_state t = STATE_DFU_DNLOAD_SYNC then STATE_DFU_DNBUSY else STATE_DFU_MANIFEST)"
  obtains t' where "do_usb_poll cfg b t = Some t'"
    "chip_at dev obs USB_EP_RX_STAT_NAK USB_EP_TX_STAT_VALID (obs (hw t)) (hw t')"
    "tx_packet (dev (hw t')) = status_bytes st" "usb_fsm_state t' = LAST_DATA_IN"
    "usb_complete_cb t' = Some Getstatus_complete" "usb_force_nak t' \<noteq> []" "usbdfu_state t' = st" "kept t t'"
    "prog_buf t' = prog_buf t" "prog_len t' = prog_len t" "prog_blocknum t' = prog_blocknum t"
    "length (usbd_control_buffer t') = DFU_TRANSFER_SIZE"
proof -
  have dir: "(wLength getstatus_request = 0 \<or> bmRequestType getstatus_request AND 0x80 \<noteq> 0) = True"
    by (simp add: class_in_request_def)
  obtain s3 where s3: "\<And>u. usb_control_setup_read cfg b s3 = Some u \<Longrightarrow>
      \<exists>s'. do_usb_poll cfg b t = Some s' \<and> same_chip dev obs u s'"
    "world.more s3 = world.more (t\<lparr>usb_complete_cb := None, usb_force_nak := (usb_force_nak t)[0 := 1], usb_req := getstatus_request\<rparr>)"
    "chip_at dev obs USB_EP_RX_STAT_NAK USB_EP_TX_STAT_NAK (obs (hw t)) (hw s3)"
    by (rule poll_setup [OF assms(1, 2), where cfg = cfg, unfolded dir if_True]) blast
  note eq3 = usb_fields_eq [OF s3(2)] dfu_fields_eq [OF flash_more [OF s3(2)]]
  define tn where "tn = (dfu_getstatus_reply (s3\<lparr>dataoff := 0\<rparr>))
    \<lparr>datasize := 6, usb_complete_cb := Some Getstatus_complete, usb_needs_zlp := 0\<rparr>"
  define w where "w = snd (usbd_ep_write_packet b 0 (ctl_byte tn) 6 tn)"
  define u where "u = w\<lparr>usb_fsm_state := LAST_DATA_IN, usb_needs_zlp := 0, datasize := 0\<rparr>"
  have req: "usb_req s3 = getstatus_request" and len: "length (usbd_control_buffer s3) = DFU_TRANSFER_SIZE"
    and state: "usbdfu_state s3 \<in> {STATE_DFU_DNLOAD_SYNC, STATE_DFU_MANIFEST_SYNC}"
    and st: "st = (if usbdfu_state s3 = STATE_DFU_DNLOAD_SYNC then STATE_DFU_DNBUSY else STATE_DFU_MANIFEST)"
    using assms(3-5) by (simp_all add: eq3)
  note chunk = getstatus_chunk [OF req state len st tn_def]
  obtain t' where t': "do_usb_poll cfg b t = Some t'" "same_chip dev obs u t'"
    using s3(1) [OF chunk(1)] unfolding u_def w_def by blast
  have hw: "hw tn = hw s3"
    by (simp add: tn_def dfu_getstatus_reply_def set_ctl_def usbdfu_getstatus_def split: dfu_state.split prod.split)
  have "chip_at dev obs USB_EP_RX_STAT_NAK USB_EP_TX_STAT_NAK (obs (hw t)) (hw tn)"
    using s3(3) by (simp add: hw)
  note wr = chip_write_packet [OF this, of 6 "ctl_byte tn"]
  have dv: "dev (hw t') = dev (hw w)" using t'(2) by (simp add: same_chip_def u_def)
  have mw: "world.more w = world.more tn" by (simp add: w_def)
  note eqw = usb_fields_eq [OF mw] dfu_fields_eq [OF flash_more [OF mw]]
  have m: "world.more t' = world.more u" using t'(2) by (simp add: same_chip_def)
  note eq = usb_fields_eq [OF m] dfu_fields_eq [OF flash_more [OF m]]
  have tn: "usbdfu_state tn = st" "prog_buf tn = prog_buf s3" "prog_len tn = prog_len s3" "prog_blocknum tn = prog_blocknum s3"
    "length (usbd_control_buffer tn) = DFU_TRANSFER_SIZE" "usb_force_nak tn = usb_force_nak s3"
    using state st len by (auto simp: tn_def dfu_getstatus_reply_def set_ctl_def usbdfu_getstatus_def)
  have "kept t s3" unfolding kept_more [OF s3(2)] by (simp add: kept_def)
  moreover have "kept s3 tn"
    by (simp add: tn_def dfu_getstatus_reply_def usbdfu_getstatus_def kept_def set_ctl_def split: dfu_state.split prod.split)
  ultimately have "kept t tn" by (rule kept_trans)
  then have kept: "kept t t'" by (simp add: kept_more [OF m] u_def kept_more [OF mw])
  have at: "chip_at dev obs USB_EP_RX_STAT_NAK USB_EP_TX_STAT_VALID (obs (hw t)) (hw t')"
    using wr(1) by (simp add: same_chip_at [OF t'(2)] u_def w_def)
  have pk: "tx_packet (dev (hw t')) = status_bytes st" using wr(2) chunk(2) by (simp add: dv w_def)
  have cb: "usb_complete_cb tn = Some Getstatus_complete" by (simp add: tn_def)
  show ?thesis
    by (rule that [OF t'(1) at pk _ _ _ _ kept]) (use assms(2) tn in \<open>simp_all add: eq u_def eqw eq3 cb\<close>)
qed

lemma poll_status_out:
  fixes t :: "('h, 'm) usb_world_scheme"
  assumes "token_done b dev (OUT []) (hw t)" "usb_fsm_state t = STATUS_OUT"
    and "usb_force_nak t ! 0 = 0"
  obtains u where "world.more u = world.more (t\<lparr>usb_fsm_state := IDLE\<rparr>)"
    "chip_at dev obs USB_EP_RX_STAT_VALID (tx_stat (dev (hw t))) (obs (hw t)) (hw u)"
    "\<And>v. run_complete_cb cfg b u = Some v \<Longrightarrow>
      \<exists>s'. do_usb_poll cfg b t = Some s' \<and> same_chip dev obs (v\<lparr>usb_complete_cb := None\<rparr>) s'"
proof -
  obtain s1 where s1: "same_chip dev obs t s1"
    "chip_at dev obs USB_EP_RX_STAT_NAK (tx_stat (dev (hw t))) (obs (hw t)) (hw s1)"
    "\<And>u. usbd_control_out cfg b s1 = Some u \<Longrightarrow> \<exists>s'. do_usb_poll cfg b t = Some s' \<and> same_chip dev obs u s'"
    by (rule poll_out [OF assms(1), where cfg = cfg]) blast
  have m1: "world.more s1 = world.more t" using s1(1) by (simp add: same_chip_def)
  note eq1 = usb_fields_eq [OF m1]
  define s2 where "s2 = snd (usbd_ep_read_packet b 0 0 s1)"
  have m2: "world.more s2 = world.more s1" by (simp add: s2_def)
  let ?u = "s2\<lparr>usb_fsm_state := IDLE\<rparr>"
  have "world.more ?u = world.more (t\<lparr>usb_fsm_state := IDLE\<rparr>)"
    using m1 m2 by (cases t; cases s1; cases s2) simp
  moreover have "chip_at dev obs USB_EP_RX_STAT_VALID (tx_stat (dev (hw t))) (obs (hw t)) (hw ?u)"
    using chip_read_packet [OF s1(2), of 0] assms(3) by (simp add: s2_def eq1)
  moreover have "usbd_control_out cfg b s1 = Some (v\<lparr>usb_complete_cb := None\<rparr>)"
    if "run_complete_cb cfg b ?u = Some v" for v
    using that assms(2) by (simp add: usbd_control_out_def eq1 case_prod_beta s2_def [symmetric])
  ultimately show ?thesis using s1(3) by (intro that [of ?u]) blast+
qed

end

end
