(* ===== verification/DfuUsb.thy ===== *)
theory DfuUsb
  imports UsbChip
begin

text \<open>
  A whole download over the bus: the host's transactions go through \<open>do_usb_poll\<close>, the control-transfer
  state machine and the DFU class down to the flash controller. The host and the hardware between
  two polls are the locale \<open>usb_env\<close>, with the flash controller \<open>usb_host\<close>; that its transfers keep the
  contract \<open>block_host\<close> of \<open>Download\<close> carries the session over from the class to the bus.
\<close>

section \<open>The host\<close>

text \<open>The hardware between two polls: a transaction of the host comes to its end. By then the packet before it
  has been acknowledged (the law \<open>rx_held\<close> of \<open>UsbSafe\<close>: until then the host's SETUP is discarded and
  repeated), so a SETUP is taken whatever the endpoint's status is, an OUT or IN when the firmware has
  opened the endpoint for it. The observation, for a download the flash, is not touched.\<close>

locale usb_env = usb_chip b dev obs
  for b :: "'h bus" and dev :: "'h \<Rightarrow> usb_dev" and obs :: "'h \<Rightarrow> 'o" +
  fixes env :: "usb_token \<Rightarrow> 'h \<Rightarrow> 'h"
  assumes setup_taken: "ep0_ok (dev h) \<Longrightarrow> token_done b dev (SETUP r) (env (SETUP r) h)"
    and out_taken: "ep0_ok (dev h) \<Longrightarrow> rx_stat (dev h) = USB_EP_RX_STAT_VALID \<Longrightarrow> length p \<le> 64 \<Longrightarrow>
      token_done b dev (OUT p) (env (OUT p) h) \<and> tx_stat (dev (env (OUT p) h)) = tx_stat (dev h)"
    and in_taken: "ep0_ok (dev h) \<Longrightarrow> tx_stat (dev h) = USB_EP_TX_STAT_VALID \<Longrightarrow>
      token_done b dev IN (env IN h) \<and> rx_stat (dev (env IN h)) = rx_stat (dev h)"
    and env_obs: "obs (env t h) = obs h"

abbreviation flash_seen :: "('h \<Rightarrow> fmc_dev) \<Rightarrow> 'h \<Rightarrow> fmc_dev" where
  "flash_seen fdev h \<equiv> settled (fdev h)"

locale usb_host = dfu_chip b dev fdev + usb_env b dev "flash_seen fdev" env
  for b :: "'h bus" and dev :: "'h \<Rightarrow> usb_dev" and fdev :: "'h \<Rightarrow> fmc_dev" and env :: "usb_token \<Rightarrow> 'h \<Rightarrow> 'h"

text \<open>Transaction after transaction, each followed by a poll of the firmware. The result is what the host
  has read.\<close>

fun usb_run :: "build \<Rightarrow> 'h bus \<Rightarrow> ('h \<Rightarrow> usb_dev) \<Rightarrow> (usb_token \<Rightarrow> 'h \<Rightarrow> 'h) \<Rightarrow> usb_token list \<Rightarrow>
    ('h, 'm) usb_world_scheme \<Rightarrow> (u8 list list \<times> ('h, 'm) usb_world_scheme) option" where
  "usb_run cfg b dev env [] s = Some ([], s)"
| "usb_run cfg b dev env (t # ts) s = do {
     s1 \<leftarrow> do_usb_poll cfg b (s\<lparr>hw := env t (hw s)\<rparr>);
     (ps, s2) \<leftarrow> usb_run cfg b dev env ts s1;
     Some (if t = IN then tx_packet (dev (hw s)) # ps else ps, s2)
   }"

lemma usb_run_append:
  "usb_run cfg b dev env (ts @ us) s =
     (case usb_run cfg b dev env ts s of
        None \<Rightarrow> None
      | Some (ps, s1) \<Rightarrow>
          (case usb_run cfg b dev env us s1 of None \<Rightarrow> None | Some (qs, s2) \<Rightarrow> Some (ps @ qs, s2)))"
proof (induction ts arbitrary: s)
  case (Cons t ts)
  then show ?case
    by (cases "do_usb_poll cfg b (s\<lparr>hw := env t (hw s)\<rparr>)") (auto split: option.split prod.split)
qed (auto split: option.split prod.split)

text \<open>The transactions for one block: DNLOAD with its data and status stage, then GETSTATUS. The host goes
  on if it reads the empty status packet and the status it expects.\<close>

definition block_tokens :: "u16 \<Rightarrow> u8 list \<Rightarrow> usb_token list" where
  "block_tokens k bs =
     SETUP (dfu_request 1 k (of_nat (length bs))) # (if bs = [] then [] else map OUT (out_packets bs)) @
     [IN, SETUP getstatus_request, IN, OUT []]"

definition block_replies :: "u8 list \<Rightarrow> u8 list list" where
  "block_replies bs = [[], status_bytes (if bs = [] then STATE_DFU_MANIFEST else STATE_DFU_DNBUSY)]"

definition usb_block :: "build \<Rightarrow> 'h bus \<Rightarrow> ('h \<Rightarrow> usb_dev) \<Rightarrow> (usb_token \<Rightarrow> 'h \<Rightarrow> 'h) \<Rightarrow> u16 \<Rightarrow> u8 list \<Rightarrow>
    ('h, 'm) usb_world_scheme \<Rightarrow> ('h, 'm) usb_world_scheme option" where
  "usb_block cfg b dev env k bs s = do {
     (ps, s') \<leftarrow> usb_run cfg b dev env (block_tokens k bs) s;
     if ps = block_replies bs then Some s' else None
   }"

text \<open>Between two requests.\<close>

definition usb_idle :: "('h \<Rightarrow> usb_dev) \<Rightarrow> ('h, 'm) usb_world_scheme \<Rightarrow> bool" where
  "usb_idle dev s \<longleftrightarrow>
     ep0_ok (dev (hw s)) \<and> length (usbd_control_buffer s) = DFU_TRANSFER_SIZE \<and> usb_force_nak s \<noteq> []"

lemma length_out_packets: "p \<in> set (out_packets bs) \<Longrightarrow> length p \<le> 64"
proof (induction bs rule: out_packets.induct)
  case (1 bs)
  then show ?case by (subst (asm) out_packets.simps) (auto split: if_splits)
qed

context usb_env begin

lemma outs_run:
  fixes s t :: "('h, 'm) usb_world_scheme"
  assumes "usb_req s = dfu_request 1 k (of_nat (length bs))" "length bs \<le> DFU_TRANSFER_SIZE" "bs \<noteq> []" "usb_force_nak s \<noteq> []"
    and "out_state s bs d t" "usb_fsm_state t = (if length bs \<le> d + 64 then LAST_DATA_OUT else DATA_OUT)"
    and "chip_at dev obs USB_EP_RX_STAT_VALID USB_EP_TX_STAT_NAK D (hw t)"
  shows "\<exists>s'. usb_run cfg b dev env (map OUT (out_packets (drop d bs))) t = Some ([], s') \<and> holds_download s bs k s' \<and>
    tx_packet (dev (hw s')) = [] \<and> chip_at dev obs USB_EP_RX_STAT_VALID USB_EP_TX_STAT_VALID D (hw s')"
  using assms(5-7)
proof (induction "length bs - d" arbitrary: d t rule: less_induct)
  case less
  let ?p = "take 64 (drop d bs)"
  let ?h = "env (OUT ?p) (hw t)"
  let ?t = "t\<lparr>hw := ?h\<rparr>"
  have env: "token_done b dev (OUT ?p) ?h" "tx_stat (dev ?h) = USB_EP_TX_STAT_NAK" "obs ?h = D"
    using out_taken [of "hw t" ?p] less.prems(3) by (simp_all add: chip_at_def env_obs)
  have st: "out_state s bs d ?t" "token_done b dev (OUT ?p) (hw ?t)" "tx_stat (dev (hw ?t)) = USB_EP_TX_STAT_NAK"
    using less.prems(1) env by (simp_all add: out_state_def)
  show ?case
  proof (cases "length bs \<le> d + 64")
    case True
    then have le: "length (drop d bs) \<le> 64" by simp
    have "out_packets (drop d bs) = [?p]"
      unfolding out_packets.simps [of "drop d bs"] using le by simp
    moreover have "usb_fsm_state ?t = LAST_DATA_OUT" using less.prems(2) True by simp
    then obtain t' where "do_usb_poll cfg b ?t = Some t'" "holds_download s bs k t'" "tx_packet (dev (hw t')) = []"
      "chip_at dev obs USB_EP_RX_STAT_VALID USB_EP_TX_STAT_VALID (obs (hw ?t)) (hw t')"
      by (rule poll_out_last [OF st(2, 1) assms(1, 2, 4) _ True assms(3) st(3)])
    ultimately show ?thesis using env(3) by simp
  next
    case False
    then have "\<not> length (drop d bs) \<le> 64" by simp
    then have ps: "out_packets (drop d bs) = ?p # out_packets (drop (d + 64) bs)"
      unfolding out_packets.simps [of "drop d bs"] by (simp only: if_False drop_drop add.commute)
    have "usb_fsm_state ?t = DATA_OUT" "d + 64 < length bs" using less.prems(2) False by simp_all
    then obtain t' where t': "do_usb_poll cfg b ?t = Some t'" "out_state s bs (d + 64) t'"
      "usb_fsm_state t' = (if length bs \<le> d + 64 + 64 then LAST_DATA_OUT else DATA_OUT)"
      "chip_at dev obs USB_EP_RX_STAT_VALID (tx_stat (dev (hw ?t))) (obs (hw ?t)) (hw t')"
      by (rule poll_out_more [OF st(2, 1) assms(1, 2, 4)])
    have "length bs - (d + 64) < length bs - d" using False by simp
    moreover have "chip_at dev obs USB_EP_RX_STAT_VALID USB_EP_TX_STAT_NAK D (hw t')" using t'(4) env by simp
    ultimately show ?thesis using less.hyps [OF _ t'(2, 3)] t'(1) by (auto simp: ps)
  qed
qed

lemma status_run:
  fixes t :: "('h, 'm) usb_world_scheme"
  assumes "chip_at dev obs rx USB_EP_TX_STAT_VALID D (hw t)" "tx_packet (dev (hw t)) = []"
    and "usb_fsm_state t = STATUS_IN" "usb_complete_cb t = None" "bmRequestType (usb_req t) \<noteq> 0"
    and "usbdfu_state t \<in> {STATE_DFU_DNLOAD_SYNC, STATE_DFU_MANIFEST_SYNC}"
    and "length (usbd_control_buffer t) = DFU_TRANSFER_SIZE" "usb_force_nak t \<noteq> []"
    and "st = (if usbdfu_state t = STATE_DFU_DNLOAD_SYNC then STATE_DFU_DNBUSY else STATE_DFU_MANIFEST)"
  obtains u where "chip_at dev obs USB_EP_RX_STAT_VALID USB_EP_TX_STAT_NAK D (hw u)" "usbdfu_state u = st" "kept t u"
    "prog_buf u = prog_buf t" "prog_len u = prog_len t" "prog_blocknum u = prog_blocknum t"
    "length (usbd_control_buffer u) = DFU_TRANSFER_SIZE" "usb_force_nak u \<noteq> []"
    "\<And>v. usbdfu_getstatus_complete cfg b u = Some v \<Longrightarrow>
      \<exists>s'. usb_run cfg b dev env [IN, SETUP getstatus_request, IN, OUT []] t = Some ([[], status_bytes st], s') \<and>
        same_chip dev obs (v\<lparr>usb_complete_cb := None\<rparr>) s'"
proof -
  let ?t0 = "t\<lparr>hw := env IN (hw t)\<rparr>"
  have e0: "token_done b dev IN (hw ?t0)" "obs (hw ?t0) = D"
    using in_taken [of "hw t"] assms(1) by (simp_all add: chip_at_def env_obs)
  obtain t1 where t1: "do_usb_poll cfg b ?t0 = Some t1" "world.more t1 = world.more (?t0\<lparr>usb_fsm_state := IDLE\<rparr>)"
    "chip_at dev obs (rx_stat (dev (hw ?t0))) USB_EP_TX_STAT_NAK (obs (hw ?t0)) (hw t1)"
    by (rule poll_status_in [OF e0(1), where cfg = cfg]) (use assms(3-5) in simp_all)
  note eq1 = usb_fields_eq [OF t1(2)] dfu_fields_eq [OF flash_more [OF t1(2)]]
  let ?t1 = "t1\<lparr>hw := env (SETUP getstatus_request) (hw t1)\<rparr>"
  have e1: "token_done b dev (SETUP getstatus_request) (hw ?t1)" "obs (hw ?t1) = D"
    using setup_taken [of "hw t1" getstatus_request] t1(3) e0(2) by (simp_all add: chip_at_def env_obs)
  have s1: "usb_force_nak ?t1 \<noteq> []" "usbdfu_state ?t1 \<in> {STATE_DFU_DNLOAD_SYNC, STATE_DFU_MANIFEST_SYNC}"
    "length (usbd_control_buffer ?t1) = DFU_TRANSFER_SIZE"
    "st = (if usbdfu_state ?t1 = STATE_DFU_DNLOAD_SYNC then STATE_DFU_DNBUSY else STATE_DFU_MANIFEST)"
    using assms(6-9) by (simp_all add: eq1)
  obtain t2 where t2: "do_usb_poll cfg b ?t1 = Some t2"
    "chip_at dev obs USB_EP_RX_STAT_NAK USB_EP_TX_STAT_VALID (obs (hw ?t1)) (hw t2)"
    "tx_packet (dev (hw t2)) = status_bytes st" "usb_fsm_state t2 = LAST_DATA_IN"
    "usb_complete_cb t2 = Some Getstatus_complete" "usb_force_nak t2 \<noteq> []" "usbdfu_state t2 = st" "kept ?t1 t2"
    "prog_buf t2 = prog_buf ?t1" "prog_len t2 = prog_len ?t1" "prog_blocknum t2 = prog_blocknum ?t1"
    "length (usbd_control_buffer t2) = DFU_TRANSFER_SIZE"
    by (rule poll_getstatus [OF e1(1) s1])
  let ?t2 = "t2\<lparr>hw := env IN (hw t2)\<rparr>"
  have e2: "token_done b dev IN (hw ?t2)" "obs (hw ?t2) = D"
    using in_taken [of "hw t2"] t2(2) e1(2) by (simp_all add: chip_at_def env_obs)
  obtain t3 where t3: "do_usb_poll cfg b ?t2 = Some t3"
    "world.more t3 = world.more (?t2\<lparr>usb_fsm_state := STATUS_OUT, usb_force_nak := (usb_force_nak ?t2)[0 := 0]\<rparr>)"
    "chip_at dev obs USB_EP_RX_STAT_VALID USB_EP_TX_STAT_NAK (obs (hw ?t2)) (hw t3)"
    by (rule poll_last_data_in [OF e2(1), where cfg = cfg]) (use t2(4) in simp_all)
  note eq3 = usb_fields_eq [OF t3(2)] dfu_fields_eq [OF flash_more [OF t3(2)]]
  let ?t3 = "t3\<lparr>hw := env (OUT []) (hw t3)\<rparr>"
  have e3: "token_done b dev (OUT []) (hw ?t3)" "tx_stat (dev (hw ?t3)) = USB_EP_TX_STAT_NAK" "obs (hw ?t3) = D"
    using out_taken [of "hw t3" "[]"] t3(3) e2(2) by (simp_all add: chip_at_def env_obs)
  obtain u where u: "world.more u = world.more (?t3\<lparr>usb_fsm_state := IDLE\<rparr>)"
    "chip_at dev obs USB_EP_RX_STAT_VALID (tx_stat (dev (hw ?t3))) (obs (hw ?t3)) (hw u)"
    "\<And>v. run_complete_cb cfg b u = Some v \<Longrightarrow>
      \<exists>s'. do_usb_poll cfg b ?t3 = Some s' \<and> same_chip dev obs (v\<lparr>usb_complete_cb := None\<rparr>) s'"
    by (rule poll_status_out [OF e3(1), where cfg = cfg]) (use t2(5, 6) in \<open>simp_all add: eq3\<close>)
  note equ = usb_fields_eq [OF u(1)] dfu_fields_eq [OF flash_more [OF u(1)]]
  have "kept t t1" by (simp add: kept_more [OF t1(2)])
  moreover have "kept t1 t2" using t2(8) by (simp add: kept_def)
  moreover have "kept t2 t3" by (simp add: kept_more [OF t3(2)])
  moreover have "kept t3 u" by (simp add: kept_more [OF u(1)])
  ultimately have kept: "kept t u" by (meson kept_trans)
  have run: "\<exists>s'. usb_run cfg b dev env [IN, SETUP getstatus_request, IN, OUT []] t = Some ([[], status_bytes st], s') \<and>
      same_chip dev obs (v\<lparr>usb_complete_cb := None\<rparr>) s'"
    if v: "usbdfu_getstatus_complete cfg b u = Some v" for v
    using u(3) [of v] v t2(5) equ(16) eq3(16) t1(1) t2(1, 3) t3(1) assms(2)
    by (auto simp: run_complete_cb_def usb_callback_run_def)
  show ?thesis
    by (rule that [OF _ _ kept _ _ _ _ _ run])
      (use u(2) e3 t2 s1 in \<open>simp_all add: equ eq3 eq1\<close>)
qed

end

context usb_host begin

text \<open>The callback leaves the USB peripheral alone.\<close>

lemma complete_usb:
  assumes "usbdfu_getstatus_complete cfg b s = Some v" "unat (flash_app_end s) \<le> 0xC000000"
    and "page_size s \<in> {1024, 2048}" "fst (dfu_range s) + snd (dfu_range s) < 2 ^ 32"
  shows "dev (hw v) = dev (hw s)"
proof -
  let ?G = "app_store flash_app_start (flash_app_end s)"
  have out: "\<not> usb_space a" if "unat a \<le> 0xC000000 \<or> a \<in> {FLASH_KEYR, FLASH_CR, FLASH_AR}" for a
    using that by (auto simp: usb_space_def word_le_nat_alt word_less_nat_alt)
  have g16: "\<not> usb_space a" if "?G (St16 a w)" for a w
    by (rule out) (use that assms(2) in \<open>simp add: app_store_def\<close>)
  have g32: "\<not> usb_space a" if "?G (St32 a w)" for a w
    by (rule out) (use that assms(2) in \<open>auto simp: app_store_def\<close>)
  have "guarded_bus b ?G (\<lambda>h. dev h = dev (hw s))"
    by unfold_locales (simp_all add: loads_usb flash_stores g16 g32, simp add: app_store_def)
  moreover have "unat (flash_app_end s) + unat (page_size s) \<le> 2 ^ 32" "page_size s \<noteq> 0"
    using assms(2, 3) by auto
  ultimately show ?thesis using guarded_bus.complete_P [OF _ assms(1) _ refl _ _ assms(4)] by blast
qed

lemma block_run:
  fixes s :: "('h, 'm) usb_world_scheme"
  assumes "usb_idle dev s" "bs \<noteq> []" "length bs \<le> DFU_TRANSFER_SIZE"
  obtains u where "busy_state fdev k bs s u" "ep0_ok (dev (hw u))"
    "length (usbd_control_buffer u) = DFU_TRANSFER_SIZE" "usb_force_nak u \<noteq> []"
    "\<And>v. usbdfu_getstatus_complete cfg b u = Some v \<Longrightarrow>
      \<exists>s'. usb_block cfg b dev env k bs s = Some s' \<and> same_chip dev (flash_seen fdev) (v\<lparr>usb_complete_cb := None\<rparr>) s'"
proof -
  let ?D = "settled (fdev (hw s))" and ?n = "of_nat (length bs) :: u16"
  let ?r = "dfu_request 1 k ?n"
  let ?s = "s\<lparr>hw := env (SETUP ?r) (hw s)\<rparr>"
  let ?base = "?s\<lparr>usb_complete_cb := None, usb_req := ?r\<rparr>"
  have e: "token_done b dev (SETUP ?r) (hw ?s)" "settled (fdev (hw ?s)) = ?D"
    using setup_taken [of "hw s" ?r] assms(1) by (simp_all add: usb_idle_def env_obs)
  obtain s1 where s1: "do_usb_poll cfg b ?s = Some s1" "out_state ?base bs 0 s1"
    "usb_fsm_state s1 = (if length bs \<le> 0 + 64 then LAST_DATA_OUT else DATA_OUT)"
    "chip_at dev (flash_seen fdev) USB_EP_RX_STAT_VALID USB_EP_TX_STAT_NAK (settled (fdev (hw ?s))) (hw s1)"
    by (rule poll_setup_write [OF e(1) refl _ assms(2, 3)]) (use assms(1) in \<open>simp_all add: usb_idle_def\<close>)
  have s0: "usb_req ?base = ?r" "usb_force_nak ?base \<noteq> []" using assms(1) by (simp_all add: usb_idle_def)
  obtain t where t: "usb_run cfg b dev env (map OUT (out_packets bs)) s1 = Some ([], t)" "holds_download ?base bs k t"
    "tx_packet (dev (hw t)) = []" "chip_at dev (flash_seen fdev) USB_EP_RX_STAT_VALID USB_EP_TX_STAT_VALID ?D (hw t)"
    using outs_run [OF s0(1) assms(3, 2) s0(2) s1(2, 3), of ?D cfg] s1(4) e(2) by auto
  note h = t(2) [unfolded holds_download_def]
  obtain u where u: "chip_at dev (flash_seen fdev) USB_EP_RX_STAT_VALID USB_EP_TX_STAT_NAK ?D (hw u)" "usbdfu_state u = STATE_DFU_DNBUSY"
    "kept t u" "prog_buf u = prog_buf t" "prog_len u = prog_len t" "prog_blocknum u = prog_blocknum t"
    "length (usbd_control_buffer u) = DFU_TRANSFER_SIZE" "usb_force_nak u \<noteq> []"
    "\<And>v. usbdfu_getstatus_complete cfg b u = Some v \<Longrightarrow>
      \<exists>s'. usb_run cfg b dev env [IN, SETUP getstatus_request, IN, OUT []] t = Some ([[], status_bytes STATE_DFU_DNBUSY], s') \<and>
        same_chip dev (flash_seen fdev) (v\<lparr>usb_complete_cb := None\<rparr>) s'"
    by (rule status_run [OF t(4, 3), where cfg = cfg and st = STATE_DFU_DNBUSY])
      (use h assms(1) in \<open>simp_all add: usb_idle_def dfu_request_def\<close>)
  have "kept s ?base" by simp
  moreover have "kept ?base t" using h by simp
  ultimately have "kept s u" using u(3) by (meson kept_trans)
  moreover have "settled (fdev (hw u)) = ?D" using u(1) by (simp add: chip_at_def)
  ultimately have "busy_state fdev k bs s u"
    using u h by (simp add: busy_state_def flash_view_kept)
  moreover have "\<exists>s'. usb_block cfg b dev env k bs s = Some s' \<and> same_chip dev (flash_seen fdev) (v\<lparr>usb_complete_cb := None\<rparr>) s'"
    if "usbdfu_getstatus_complete cfg b u = Some v" for v
    using u(9) [OF that] s1(1) t(1) assms(2)
    by (auto simp: usb_block_def block_tokens_def block_replies_def usb_run_append simp del: usb_run.simps(2) simp: usb_run.simps(2) [of _ _ _ _ "SETUP _"])
  ultimately show ?thesis using u(1, 7, 8) by (intro that) (simp_all add: chip_at_def)
qed

lemma last_run:
  fixes s :: "('h, 'm) usb_world_scheme"
  assumes "usb_idle dev s"
  shows "\<exists>s'. usb_block cfg b dev env k [] s = Some s' \<and> usb_idle dev s' \<and> usbdfu_state s' = STATE_DFU_MANIFEST \<and>
    flash_view fdev s' = flash_view fdev s"
proof -
  let ?D = "settled (fdev (hw s))" and ?r = "dfu_request 1 k 0"
  let ?s = "s\<lparr>hw := env (SETUP ?r) (hw s)\<rparr>"
  have e: "token_done b dev (SETUP ?r) (hw ?s)" "settled (fdev (hw ?s)) = ?D" "usb_force_nak ?s \<noteq> []"
    using setup_taken [of "hw s" ?r] assms by (simp_all add: usb_idle_def env_obs)
  have dir: "(wLength ?r = 0 \<or> bmRequestType ?r AND 0x80 \<noteq> 0) = True" by (simp add: dfu_request_def)
  obtain s3 where s3: "\<And>u. usb_control_setup_read cfg b s3 = Some u \<Longrightarrow>
      \<exists>s'. do_usb_poll cfg b ?s = Some s' \<and> same_chip dev (flash_seen fdev) u s'"
    "world.more s3 = world.more (?s\<lparr>usb_complete_cb := None, usb_force_nak := (usb_force_nak ?s)[0 := 1], usb_req := ?r\<rparr>)"
    "chip_at dev (flash_seen fdev) USB_EP_RX_STAT_NAK USB_EP_TX_STAT_NAK (settled (fdev (hw ?s))) (hw s3)"
    by (rule poll_setup [OF e(1, 3), where cfg = cfg, unfolded dir if_True]) blast
  note eq3 = usb_fields_eq [OF s3(2)] dfu_fields_eq [OF flash_more [OF s3(2)]]
  define tn where "tn = s3\<lparr>dataoff := 0, usbdfu_state := STATE_DFU_MANIFEST_SYNC, datasize := 0\<rparr>"
  define w where "w = snd (usbd_ep_write_packet b 0 (\<lambda>_. 0) 0 tn)"
  have "usb_control_setup_read cfg b s3 = Some (w\<lparr>usb_fsm_state := STATUS_IN\<rparr>)"
    by (simp add: usb_control_setup_read_def usb_control_request_dispatch_def class_request_def eq3 dfu_request_def
        usbdfu_control_request_def dfu_req_of_def dfu_dnload_def ret_true_def case_prod_beta w_def tn_def)
  then obtain t where t: "do_usb_poll cfg b ?s = Some t" "same_chip dev (flash_seen fdev) (w\<lparr>usb_fsm_state := STATUS_IN\<rparr>) t"
    using s3(1) by blast
  have mw: "world.more w = world.more tn" by (simp add: w_def)
  have m: "world.more t = world.more (w\<lparr>usb_fsm_state := STATUS_IN\<rparr>)" using t(2) by (simp add: same_chip_def)
  note eq = usb_fields_eq [OF m] usb_fields_eq [OF mw]
  have "chip_at dev (flash_seen fdev) USB_EP_RX_STAT_NAK USB_EP_TX_STAT_NAK ?D (hw tn)" using s3(3) e(2) by (simp add: tn_def)
  note wr = chip_write_packet [OF this, of 0 "\<lambda>_. 0"]
  have at: "chip_at dev (flash_seen fdev) USB_EP_RX_STAT_NAK USB_EP_TX_STAT_VALID ?D (hw t)" "tx_packet (dev (hw t)) = []"
    using wr t(2) by (simp_all add: same_chip_at [OF t(2)] w_def same_chip_def)
  obtain u where u: "chip_at dev (flash_seen fdev) USB_EP_RX_STAT_VALID USB_EP_TX_STAT_NAK ?D (hw u)" "usbdfu_state u = STATE_DFU_MANIFEST"
    "kept t u" "length (usbd_control_buffer u) = DFU_TRANSFER_SIZE" "usb_force_nak u \<noteq> []"
    "\<And>v. usbdfu_getstatus_complete cfg b u = Some v \<Longrightarrow>
      \<exists>s'. usb_run cfg b dev env [IN, SETUP getstatus_request, IN, OUT []] t = Some ([[], status_bytes STATE_DFU_MANIFEST], s') \<and>
        same_chip dev (flash_seen fdev) (v\<lparr>usb_complete_cb := None\<rparr>) s'"
    by (rule status_run [OF at, where cfg = cfg and st = STATE_DFU_MANIFEST])
      (use assms in \<open>simp_all add: eq tn_def eq3 usb_idle_def dfu_request_def\<close>)
  have "usbdfu_getstatus_complete cfg b u = Some u" by (simp add: usbdfu_getstatus_complete_def u(2))
  then obtain s' where s': "usb_run cfg b dev env [IN, SETUP getstatus_request, IN, OUT []] t =
      Some ([[], status_bytes STATE_DFU_MANIFEST], s')" "same_chip dev (flash_seen fdev) (u\<lparr>usb_complete_cb := None\<rparr>) s'"
    using u(6) by blast
  have m': "world.more s' = world.more (u\<lparr>usb_complete_cb := None\<rparr>)" using s'(2) by (simp add: same_chip_def)
  note eq' = usb_fields_eq [OF m']
  have "usb_block cfg b dev env k [] s = Some s'"
    using t(1) s'(1) by (simp add: usb_block_def block_tokens_def block_replies_def)
  moreover have "usb_idle dev s'" using u s'(2) by (simp add: usb_idle_def eq' same_chip_def chip_at_def)
  moreover have "usbdfu_state s' = STATE_DFU_MANIFEST" using u(2) by (simp add: eq')
  moreover have "kept s s'"
  proof -
    have "kept s s3" unfolding kept_more [OF s3(2)] by simp
    then have "kept s t" unfolding kept_more [OF m] by (simp add: kept_more [OF mw] tn_def)
    then show ?thesis using u(3) unfolding kept_more [OF m'] by (simp add: kept_def)
  qed
  ultimately show ?thesis using u(1) s'(2) by (auto simp: flash_view_kept same_chip_def chip_at_def)
qed

lemma block_host_usb: "block_host cfg fdev (usb_block cfg b dev env) (usb_idle dev)"
proof -
  have after: "usb_idle dev s' \<and> flash_view fdev s' = flash_view fdev v \<and> usbdfu_state s' = usbdfu_state v"
    if v: "usbdfu_getstatus_complete cfg b u = Some v" "dev (hw v) = dev (hw u)"
      "same_chip dev (flash_seen fdev) (v\<lparr>usb_complete_cb := None\<rparr>) s'"
      and u: "ep0_ok (dev (hw u))" "length (usbd_control_buffer u) = DFU_TRANSFER_SIZE" "usb_force_nak u \<noteq> []"
    for u v s' :: "('h, 'm) usb_world_scheme"
  proof -
    have m: "world.more s' = world.more (v\<lparr>usb_complete_cb := None\<rparr>)" using v(3) by (simp add: same_chip_def)
    note eq = usb_fields_eq [OF m]
    have "dfu_keeps u v" by (rule keeps_complete [OF v(1)])
    then have "length (usbd_control_buffer v) = DFU_TRANSFER_SIZE" "usb_force_nak v \<noteq> []"
      using u usb_fields_eq_dfu [of v u] by (simp_all add: dfu_keeps_def)
    then show ?thesis
      using u(1) v(2, 3) by (simp add: usb_idle_def eq flash_view_kept kept_more [OF m] same_chip_def)
  qed
  show ?thesis
  proof
    fix s :: "('h, 'm) usb_world_scheme" and k :: u16 and bs :: "u8 list" and a :: u32
    assume I: "usb_idle dev s" and st: "flash_settled fdev s" and n: "0 < length bs" "length bs \<le> DFU_TRANSFER_SIZE"
      and *: "k \<noteq> 0" "a = dfu_block_addr (prog_addr s) k" "unat a mod unat (d_page (fdev (hw s))) = 0"
        "0x8002000 \<le> unat a" "unat a + length bs \<le> unat (flash_app_end s)"
    obtain u where u: "busy_state fdev k bs s u" "ep0_ok (dev (hw u))"
      "length (usbd_control_buffer u) = DFU_TRANSFER_SIZE" "usb_force_nak u \<noteq> []"
      "\<And>v. usbdfu_getstatus_complete cfg b u = Some v \<Longrightarrow>
        \<exists>s'. usb_block cfg b dev env k bs s = Some s' \<and> same_chip dev (flash_seen fdev) (v\<lparr>usb_complete_cb := None\<rparr>) s'"
      by (rule block_run [OF I _ n(2), where cfg = cfg and k = k]) (use n(1) in auto)
    obtain v where v: "usbdfu_getstatus_complete cfg b u = Some v" "block_done cfg fdev a bs s v"
      using callback_programs [OF fmc_device_axioms st *(1) n *(2-5) u(1)] by blast
    have view: "flash_view fdev u = flash_view fdev s" using u(1) by (simp add: busy_state_def)
    note same = flash_view_eq [OF view]
    have rng: "dfu_range u = (unat a, length bs)"
      using u(1) * n(2) same by (simp add: dfu_range_def busy_state_def unsigned_of_nat take_bit_nat_eq_self)
    have "unat (flash_app_end s) \<le> 0xC000000" by (rule settled_end [OF st])
    moreover have "page_size u \<in> {1024, 2048}" using st same by (auto simp: flash_settled_def geometry_def)
    ultimately have "dev (hw v) = dev (hw u)"
      by (intro complete_usb [OF v(1)]) (use *(5) in \<open>simp_all add: same rng\<close>)
    with u(5) [OF v(1)] show "\<exists>s'. usb_block cfg b dev env k bs s = Some s' \<and> usb_idle dev s' \<and> block_done cfg fdev a bs s s'"
      using after [OF v(1) _ _ u(2-4)] block_done_view [OF v(2)] by blast
  next
    fix s :: "('h, 'm) usb_world_scheme" and a :: u32
    assume I: "usb_idle dev s" and st: "flash_settled fdev s" and a: "unat a \<le> unat (flash_app_end s)"
    have len: "set_address a \<noteq> []" "length (set_address a) \<le> DFU_TRANSFER_SIZE" by (simp_all add: set_address_def)
    obtain u where u: "busy_state fdev 0 (set_address a) s u" "ep0_ok (dev (hw u))"
      "length (usbd_control_buffer u) = DFU_TRANSFER_SIZE" "usb_force_nak u \<noteq> []"
      "\<And>v. usbdfu_getstatus_complete cfg b u = Some v \<Longrightarrow>
        \<exists>s'. usb_block cfg b dev env 0 (set_address a) s = Some s' \<and> same_chip dev (flash_seen fdev) (v\<lparr>usb_complete_cb := None\<rparr>) s'"
      by (rule block_run [OF I len, where cfg = cfg and k = 0]) blast
    obtain v where v: "usbdfu_getstatus_complete cfg b u = Some v" "address_done fdev a s v"
      using callback_sets_address [OF fmc_device_axioms st u(1)] by blast
    have view: "flash_view fdev u = flash_view fdev s" using u(1) by (simp add: busy_state_def)
    note same = flash_view_eq [OF view]
    have rng: "dfu_range u = (unat a, DFU_TRANSFER_SIZE)"
      using u(1) address_read [OF u(1)] by (simp add: dfu_range_def busy_state_def)
    have "unat (flash_app_end s) \<le> 0xC000000" by (rule settled_end [OF st])
    moreover have "page_size u \<in> {1024, 2048}" using st same by (auto simp: flash_settled_def geometry_def)
    ultimately have "dev (hw v) = dev (hw u)"
      by (intro complete_usb [OF v(1)]) (use a in \<open>simp_all add: same rng\<close>)
    with u(5) [OF v(1)] show "\<exists>s'. usb_block cfg b dev env 0 (set_address a) s = Some s' \<and> usb_idle dev s' \<and> address_done fdev a s s'"
      using after [OF v(1) _ _ u(2-4)] address_done_view [OF v(2)] by blast
  next
    fix s :: "('h, 'm) usb_world_scheme"
    assume "usb_idle dev s"
    then show "\<exists>s'. usb_block cfg b dev env 0 [] s = Some s' \<and> usb_idle dev s' \<and> usbdfu_state s' = STATE_DFU_MANIFEST \<and>
        flash_view fdev s' = flash_view fdev s"
      using last_run by blast
  qed
qed

end

section \<open>A chip and a host\<close>

record dfu_hw =
  h_usb :: usb_dev
  h_istr :: u16
  h_daddr :: u16
  h_fmc :: fmc_dev

definition dfu_bus :: "dfu_hw bus" where
  "dfu_bus =
     \<lparr>ld8 = (\<lambda>a h. (if usb_space a then fst (ld8 usb_bus a (h_usb h)) else cells (h_fmc h) a, h)),
      ld16 = (\<lambda>a h. (if usb_space a then fst (ld16 usb_bus a (h_usb h)) else fst (ld16 fmc_bus a (h_fmc h)), h)),
      ld32 = (\<lambda>a h. if a = USB_ISTR_REG then (ucast (h_istr h), h)
                    else if a = USB_DADDR_REG then (ucast (h_daddr h), h)
                    else if usb_space a then (fst (usb_ld32 a (h_usb h)), h)
                    else let (v, d) = fmc_ld32 a (h_fmc h) in (v, h\<lparr>h_fmc := d\<rparr>)),
      st8 = (\<lambda>a x h. h),
      st16 = (\<lambda>a w h. if usb_space a then h else h\<lparr>h_fmc := st16 fmc_bus a w (h_fmc h)\<rparr>),
      st32 = (\<lambda>a v h. if a = USB_ISTR_REG then h\<lparr>h_istr := h_istr h AND ucast v\<rparr>
                    else if a = USB_DADDR_REG then h\<lparr>h_daddr := ucast v\<rparr>
                    else if usb_space a then h\<lparr>h_usb := usb_st32 a v (h_usb h)\<rparr>
                    else h\<lparr>h_fmc := fmc_st32 a v (h_fmc h)\<rparr>)\<rparr>"

text \<open>A received packet in the buffer of endpoint 0, and its length in the descriptor.\<close>

definition rx_put :: "u8 list \<Rightarrow> usb_dev \<Rightarrow> usb_dev" where
  "rx_put p d = d\<lparr>pma := (pma_filled d (unat (pma d 2) div 2) 0 ((length p + 1) div 2) (\<lambda>i. p ! i))(3 := of_nat (length p))\<rparr>"

fun dfu_env :: "usb_token \<Rightarrow> dfu_hw \<Rightarrow> dfu_hw" where
  "dfu_env (SETUP r) h = h\<lparr>h_istr := USB_ISTR_CTR OR USB_ISTR_DIR,
     h_usb := (rx_put (bytes_of_setup r) (h_usb h))
       \<lparr>ep_reg := (ep_reg (h_usb h))(0 := USB_EP_SETUP OR USB_EP_RX_STAT_NAK OR USB_EP_TX_STAT_NAK)\<rparr>\<rparr>"
| "dfu_env (OUT p) h =
     (if rx_stat (h_usb h) = USB_EP_RX_STAT_VALID
      then h\<lparr>h_istr := USB_ISTR_CTR OR USB_ISTR_DIR,
        h_usb := (rx_put p (h_usb h))\<lparr>ep_reg := (ep_reg (h_usb h))(0 := USB_EP_RX_STAT_NAK OR tx_stat (h_usb h))\<rparr>\<rparr>
      else h)"
| "dfu_env IN h =
     (if tx_stat (h_usb h) = USB_EP_TX_STAT_VALID
      then h\<lparr>h_istr := USB_ISTR_CTR,
        h_usb := (h_usb h)\<lparr>ep_reg := (ep_reg (h_usb h))(0 := USB_EP_TX_STAT_NAK OR rx_stat (h_usb h))\<rparr>\<rparr>
      else h)"

lemma rx_put_receives:
  assumes "ep0_ok d" "length p \<le> 64"
  shows "ep0_ok (rx_put p d)" "rx_packet (rx_put p d) = p" "pma (rx_put p d) 3 AND 0x3ff \<le> 64"
proof -
  let ?q = "unat (pma d 2) div 2" and ?n = "(length p + 1) div 2"
  have q: "4 \<le> ?q" using assms(1) unfolding ep0_ok_def by (elim conjE) linarith
  then show ok: "ep0_ok (rx_put p d)" using assms(1) by (simp add: ep0_ok_def rx_put_def pma_filled_def)
  have "take_bit 10 (of_nat (length p) :: u16) = of_nat (take_bit 10 (length p))" by (rule take_bit_of_nat)
  also have "take_bit 10 (length p) = length p" using assms(2) by (simp add: take_bit_nat_eq_self)
  finally have n: "(of_nat (length p) :: u16) AND 0x3ff = of_nat (length p)"
    by (simp add: take_bit_eq_mask mask_eq_exp_minus_1)
  have u: "unat (of_nat (length p) :: u16) = length p" using assms(2) by (simp add: unsigned_of_nat take_bit_nat_eq_self)
  show "pma (rx_put p d) 3 AND 0x3ff \<le> 64" using n u assms(2) by (simp add: rx_put_def word_le_nat_alt)
  have "pma (rx_put p d) 2 = pma d 2" using q by (simp add: rx_put_def pma_filled_def)
  moreover have "pma_bytes (rx_put p d) ?q (length p) = pma_bytes (d\<lparr>pma := pma_filled d ?q 0 ?n (\<lambda>i. p ! i)\<rparr>) ?q (length p)"
    using q by (simp add: pma_bytes_def rx_put_def)
  moreover have "\<dots> = p" by (simp add: pma_bytes_filled map_nth)
  ultimately show "rx_packet (rx_put p d) = p" by (simp add: rx_packet_def n u rx_put_def)
qed

lemma fmc_not_usb:
  "\<not> usb_space 0x4002200C" "\<not> usb_space 0x40022010" "\<not> usb_space 0x40022004" "\<not> usb_space 0x40022014"
  "in_array d a \<Longrightarrow> \<not> usb_space a"
proof -
  show "\<not> usb_space a" if "in_array d a"
  proof
    assume "usb_space a"
    then have "0x40005C00 \<le> unat a" by (simp add: usb_space_def word_le_nat_alt)
    moreover have "a - FLASH_BASE_ADDR < 0x4000000" using that by (auto simp: in_array_def)
    then have "unat (a - FLASH_BASE_ADDR) < 0x4000000" by (simp add: word_less_nat_alt)
    ultimately show False by (simp add: unat_sub word_le_nat_alt)
  qed
qed (simp_all add: usb_space_def)

lemma usb_not_istr [simp]:
  "ep < 8 \<Longrightarrow> USB_EP_REG ep \<noteq> USB_ISTR_REG" "k < 256 \<Longrightarrow> pma_addr k \<noteq> USB_ISTR_REG" "usb_space USB_BTABLE_REG"
proof -
  have i: "pma_index USB_ISTR_REG = None" "ep_index USB_ISTR_REG = None" by (simp_all add: pma_index_def ep_index_def)
  show "USB_EP_REG ep \<noteq> USB_ISTR_REG" if "ep < 8" using that i(2) by (metis ep_index_reg option.simps(3))
  show "pma_addr k \<noteq> USB_ISTR_REG" if "k < 256" using that i(1) by (metis pma_index_addr option.simps(3))
  show "usb_space USB_BTABLE_REG" by (simp add: usb_space_def)
qed

interpretation duo: usb_periph dfu_bus h_usb
  by unfold_locales
    (auto simp: dfu_bus_def usb_bus_def usb_ld32_def usb_st32_def case_prod_beta)

interpretation duo: fmc_device dfu_bus h_fmc
proof -
  have ne: "0x4002200C \<noteq> USB_ISTR_REG" by simp
  have inn: "a \<noteq> USB_ISTR_REG" if "in_array d a" for d a
    using fmc_not_usb(5) [OF that] by (auto simp: usb_space_def)
  show "fmc_device dfu_bus h_fmc"
    by unfold_locales
      (simp_all add: dfu_bus_def fmc_not_usb inn case_prod_beta fmc_bus_def fmc_ld32_def fmc_st32_def, auto simp: in_array_def)
qed

lemma usb_events:
  "pma_index USB_ISTR_REG = None" "ep_index USB_ISTR_REG = None" "pma_index USB_CNTR_REG = None" "ep_index USB_CNTR_REG = None"
  "pma_index USB_DADDR_REG = None" "ep_index USB_DADDR_REG = None"
  by (simp_all add: pma_index_def ep_index_def)

interpretation duo: dfu_chip dfu_bus h_usb h_fmc
proof
  show "a = USB_ISTR_REG \<or> a = USB_CNTR_REG \<or> a = USB_DADDR_REG \<Longrightarrow> h_usb (st32 dfu_bus a v h) = h_usb h" for a v h
    by (auto simp: dfu_bus_def usb_st32_def usb_events)
qed (auto simp: dfu_bus_def fmc_bus_def fmc_ld32_def settled_def case_prod_beta usb_space_def)

lemma stat_only:
  fixes r :: u16
  shows "(USB_EP_RX_STAT_NAK OR (r AND USB_EP_TX_STAT)) AND USB_EP_RX_STAT = USB_EP_RX_STAT_NAK"
    "(USB_EP_RX_STAT_NAK OR (r AND USB_EP_TX_STAT)) AND USB_EP_TX_STAT = r AND USB_EP_TX_STAT"
    "(USB_EP_RX_STAT_NAK OR (r AND USB_EP_TX_STAT)) AND USB_EP_SETUP = 0"
    "(USB_EP_TX_STAT_NAK OR (r AND USB_EP_RX_STAT)) AND USB_EP_TX_STAT = USB_EP_TX_STAT_NAK"
    "(USB_EP_TX_STAT_NAK OR (r AND USB_EP_RX_STAT)) AND USB_EP_RX_STAT = r AND USB_EP_RX_STAT"
  by (rule word16_eqI, auto simp: bit_simps)+

lemma dfu_bus_istr: "usb_istr dfu_bus h = h_istr h"
  by (simp add: usb_istr_def dfu_bus_def)

text \<open>Only packet memory and \<open>ep_reg\<close> differ.\<close>

lemma ep_reg_update [simp]:
  "ep0_ok (d\<lparr>ep_reg := r\<rparr>) = ep0_ok d" "rx_packet (d\<lparr>ep_reg := r\<rparr>) = rx_packet d"
  by (simp_all add: ep0_ok_def rx_packet_def pma_bytes_def)

lemma receives_put:
  assumes "ep0_ok d" "length p \<le> 64" "r 0 AND USB_EP_RX_STAT \<noteq> USB_EP_RX_STAT_VALID"
  shows "receives (\<lambda>d. d) ((rx_put p d)\<lparr>ep_reg := r\<rparr>) p"
  using rx_put_receives [OF assms(1, 2)] assms(3)
  by (simp add: receives_def rx_ready_def) (simp add: ep0_ok_def)

lemma receives_comp: "receives dev h p = receives (\<lambda>d. d) (dev h) p"
  by (simp add: receives_def)

interpretation duo: usb_host dfu_bus h_usb h_fmc dfu_env
proof
  fix h :: dfu_hw
  assume ok: "ep0_ok (h_usb h)"
  show "token_done dfu_bus h_usb (SETUP r) (dfu_env (SETUP r) h)" for r
    using rx_put_receives(1) [OF ok, of "bytes_of_setup r"] receives_put [OF ok, of "bytes_of_setup r"]
    by (simp add: token_done_def dfu_bus_istr receives_comp [of h_usb] rx_stat_def tx_stat_def)
  show "token_done dfu_bus h_usb (OUT p) (dfu_env (OUT p) h) \<and> tx_stat (h_usb (dfu_env (OUT p) h)) = tx_stat (h_usb h)"
    if "rx_stat (h_usb h) = USB_EP_RX_STAT_VALID" "length p \<le> 64" for p
    using that(1) rx_put_receives(1) [OF ok that(2)] receives_put [OF ok that(2)] stat_only(1-3) [of "ep_reg (h_usb h) 0"]
    by (simp add: token_done_def dfu_bus_istr receives_comp [of h_usb] rx_stat_def tx_stat_def)
  show "token_done dfu_bus h_usb IN (dfu_env IN h) \<and> rx_stat (h_usb (dfu_env IN h)) = rx_stat (h_usb h)"
    if "tx_stat (h_usb h) = USB_EP_TX_STAT_VALID"
    using that ok stat_only(4, 5) [of "ep_reg (h_usb h) 0"]
    by (simp add: token_done_def dfu_bus_istr rx_stat_def tx_stat_def)
next
  show "settled (h_fmc (dfu_env t h)) = settled (h_fmc h)" for t and h :: dfu_hw
    by (cases t) simp_all
qed

interpretation duo: block_host cfg h_fmc "usb_block cfg dfu_bus h_usb dfu_env" "usb_idle h_usb" for cfg
  by (rule duo.block_host_usb)

section \<open>Properties\<close>

text \<open>C3: a download over the bus programs the image. The host sends each block as a SETUP, its OUT packets
  and the status stage, then asks for the status, first the address command, then the blocks of the
  image, then the empty block. On a chip as documented, with a firmware that only polls, every
  transaction is answered as the host expects, and at the end the image is in the flash, the other
  bytes of the pages it touches are erased, every other byte is as before, the controller is
  locked, and the device is about to reset.\<close>

theorem download_over_usb:
  assumes "usb_host b dev fdev env" "usb_idle dev s" "flash_settled fdev s" "img \<noteq> []" "even (length img)"
    and "unat (d_page (fdev (hw s))) dvd unat a" "0x8002000 \<le> unat a" "unat a + length img \<le> unat (flash_app_end s)"
  shows "\<exists>s'. host_session (usb_block cfg b dev env) a img s = Some s' \<and> usbdfu_state s' = STATE_DFU_MANIFEST \<and>
    flash_settled fdev s' \<and> cells (fdev (hw s')) = flashed cfg (fdev (hw s)) s a img"
  using block_host.session_done [OF usb_host.block_host_usb [OF assms(1)] assms(2-8)] by blast

text \<open>Five thousand bytes at 0x8002400, in 64-byte packets.\<close>

definition duo_boot :: "dfu_hw usb_world" where
  "duo_boot = usb_boot \<lparr>h_usb = usb_dev0, h_istr = 0, h_daddr = 0x80, h_fmc = flash_demo\<rparr> (\<lambda>_. 0)"

lemma duo_boot_ready: "usb_idle h_usb duo_boot" "flash_settled h_fmc duo_boot" "flash_app_end duo_boot = 0x8010000"
  using geometry_demo
  by (simp_all add: usb_idle_def ep0_ok_def usb_dev0_def zeros_def
      flash_settled_def duo_boot_def usb_boot_def fmc_idle_def page_size_def get_flash_page_size_def
      lnCpuID_vendor_def flash_app_end_def lnCpuID_flashSize_def Let_def) (simp_all add: flash_demo_def)

lemma download_over_usb_witness:
  "\<exists>s'. host_session (usb_block (cmake_build False) dfu_bus h_usb dfu_env) 0x8002400 (replicate 5000 7) duo_boot = Some s' \<and>
    usbdfu_state s' = STATE_DFU_MANIFEST \<and> cells (h_fmc (hw s')) 0x8003787 = 7 \<and> cells (h_fmc (hw s')) 0x8003788 = 0xFF"
proof -
  have d: "h_fmc (hw duo_boot) = flash_demo" "d_page flash_demo = 1024"
    by (simp_all add: duo_boot_def usb_boot_def flash_demo_def)
  obtain s' where "host_session (usb_block (cmake_build False) dfu_bus h_usb dfu_env) 0x8002400 (replicate 5000 7) duo_boot = Some s'"
    "usbdfu_state s' = STATE_DFU_MANIFEST"
    "cells (h_fmc (hw s')) = flashed (cmake_build False) flash_demo duo_boot 0x8002400 (replicate 5000 7)"
    using download_over_usb [OF duo.usb_host_axioms duo_boot_ready(1, 2), of "replicate 5000 7" "0x8002400" "cmake_build False"]
    by (auto simp: duo_boot_ready(3) d)
  then show ?thesis
    by (intro exI [of _ s'])
      (simp add: flashed_def erase_span_def cmake_build_def range_wiped_def in_array_def flash_demo_def page_of_def)
qed

end
