(* ===== verification/UsbEnum.thy ===== *)
theory UsbEnum
  imports DfuUsb
begin

text \<open>
  Enumeration: what a bus reset leaves behind, and when the address of SET_ADDRESS takes effect.
\<close>

section \<open>Endpoint 0 opened\<close>

lemma more_pm_top:
  fixes s t :: "('h, 'm) usb_world_scheme"
  shows "world.more s = world.more t \<Longrightarrow> world.more (s\<lparr>usb_pm_top := x\<rparr>) = world.more (t\<lparr>usb_pm_top := x\<rparr>)"
  by (cases s; cases t) simp

lemma epr_opened:
  "\<exists>t :: u16. r = ((((((((t AND NOT USB_EP_TYPE) OR USB_EP_TYPE_CONTROL) AND NOT USB_EP_TX_DTOG) AND NOT USB_EP_TX_STAT) OR
      USB_EP_TX_STAT_NAK) AND NOT USB_EP_RX_DTOG) AND NOT USB_EP_RX_STAT) OR USB_EP_RX_STAT_VALID) \<Longrightarrow>
   r AND USB_EP_RX_STAT = USB_EP_RX_STAT_VALID \<and> r AND USB_EP_TX_STAT = USB_EP_TX_STAT_NAK \<and>
   r AND USB_EP_TYPE = USB_EP_TYPE_CONTROL \<and> r AND (USB_EP_RX_DTOG OR USB_EP_TX_DTOG) = 0"
  by (elim exE, intro conjI; hypsubst; rule word16_eqI; auto simp: bit_simps)

text \<open>The descriptor table and the register of endpoint 0 after its setup: buffers at 0x40 and 0x80, and a
  receive size of 0x8800, the code of 96 bytes.\<close>

definition ep0_opened :: "usb_dev \<Rightarrow> usb_dev \<Rightarrow> bool" where
  "ep0_opened d d' \<longleftrightarrow>
     pma d' = (pma d)(0 := 0x40, 2 := 0x80, 3 := 0x8800) \<and> d_btable d' = 0 \<and>
     rx_stat d' = USB_EP_RX_STAT_VALID \<and> tx_stat d' = USB_EP_TX_STAT_NAK \<and>
     ep_reg d' 0 AND USB_EP_TYPE = USB_EP_TYPE_CONTROL \<and> ep_reg d' 0 AND (USB_EP_RX_DTOG OR USB_EP_TX_DTOG) = 0 \<and>
     (\<forall>ep. ep \<noteq> 0 \<longrightarrow> ep_reg d' ep = ep_reg d ep)"

lemma ep0_opened_ok: "ep0_opened d d' \<Longrightarrow> ep0_ok d'"
  by (simp add: ep0_opened_def ep0_ok_def)

context usb_chip begin

lemma dev_type_addr:
  "dev (hw (USB_SET_EP_ADDR b 0 0 s)) =
    (dev (hw s))\<lparr>ep_reg := (ep_reg (dev (hw s)))(0 := ep_reg (dev (hw s)) 0 AND NOT USB_EP_ADDR)\<rparr>"
  "dev (hw (USB_SET_EP_TYPE b 0 USB_EP_TYPE_CONTROL s)) =
    (dev (hw s))\<lparr>ep_reg := (ep_reg (dev (hw s)))(0 := (ep_reg (dev (hw s)) 0 AND NOT USB_EP_TYPE) OR USB_EP_TYPE_CONTROL)\<rparr>"
proof -
  have "(0 :: u8) < 8" by simp
  note upd = dev_UPD_ep [OF this]
  show "dev (hw (USB_SET_EP_ADDR b 0 0 s)) =
    (dev (hw s))\<lparr>ep_reg := (ep_reg (dev (hw s)))(0 := ep_reg (dev (hw s)) 0 AND NOT USB_EP_ADDR)\<rparr>"
    "dev (hw (USB_SET_EP_TYPE b 0 USB_EP_TYPE_CONTROL s)) =
    (dev (hw s))\<lparr>ep_reg := (ep_reg (dev (hw s)))(0 := (ep_reg (dev (hw s)) 0 AND NOT USB_EP_TYPE) OR USB_EP_TYPE_CONTROL)\<rparr>"
    by (simp_all only: USB_SET_EP_ADDR_def USB_SET_EP_TYPE_def upd epr_set)
qed

lemma obs_btable_entry:
  assumes "off < 8" "even (unat off)" "d_btable (dev (hw t)) = 0"
  shows "obs (hw (SET_BTABLE_ENTRY b 0 off v t)) = obs (hw t)"
proof -
  have "fst (GET_REG b USB_BTABLE_REG t) = 0" using assms(3) btable_value [of "hw t"] by (simp add: GET_REG_def case_prod_beta)
  moreover have "(0 :: u8) < 8" by simp
  note btable_entry_0 [OF this assms(1, 2)]
  ultimately show ?thesis
    using assms(1) by (simp add: SET_BTABLE_ENTRY_def case_prod_beta SET_REG_def usb_stores word_less_nat_alt GET_REG_def loads_obs)
qed

text \<open>The steps of the setup, in their order.\<close>

lemma setup_ep0:
  fixes s :: "('h, 'm) usb_world_scheme"
  assumes "d_btable (dev (hw s)) = 0" "usb_pm_top s = USBD_PM_TOP"
  shows "ep0_opened (dev (hw s)) (dev (hw (usbd_ep_setup b 0 USB_ENDPOINT_ATTR_CONTROL 64 s)))"
    "world.more (usbd_ep_setup b 0 USB_ENDPOINT_ATTR_CONTROL 64 s) = world.more (s\<lparr>usb_pm_top := 0xC0\<rparr>)"
    "obs (hw (usbd_ep_setup b 0 USB_ENDPOINT_ATTR_CONTROL 64 s)) = obs (hw s)"
proof -
  define s1 where "s1 = USB_SET_EP_TYPE b 0 USB_EP_TYPE_CONTROL (USB_SET_EP_ADDR b 0 0 s)"
  define s2 where "s2 = USB_SET_EP_TX_STAT b 0 USB_EP_TX_STAT_NAK (USB_CLR_EP_TX_DTOG b 0 (USB_SET_EP_TX_ADDR b 0 (usb_pm_top s1) s1))"
  define s3 where "s3 = s2\<lparr>usb_pm_top := usb_pm_top s2 + 64\<rparr>"
  define s4 where "s4 = set_ep_rx_bufsize b 0 64 (USB_SET_EP_RX_ADDR b 0 (usb_pm_top s3) s3)"
  define s5 where "s5 = USB_SET_EP_RX_STAT b 0 USB_EP_RX_STAT_VALID (USB_CLR_EP_RX_DTOG b 0 s4)"
  have all: "usbd_ep_setup b 0 USB_ENDPOINT_ATTR_CONTROL 64 s = s5\<lparr>usb_pm_top := usb_pm_top s5 + 64\<rparr>"
    by (simp add: usbd_ep_setup_def typelookup_def Let_def s1_def s2_def s3_def s4_def s5_def)
  have m1: "world.more s1 = world.more s" by (simp add: s1_def)
  have m2: "world.more s2 = world.more s" by (simp add: s2_def m1)
  have m3: "world.more s3 = world.more (s\<lparr>usb_pm_top := 0x80\<rparr>)"
    using m2 assms(2) usb_fields_eq [OF m2] by (cases s; cases s2) (simp add: s3_def)
  have m5: "world.more s5 = world.more (s\<lparr>usb_pm_top := 0x80\<rparr>)"
    by (simp add: s5_def s4_def set_ep_rx_bufsize_def m3)
  show "world.more (usbd_ep_setup b 0 USB_ENDPOINT_ATTR_CONTROL 64 s) = world.more (s\<lparr>usb_pm_top := 0xC0\<rparr>)"
    unfolding all using m5 by (cases s; cases s5) simp
  have tops: "usb_pm_top s1 = 0x40" "usb_pm_top s3 = 0x80"
    using usb_fields_eq(12) [OF m1] usb_fields_eq(12) [OF m3] assms(2) by simp_all
  have z: "(0 :: u8) < 8" "(0 :: u32) < 8" "(4 :: u32) < 8" "(6 :: u32) < 8" "even (unat (0 :: u32))" "even (unat (4 :: u32))" "even (unat (6 :: u32))"
    by simp_all
  let ?D = "dev (hw s)"
  define q where "q = ep_reg ?D 0 AND NOT USB_EP_ADDR"
  define r where "r = (q AND NOT USB_EP_TYPE) OR USB_EP_TYPE_CONTROL"
  define r2 where "r2 = ((r AND NOT USB_EP_TX_DTOG) AND NOT USB_EP_TX_STAT) OR USB_EP_TX_STAT_NAK"
  define r5 where "r5 = ((r2 AND NOT USB_EP_RX_DTOG) AND NOT USB_EP_RX_STAT) OR USB_EP_RX_STAT_VALID"
  have "dev (hw (USB_SET_EP_ADDR b 0 0 s)) = ?D\<lparr>ep_reg := (ep_reg ?D)(0 := q)\<rparr>"
    by (simp only: dev_type_addr q_def)
  then have d1: "dev (hw s1) = ?D\<lparr>ep_reg := (ep_reg ?D)(0 := r)\<rparr>"
    by (simp add: s1_def dev_type_addr(2)) (simp add: r_def)
  have d2: "dev (hw s2) = ?D\<lparr>ep_reg := (ep_reg ?D)(0 := r2), pma := (pma ?D)(0 := 0x40)\<rparr>"
    using dev_btable(3) [OF z(1, 2, 5), of s1] assms(1)
    by (simp add: s2_def dev_ep_macros [OF z(1)] d1 tops) (simp add: r2_def)
  have "dev (hw (USB_SET_EP_RX_ADDR b 0 (usb_pm_top s3) s3)) =
      ?D\<lparr>ep_reg := (ep_reg ?D)(0 := r2), pma := (pma ?D)(0 := 0x40, 2 := 0x80)\<rparr>"
    using dev_btable(3) [OF z(1, 3, 6), of s3] assms(1) by (simp add: s3_def d2 tops [unfolded s3_def]) (simp add: numeral_2_eq_2)
  then have d4: "dev (hw s4) = ?D\<lparr>ep_reg := (ep_reg ?D)(0 := r2), pma := (pma ?D)(0 := 0x40, 2 := 0x80, 3 := 0x8800)\<rparr>"
    using dev_btable(3) [OF z(1, 4, 7), of "USB_SET_EP_RX_ADDR b 0 (usb_pm_top s3) s3"] assms(1)
    by (simp add: s4_def set_ep_rx_bufsize_def)
  have d5: "dev (hw s5) = ?D\<lparr>ep_reg := (ep_reg ?D)(0 := r5), pma := (pma ?D)(0 := 0x40, 2 := 0x80, 3 := 0x8800)\<rparr>"
    by (simp add: s5_def dev_ep_macros [OF z(1)] d4) (simp add: r5_def)
  have "r5 AND USB_EP_RX_STAT = USB_EP_RX_STAT_VALID \<and> r5 AND USB_EP_TX_STAT = USB_EP_TX_STAT_NAK \<and>
      r5 AND USB_EP_TYPE = USB_EP_TYPE_CONTROL \<and> r5 AND (USB_EP_RX_DTOG OR USB_EP_TX_DTOG) = 0"
    by (rule epr_opened) (unfold r5_def r2_def r_def, blast)
  then show "ep0_opened ?D (dev (hw (usbd_ep_setup b 0 USB_ENDPOINT_ATTR_CONTROL 64 s)))"
    using assms(1) by (simp add: all ep0_opened_def d5 rx_stat_def tx_stat_def)
  have "obs (hw s1) = obs (hw s)" by (simp add: s1_def USB_SET_EP_ADDR_def USB_SET_EP_TYPE_def)
  moreover have "obs (hw s2) = obs (hw s1)"
    using obs_btable_entry [OF z(2, 5), of s1] assms(1) by (simp add: s2_def USB_SET_EP_TX_STAT_def TOG_SET_REG_BIT_MSK_AND_SET_def USB_CLR_EP_TX_DTOG_def d1)
  moreover have "obs (hw s4) = obs (hw s2)"
    using obs_btable_entry [OF z(3, 6), of s3] obs_btable_entry [OF z(4, 7), of "USB_SET_EP_RX_ADDR b 0 (usb_pm_top s3) s3"] assms(1)
    by (simp add: s4_def set_ep_rx_bufsize_def s3_def d2 dev_btable(3) [OF z(1, 3, 6)])
  moreover have "obs (hw s5) = obs (hw s4)"
    by (simp add: s5_def USB_SET_EP_RX_STAT_def TOG_SET_REG_BIT_MSK_AND_SET_def USB_CLR_EP_RX_DTOG_def)
  ultimately show "obs (hw (usbd_ep_setup b 0 USB_ENDPOINT_ATTR_CONTROL 64 s)) = obs (hw s)" by (simp add: all)
qed

lemma reset_poll:
  fixes s :: "('h, 'm) usb_world_scheme"
  assumes "usb_istr b (hw s) AND USB_ISTR_RESET \<noteq> 0" "d_btable (dev (hw s)) = 0"
  obtains s' h where "do_usb_poll cfg b s = Some s'" "ep0_opened (dev (hw s)) (dev (hw s'))"
    "world.more s' = world.more (s\<lparr>usb_pm_top := 0xC0\<rparr>)" "obs h = obs (hw s)" "hw s' = st32 b USB_DADDR_REG 0x80 h"
proof -
  define s1 where "s1 = (CLR_REG_BIT b USB_ISTR_REG USB_ISTR_RESET (snd (GET_REG b USB_ISTR_REG s)))\<lparr>usb_pm_top := USBD_PM_TOP\<rparr>"
  have istr: "fst (GET_REG b USB_ISTR_REG s) = usb_istr b (hw s)"
    by (simp add: GET_REG_def usb_istr_def case_prod_beta)
  have s1: "dev (hw s1) = dev (hw s)" "obs (hw s1) = obs (hw s)"
    by (simp_all add: s1_def CLR_REG_BIT_def SET_REG_def event_stores usb_stores GET_REG_def case_prod_beta loads_usb loads_obs)
  have m1: "world.more s1 = world.more (s\<lparr>usb_pm_top := USBD_PM_TOP\<rparr>)"
    unfolding s1_def by (rule more_pm_top) simp
  have "d_btable (dev (hw s1)) = 0" "usb_pm_top s1 = USBD_PM_TOP" using assms(2) s1(1) by (simp_all add: s1_def)
  note open0 = setup_ep0 [OF this]
  let ?u = "usbd_ep_setup b 0 USB_ENDPOINT_ATTR_CONTROL 64 s1"
  have "do_usb_poll cfg b s = Some (SET_REG b USB_DADDR_REG USB_DADDR_EF ?u)"
    using assms(1) by (simp add: do_usb_poll_def case_prod_beta istr usb_reset_event_def s1_def dev_desc_def Let_def)
  then show ?thesis
  proof (rule that)
    show "ep0_opened (dev (hw s)) (dev (hw (SET_REG b USB_DADDR_REG USB_DADDR_EF ?u)))"
      using open0(1) s1 by (simp add: SET_REG_def event_stores)
    show "world.more (SET_REG b USB_DADDR_REG USB_DADDR_EF ?u) = world.more (s\<lparr>usb_pm_top := 0xC0\<rparr>)"
      using open0(2) more_pm_top [OF m1, of "0xC0"] by simp
    show "obs (hw ?u) = obs (hw s)" using open0(3) s1 by simp
  qed (simp add: SET_REG_def)
qed

end

section \<open>The address\<close>

definition set_address_request :: "u16 \<Rightarrow> usb_setup_data" where
  "set_address_request n = \<lparr>bmRequestType = 0, bRequest = USB_REQ_SET_ADDRESS, wValue = n, wIndex = 0, wLength = 0\<rparr>"

context usb_env begin

text \<open>SETUP changes nothing but the state of the transfer; the status stage stores the address.\<close>

lemma address_setup:
  fixes s :: "('h, 'm) usb_world_scheme"
  assumes "ep0_ok (dev (hw s))" "usb_force_nak s \<noteq> []" "n < 128"
  obtains t where "usb_run cfg b dev env [SETUP (set_address_request n)] s = Some ([], t)"
    "chip_at dev obs USB_EP_RX_STAT_NAK USB_EP_TX_STAT_VALID (obs (hw s)) (hw t)" "tx_packet (dev (hw t)) = []"
    "usb_fsm_state t = STATUS_IN" "usb_complete_cb t = None" "usb_req t = set_address_request n" "kept s t"
    "usb_force_nak t \<noteq> []" "length (usbd_control_buffer t) = length (usbd_control_buffer s)"
proof -
  let ?r = "set_address_request n"
  let ?s = "s\<lparr>hw := env (SETUP ?r) (hw s)\<rparr>"
  have e: "token_done b dev (SETUP ?r) (hw ?s)" "obs (hw ?s) = obs (hw s)" "usb_force_nak ?s \<noteq> []"
    using setup_taken [of "hw s" ?r] assms by (simp_all add: env_obs)
  have dir: "(wLength ?r = 0 \<or> bmRequestType ?r AND 0x80 \<noteq> 0) = True" by (simp add: set_address_request_def)
  obtain s3 where s3: "\<And>u. usb_control_setup_read cfg b s3 = Some u \<Longrightarrow>
      \<exists>s'. do_usb_poll cfg b ?s = Some s' \<and> same_chip dev obs u s'"
    "world.more s3 = world.more (?s\<lparr>usb_complete_cb := None, usb_force_nak := (usb_force_nak ?s)[0 := 1], usb_req := ?r\<rparr>)"
    "chip_at dev obs USB_EP_RX_STAT_NAK USB_EP_TX_STAT_NAK (obs (hw ?s)) (hw s3)"
    by (rule poll_setup [OF e(1, 3), where cfg = cfg, unfolded dir if_True]) blast
  note eq3 = usb_fields_eq [OF s3(2)]
  define tn where "tn = s3\<lparr>dataoff := 0, datasize := 0\<rparr>"
  define w where "w = snd (usbd_ep_write_packet b 0 (\<lambda>_. 0) 0 tn)"
  have tn: "(if (0 :: u16) < datasize (s3\<lparr>dataoff := 0\<rparr>) then s3\<lparr>dataoff := 0, datasize := 0\<rparr> else s3\<lparr>dataoff := 0\<rparr>) = tn"
    by (cases s3) (simp add: tn_def word_greater_zero_iff)
  have "usb_control_setup_read cfg b s3 = Some (w\<lparr>usb_fsm_state := STATUS_IN\<rparr>)"
    using assms(3) tn by (simp add: usb_control_setup_read_def usb_control_request_dispatch_def class_request_def eq3 set_address_request_def
        usbd_standard_request_def usbd_standard_request_device_def ret_true_def case_prod_beta w_def)
  then obtain t where t: "do_usb_poll cfg b ?s = Some t" "same_chip dev obs (w\<lparr>usb_fsm_state := STATUS_IN\<rparr>) t"
    using s3(1) by blast
  have mw: "world.more w = world.more tn" by (simp add: w_def)
  have m: "world.more t = world.more (w\<lparr>usb_fsm_state := STATUS_IN\<rparr>)" using t(2) by (simp add: same_chip_def)
  note eq = usb_fields_eq [OF m] usb_fields_eq [OF mw]
  have at: "chip_at dev obs USB_EP_RX_STAT_NAK USB_EP_TX_STAT_NAK (obs (hw s)) (hw tn)" using s3(3) e(2) by (simp add: tn_def)
  have run: "usb_run cfg b dev env [SETUP ?r] s = Some ([], t)" using t(1) by simp
  have kept: "kept s t"
  proof -
    have "kept s s3" unfolding kept_more [OF s3(2)] by simp
    then show ?thesis unfolding kept_more [OF m] by (simp add: kept_more [OF mw] tn_def)
  qed
  show ?thesis
    by (rule that [OF run _ _ _ _ _ kept])
      (use chip_write_packet [OF at, of 0 "\<lambda>_. 0"] t(2) e(3)
        in \<open>simp_all add: same_chip_at [OF t(2)] w_def [symmetric] eq tn_def eq3, simp_all add: same_chip_def w_def tn_def\<close>)
qed

lemma address_status:
  fixes t :: "('h, 'm) usb_world_scheme"
  assumes "chip_at dev obs rx USB_EP_TX_STAT_VALID D (hw t)" "tx_packet (dev (hw t)) = []"
    and "usb_fsm_state t = STATUS_IN" "usb_complete_cb t = None" "usb_req t = set_address_request n" "n < 128"
  obtains s' h where "usb_run cfg b dev env [IN] t = Some ([[]], s')" "kept t s'" "ep0_ok (dev (hw s'))"
    "obs h = D" "obs (hw s') = obs (st32 b USB_DADDR_REG (ucast (n OR USB_DADDR_EF)) h)"
    "usb_force_nak s' = usb_force_nak t" "usbd_control_buffer s' = usbd_control_buffer t"
proof -
  let ?t = "t\<lparr>hw := env IN (hw t)\<rparr>"
  have e: "token_done b dev IN (hw ?t)" "obs (hw ?t) = D"
    using in_taken [of "hw t"] assms(1) by (simp_all add: chip_at_def env_obs)
  obtain s1 where s1: "world.more s1 = world.more ?t"
    "chip_at dev obs (rx_stat (dev (hw ?t))) USB_EP_TX_STAT_NAK (obs (hw ?t)) (hw s1)"
    "\<And>u. usbd_control_in cfg b s1 = Some u \<Longrightarrow> \<exists>s'. do_usb_poll cfg b ?t = Some s' \<and> same_chip dev obs u s'"
    by (rule poll_in [OF e(1), where cfg = cfg]) blast
  let ?u = "(SET_REG b USB_DADDR_REG (n OR USB_DADDR_EF) s1)\<lparr>usb_fsm_state := IDLE\<rparr>"
  have n: "n AND USB_DADDR_ADDR = n"
    using less_mask_eq [of n 7] assms(6) by (simp add: mask_eq_exp_minus_1)
  note eq1 = usb_fields_eq [OF s1(1)]
  have "usbd_control_in cfg b s1 = Some ?u"
    using assms(3-5) n by (simp add: usbd_control_in_def run_complete_cb_def eq1 set_address_request_def)
  then obtain s' where s': "do_usb_poll cfg b ?t = Some s'" "same_chip dev obs ?u s'" using s1(3) by blast
  have m: "world.more s' = world.more ?u" using s'(2) by (simp add: same_chip_def)
  have mu: "world.more (SET_REG b USB_DADDR_REG (n OR USB_DADDR_EF) s1) = world.more t" using s1(1) by simp
  show ?thesis
  proof (rule that)
    show "usb_run cfg b dev env [IN] t = Some ([[]], s')" using s'(1) assms(2) by simp
    show "kept t s'" by (simp add: kept_more [OF m] kept_more [OF mu])
    show "ep0_ok (dev (hw s'))"
      using s1(2) s'(2) by (simp add: same_chip_def chip_at_def SET_REG_def event_stores)
    show "obs (hw s1) = D" using s1(2) e(2) by (simp add: chip_at_def)
    show "obs (hw s') = obs (st32 b USB_DADDR_REG (ucast (n OR USB_DADDR_EF)) (hw s1))"
      using s'(2) by (simp add: same_chip_def SET_REG_def)
  qed (simp_all add: usb_fields_eq [OF m] usb_fields_eq [OF mu])
qed

end

section \<open>The device on the bus\<close>

text \<open>The flash and the address on one chip: a store to the address register is the address, and does not
  reach the flash.\<close>

locale dfu_function = usb_host b dev fdev env + addr: usb_env b dev daddr env
  for b :: "'h bus" and dev :: "'h \<Rightarrow> usb_dev" and fdev :: "'h \<Rightarrow> fmc_dev" and env :: "usb_token \<Rightarrow> 'h \<Rightarrow> 'h"
    and daddr :: "'h \<Rightarrow> u16" +
  assumes daddr_store: "daddr (st32 b USB_DADDR_REG (ucast v) h) = v"
    and daddr_flash: "settled (fdev (st32 b USB_DADDR_REG w h)) = settled (fdev h)"
begin

lemma reset_opens:
  fixes s :: "('h, 'm) usb_world_scheme"
  assumes "usb_istr b (hw s) AND USB_ISTR_RESET \<noteq> 0" "d_btable (dev (hw s)) = 0"
  obtains s' where "do_usb_poll cfg b s = Some s'" "ep0_opened (dev (hw s)) (dev (hw s'))" "daddr (hw s') = USB_DADDR_EF"
    "world.more s' = world.more (s\<lparr>usb_pm_top := 0xC0\<rparr>)" "settled (fdev (hw s')) = settled (fdev (hw s))"
proof -
  obtain s' h where s': "do_usb_poll cfg b s = Some s'" "ep0_opened (dev (hw s)) (dev (hw s'))"
    "world.more s' = world.more (s\<lparr>usb_pm_top := 0xC0\<rparr>)" "settled (fdev h) = settled (fdev (hw s))" "hw s' = st32 b USB_DADDR_REG 0x80 h"
    by (rule reset_poll [OF assms])
  then show ?thesis
    using daddr_store [of USB_DADDR_EF h] by (intro that [OF s'(1, 2) _ s'(3)]) (simp_all add: daddr_flash)
qed

lemma address_taken:
  fixes s :: "('h, 'm) usb_world_scheme"
  assumes "ep0_ok (dev (hw s))" "usb_force_nak s \<noteq> []" "n < 128"
  obtains t s' where "usb_run cfg b dev env [SETUP (set_address_request n)] s = Some ([], t)" "daddr (hw t) = daddr (hw s)"
    "usb_run cfg b dev env [IN] t = Some ([[]], s')" "daddr (hw s') = n OR USB_DADDR_EF" "ep0_ok (dev (hw s'))" "kept s s'"
    "usb_force_nak s' \<noteq> []" "length (usbd_control_buffer s') = length (usbd_control_buffer s)"
    "settled (fdev (hw s')) = settled (fdev (hw s))"
proof -
  obtain t where t: "usb_run cfg b dev env [SETUP (set_address_request n)] s = Some ([], t)"
    "chip_at dev daddr USB_EP_RX_STAT_NAK USB_EP_TX_STAT_VALID (daddr (hw s)) (hw t)" "tx_packet (dev (hw t)) = []"
    "usb_fsm_state t = STATUS_IN" "usb_complete_cb t = None" "usb_req t = set_address_request n" "kept s t"
    "usb_force_nak t \<noteq> []" "length (usbd_control_buffer t) = length (usbd_control_buffer s)"
    by (rule addr.address_setup [OF assms])
  obtain t2 where t2: "usb_run cfg b dev env [SETUP (set_address_request n)] s = Some ([], t2)"
    "chip_at dev (flash_seen fdev) USB_EP_RX_STAT_NAK USB_EP_TX_STAT_VALID (settled (fdev (hw s))) (hw t2)"
    by (rule address_setup [OF assms])
  have same: "t2 = t" using t(1) t2(1) by simp
  obtain s' h where s': "usb_run cfg b dev env [IN] t = Some ([[]], s')" "kept t s'" "ep0_ok (dev (hw s'))"
    "daddr h = daddr (hw s)" "daddr (hw s') = daddr (st32 b USB_DADDR_REG (ucast (n OR USB_DADDR_EF)) h)"
    "usb_force_nak s' = usb_force_nak t" "usbd_control_buffer s' = usbd_control_buffer t"
    by (rule addr.address_status [OF t(2-6) assms(3)])
  obtain s2 h2 where s2: "usb_run cfg b dev env [IN] t = Some ([[]], s2)" "settled (fdev h2) = settled (fdev (hw s))"
    "settled (fdev (hw s2)) = settled (fdev (st32 b USB_DADDR_REG (ucast (n OR USB_DADDR_EF)) h2))"
    by (rule address_status [OF t2(2) [unfolded same] t(3-6) assms(3)])
  have "s2 = s'" using s'(1) s2(1) by simp
  then show ?thesis
    using t s' s2 kept_trans [OF t(7) s'(2)]
    by (intro that [OF t(1) _ s'(1)]) (simp_all add: chip_at_def daddr_store daddr_flash)
qed

end

interpretation duo: dfu_function dfu_bus h_usb h_fmc dfu_env h_daddr
proof
  show "token_done dfu_bus h_usb (SETUP r) (dfu_env (SETUP r) h)" if "ep0_ok (h_usb h)" for r and h :: dfu_hw
    using that by (rule duo.setup_taken)
  show "token_done dfu_bus h_usb (OUT p) (dfu_env (OUT p) h) \<and> tx_stat (h_usb (dfu_env (OUT p) h)) = tx_stat (h_usb h)"
    if "ep0_ok (h_usb h)" "rx_stat (h_usb h) = USB_EP_RX_STAT_VALID" "length p \<le> 64" for p and h :: dfu_hw
    using that by (rule duo.out_taken)
  show "token_done dfu_bus h_usb IN (dfu_env IN h) \<and> rx_stat (h_usb (dfu_env IN h)) = rx_stat (h_usb h)"
    if "ep0_ok (h_usb h)" "tx_stat (h_usb h) = USB_EP_TX_STAT_VALID" for h :: dfu_hw
    using that by (rule duo.in_taken)
  show "h_daddr (dfu_env t h) = h_daddr h" for t and h :: dfu_hw by (cases t) simp_all
qed (auto simp: dfu_bus_def case_prod_beta usb_st32_def usb_events)

section \<open>Properties\<close>

text \<open>C16: enumeration. After a bus reset the firmware opens endpoint 0 as a control endpoint with address 0;
  SET_ADDRESS below 128 is acknowledged under the old address, which is replaced when the status
  stage is over; the device is then ready for requests and the flash has not been touched.\<close>

theorem enumeration:
  fixes s :: "('h, 'm) usb_world_scheme"
  assumes "dfu_function b dev fdev env daddr" "usb_istr b (hw s) AND USB_ISTR_RESET \<noteq> 0" "d_btable (dev (hw s)) = 0"
    and "length (usbd_control_buffer s) = DFU_TRANSFER_SIZE" "usb_force_nak s \<noteq> []" "n < 128"
  shows "\<exists>s1 s2 s3. do_usb_poll cfg b s = Some s1 \<and> ep0_opened (dev (hw s)) (dev (hw s1)) \<and> daddr (hw s1) = USB_DADDR_EF \<and>
    usb_run cfg b dev env [SETUP (set_address_request n)] s1 = Some ([], s2) \<and> daddr (hw s2) = USB_DADDR_EF \<and>
    usb_run cfg b dev env [IN] s2 = Some ([[]], s3) \<and> daddr (hw s3) = n OR USB_DADDR_EF \<and>
    usb_idle dev s3 \<and> flash_view fdev s3 = flash_view fdev s"
proof -
  obtain s1 where s1: "do_usb_poll cfg b s = Some s1" "ep0_opened (dev (hw s)) (dev (hw s1))" "daddr (hw s1) = USB_DADDR_EF"
    "world.more s1 = world.more (s\<lparr>usb_pm_top := 0xC0\<rparr>)" "settled (fdev (hw s1)) = settled (fdev (hw s))"
    by (rule dfu_function.reset_opens [OF assms(1-3)])
  note eq1 = usb_fields_eq [OF s1(4)]
  have k1: "kept s s1" unfolding kept_more [OF s1(4)] by (simp add: kept_def)
  have ok: "ep0_ok (dev (hw s1))" "usb_force_nak s1 \<noteq> []" using ep0_opened_ok [OF s1(2)] assms(5) by (simp_all add: eq1)
  obtain s2 s3 where s3: "usb_run cfg b dev env [SETUP (set_address_request n)] s1 = Some ([], s2)" "daddr (hw s2) = daddr (hw s1)"
    "usb_run cfg b dev env [IN] s2 = Some ([[]], s3)" "daddr (hw s3) = n OR USB_DADDR_EF" "ep0_ok (dev (hw s3))" "kept s1 s3"
    "usb_force_nak s3 \<noteq> []" "length (usbd_control_buffer s3) = length (usbd_control_buffer s1)"
    "settled (fdev (hw s3)) = settled (fdev (hw s1))"
    by (rule dfu_function.address_taken [OF assms(1) ok assms(6)])
  have "usb_idle dev s3" using s3 assms(4) by (simp add: usb_idle_def eq1)
  moreover have "flash_view fdev s3 = flash_view fdev s"
    using kept_trans [OF k1 s3(6)] s3(9) s1(5) by (simp add: flash_view_kept)
  ultimately show ?thesis using s1 s3 by auto
qed

text \<open>Address 5, on the chip after a reset of the bus.\<close>

definition duo_reset :: "dfu_hw usb_world" where
  "duo_reset = duo_boot\<lparr>hw := (hw duo_boot)\<lparr>h_istr := USB_ISTR_RESET, h_daddr := 0x8A\<rparr>\<rparr>"

lemma enumeration_witness:
  "\<exists>s1 s2 s3. do_usb_poll (cmake_build False) dfu_bus duo_reset = Some s1 \<and> h_daddr (hw s1) = 0x80 \<and>
    usb_run (cmake_build False) dfu_bus h_usb dfu_env [SETUP (set_address_request 5)] s1 = Some ([], s2) \<and>
    usb_run (cmake_build False) dfu_bus h_usb dfu_env [IN] s2 = Some ([[]], s3) \<and> h_daddr (hw s3) = 0x85 \<and> usb_idle h_usb s3"
proof -
  have "usb_istr dfu_bus (hw duo_reset) AND USB_ISTR_RESET \<noteq> 0" "d_btable (h_usb (hw duo_reset)) = 0"
    "length (usbd_control_buffer duo_reset) = DFU_TRANSFER_SIZE" "usb_force_nak duo_reset \<noteq> []"
    by (simp_all add: dfu_bus_istr duo_reset_def duo_boot_def usb_boot_def usb_dev0_def zeros_def)
  note e = enumeration [OF duo.dfu_function_axioms this, of 5 "cmake_build False"]
  have five: "(5 :: u16) < 128" "(5 :: u16) OR 0x80 = 0x85" by simp_all
  show ?thesis using e [OF five(1), unfolded five(2)] by blast
qed

text \<open>C27: the endpoint of a halt request is not checked. SET_FEATURE(ENDPOINT_HALT) for endpoint 0x13 is
  acknowledged and stores to the address register, the twentieth word from the first endpoint
  register on: the upper three bits of the device address are lost.\<close>

theorem halt_overwrites_address:
  assumes "bRequest (usb_req s) = USB_REQ_SET_FEATURE" "wValue (usb_req s) = USB_FEAT_ENDPOINT_HALT" "wIndex (usb_req s) = 0x13"
  shows "\<exists>v w s1. rd32 b USB_DADDR_REG s = (v, s1) \<and>
    usbd_standard_request_endpoint b s = Some (USBD_REQ_HANDLED, wr32 b USB_DADDR_REG (ucast (w :: u16)) s1) \<and>
    w AND USB_DADDR_ADDR = ucast v AND 0x0F \<and> w AND USB_DADDR_EF \<noteq> 0"
proof -
  define v where "v = fst (rd32 b USB_DADDR_REG s)"
  define s1 where "s1 = snd (rd32 b USB_DADDR_REG s)"
  define w :: u16 where "w = (((ucast v AND USB_EP_RX_STAT_TOG_MSK) XOR USB_EP_RX_STAT_STALL) OR (USB_EP_RX_CTR OR USB_EP_TX_CTR))"
  have reg: "USB_EP_REG 0x13 = USB_DADDR_REG" by (simp add: USB_EP_REG_def)
  have "rd32 b USB_DADDR_REG s = (v, s1)" unfolding v_def s1_def by (rule prod.collapse [symmetric])
  moreover have "usbd_standard_request_endpoint b s = Some (USBD_REQ_HANDLED, wr32 b USB_DADDR_REG (ucast w) s1)"
    using assms
    by (simp add: usbd_standard_request_endpoint_def ep_stall_set_def USB_SET_EP_RX_STAT_def TOG_SET_REG_BIT_MSK_AND_SET_def reg
        UPD_REG_def GET_REG_def SET_REG_def case_prod_beta w_def v_def s1_def Let_def)
  moreover have "w AND USB_DADDR_ADDR = ucast v AND 0x0F"
    unfolding w_def USB_EP_RX_STAT_TOG_MSK_def USB_EP_NTOGGLE_MSK_def by (rule word16_eqI) (auto simp: bit_simps)
  moreover have "w AND USB_DADDR_EF = USB_DADDR_EF"
    unfolding w_def USB_EP_RX_STAT_TOG_MSK_def USB_EP_NTOGGLE_MSK_def by (rule word16_eqI) (auto simp: bit_simps)
  then have "w AND USB_DADDR_EF \<noteq> 0" by simp
  ultimately show ?thesis by blast
qed

text \<open>The device with address 0x45 has address 5 afterwards.\<close>

lemma halt_overwrites_address_witness:
  "\<exists>s'. usbd_standard_request_endpoint dfu_bus (duo_boot\<lparr>hw := (hw duo_boot)\<lparr>h_daddr := 0xC5\<rparr>, usb_req :=
      \<lparr>bmRequestType = 2, bRequest = USB_REQ_SET_FEATURE, wValue = USB_FEAT_ENDPOINT_HALT, wIndex = 0x13, wLength = 0\<rparr>\<rparr>) =
        Some (USBD_REQ_HANDLED, s') \<and> h_daddr (hw s') AND USB_DADDR_ADDR = 5"
proof -
  let ?s = "duo_boot\<lparr>hw := (hw duo_boot)\<lparr>h_daddr := 0xC5\<rparr>, usb_req :=
      \<lparr>bmRequestType = 2, bRequest = USB_REQ_SET_FEATURE, wValue = USB_FEAT_ENDPOINT_HALT, wIndex = 0x13, wLength = 0\<rparr>\<rparr>"
  have "bRequest (usb_req ?s) = USB_REQ_SET_FEATURE" "wValue (usb_req ?s) = USB_FEAT_ENDPOINT_HALT" "wIndex (usb_req ?s) = 0x13"
    by simp_all
  from halt_overwrites_address [OF this, of dfu_bus]
  obtain v w s1 where r: "rd32 dfu_bus USB_DADDR_REG ?s = (v, s1)"
    "usbd_standard_request_endpoint dfu_bus ?s = Some (USBD_REQ_HANDLED, wr32 dfu_bus USB_DADDR_REG (ucast (w :: u16)) s1)"
    "w AND USB_DADDR_ADDR = ucast v AND 0x0F" by blast
  have "v = 0xC5" "h_daddr (hw (wr32 dfu_bus USB_DADDR_REG (ucast w) s1)) = w"
    using r(1) by (auto simp: rd32_def dfu_bus_def case_prod_beta)
  then show ?thesis using r(2, 3) by (intro exI [of _ "wr32 dfu_bus USB_DADDR_REG (ucast w) s1"]) simp
qed

end
