(* ===== verification/FirmwareUpdate.thy ===== *)
theory FirmwareUpdate
  imports Stage1 UsbEnum
begin

text \<open>
  Both stages together: an image downloaded over the bus by the second stage is the one the first stage
  starts after the reset.
\<close>

section \<open>Images\<close>

text \<open>An image that the first stage accepts, judged by its own bytes: it has its header, and all the bytes
  its checksum covers.\<close>

definition image_memory :: "u8 list \<Rightarrow> u32 \<Rightarrow> u8" where
  "image_memory img = put_bytes (\<lambda>_. 0xFF) APP_ADDRESS img"

definition image_intact :: "u8 list \<Rightarrow> bool" where
  "image_intact img \<longleftrightarrow>
     16 \<le> length img \<and> image_ok (image_memory img) \<and>
     (word_at (image_memory img) (APP_ADDRESS + 8) = 0x1234 \<and> word_at (image_memory img) (APP_ADDRESS + 12) = 0x5678 \<or>
      16 + unat (word_at (image_memory img) (APP_ADDRESS + 8)) \<le> length img)"

text \<open>Memories that agree on the bytes of the image.\<close>

definition holds_image :: "(u32 \<Rightarrow> u8) \<Rightarrow> u8 list \<Rightarrow> bool" where
  "holds_image m img \<longleftrightarrow> (\<forall>k<length img. m (APP_ADDRESS + of_nat k) = img ! k)"

lemma image_memory_holds: "length img < 2 ^ 32 \<Longrightarrow> holds_image (image_memory img) img"
  by (simp add: holds_image_def image_memory_def put_bytes_def unsigned_of_nat take_bit_nat_eq_self)

lemma holds_image_word:
  assumes "holds_image m img" "holds_image m' img" "k + 4 \<le> length img"
  shows "word_at m (APP_ADDRESS + of_nat k) = word_at m' (APP_ADDRESS + of_nat k)"
proof -
  have "m (APP_ADDRESS + of_nat j) = m' (APP_ADDRESS + of_nat j)" if "j < length img" for j
    using assms(1, 2) that by (simp add: holds_image_def)
  from this [of k] this [of "k + 1"] this [of "k + 2"] this [of "k + 3"] show ?thesis
    using assms(3) by (simp add: word_at_def add.assoc)
qed

lemma holds_image_words:
  assumes "holds_image m img" "holds_image m' img" "16 + 4 * n \<le> length img"
  shows "words_at m (APP_ADDRESS + 16) n = words_at m' (APP_ADDRESS + 16) n"
proof -
  have "word_at m (APP_ADDRESS + 16 + 4 * of_nat i) = word_at m' (APP_ADDRESS + 16 + 4 * of_nat i)" if "i < n" for i
    using holds_image_word [OF assms(1, 2), of "16 + 4 * i"] assms(3) that by (simp add: add.assoc)
  then show ?thesis by (simp add: words_at_def)
qed

lemma intact_ok:
  assumes "image_intact img" "holds_image m img" "length img < 2 ^ 32"
  shows "image_ok m" "vectors m APP_ADDRESS = vectors (image_memory img) APP_ADDRESS"
proof -
  let ?m = "image_memory img"
  note same = holds_image_word [OF assms(2) image_memory_holds [OF assms(3)]]
  have len: "16 \<le> length img" using assms(1) by (simp add: image_intact_def)
  have w: "word_at m APP_ADDRESS = word_at ?m APP_ADDRESS" "word_at m (APP_ADDRESS + 4) = word_at ?m (APP_ADDRESS + 4)"
    "word_at m (APP_ADDRESS + 8) = word_at ?m (APP_ADDRESS + 8)" "word_at m (APP_ADDRESS + 12) = word_at ?m (APP_ADDRESS + 12)"
    using same [of 0] same [of 4] same [of 8] same [of 12] len by simp_all
  then show "vectors m APP_ADDRESS = vectors ?m APP_ADDRESS" by (simp add: vectors_def)
  let ?n = "unat (word_at ?m (APP_ADDRESS + 8)) div 4"
  show "image_ok m"
  proof (cases "word_at ?m (APP_ADDRESS + 8) = 0x1234 \<and> word_at ?m (APP_ADDRESS + 12) = 0x5678")
    case True
    then show ?thesis using assms(1) w by (simp add: image_intact_def image_ok_def Let_def)
  next
    case False
    then have "16 + 4 * ?n \<le> length img" using assms(1) by (auto simp: image_intact_def)
    from holds_image_words [OF assms(2) image_memory_holds [OF assms(3)] this] show ?thesis
      using assms(1) w by (simp add: image_intact_def image_ok_def Let_def)
  qed
qed

lemma clear_marker_vectors: "vectors (clear_marker m) APP_ADDRESS = vectors m APP_ADDRESS"
  by (simp add: vectors_def clear_marker_def word_at_other)

text \<open>The first stage on a memory that holds an intact image.\<close>

lemma starts_image:
  assumes "soc b mem crc crc_on istat M W" "span 0x8002000 0x40010 \<subseteq> M"
    and "span RAM_START_ADDR (max 8 (length payload)) \<subseteq> W" "length payload < 2 ^ 32"
    and "bit istat 14" "\<not> marker_set (mem (hw t))" "image_intact img" "holds_image (mem (hw t)) img" "length img < 2 ^ 32"
  shows "\<exists>t'. stage1_main speed0 value0 payload b t = Some (vectors (image_memory img) APP_ADDRESS, t') \<and>
    mem (hw t') = clear_marker (mem (hw t))"
proof -
  have "boots_app istat (mem (hw t))" using assms(5, 6) intact_ok(1) [OF assms(7-9)] by (simp add: boots_app_def)
  then show ?thesis
    using soc.main_decides [OF assms(1-4), of speed0 value0 t] clear_marker_vectors [of "mem (hw t)"] intact_ok(2) [OF assms(7-9)]
    by simp
qed

section \<open>Properties\<close>

text \<open>C2: an update boots. When the host downloads an intact image to the application's address, the session
  ends with the device about to reset, and whatever hardware state the first stage then finds, if its
  memory shows the flash at the addresses of the image, no reboot into the boot loader was asked for
  and the button is released, the first stage starts the downloaded image, from the image's vectors.\<close>

theorem update_boots:
  assumes "usb_host b dev fdev env" "usb_idle dev s" "flash_settled fdev s"
    and "image_intact img" "even (length img)" "unat APP_ADDRESS + length img \<le> unat (flash_app_end s)"
    and "soc b1 mem crc crc_on istat M W" "span 0x8002000 0x40010 \<subseteq> M"
    and "span RAM_START_ADDR (max 8 (length payload)) \<subseteq> W" "length payload < 2 ^ 32" "bit istat 14"
  shows "\<exists>s'. host_session (usb_block cfg b dev env) APP_ADDRESS img s = Some s' \<and> usbdfu_state s' = STATE_DFU_MANIFEST \<and>
    (\<forall>t. \<not> marker_set (mem (hw t)) \<and>
         (\<forall>k<length img. mem (hw t) (APP_ADDRESS + of_nat k) = cells (fdev (hw s')) (APP_ADDRESS + of_nat k)) \<longrightarrow>
       (\<exists>t'. stage1_main speed0 value0 payload b1 t = Some (vectors (image_memory img) APP_ADDRESS, t') \<and>
          mem (hw t') = clear_marker (mem (hw t))))"
proof -
  have page: "unat (d_page (fdev (hw s))) dvd unat APP_ADDRESS"
    using assms(3) by (auto simp: flash_settled_def geometry_def)
  have img: "img \<noteq> []" "length img < 2 ^ 32"
    using assms(4, 6) unsigned_less [of "flash_app_end s", where ?'a = nat] by (auto simp: image_intact_def)
  have addr: "0x8002000 \<le> unat APP_ADDRESS" by simp
  obtain s' where s': "host_session (usb_block cfg b dev env) APP_ADDRESS img s = Some s'" "usbdfu_state s' = STATE_DFU_MANIFEST"
    "cells (fdev (hw s')) = flashed cfg (fdev (hw s)) s APP_ADDRESS img"
    using block_host.session_done [OF usb_host.block_host_usb [OF assms(1)] assms(2, 3) img(1) assms(5) page addr assms(6)] by blast
  have "holds_image (cells (fdev (hw s'))) img"
  proof -
    have "unat (APP_ADDRESS + of_nat k) = unat APP_ADDRESS + k" if "k < length img" for k
    proof -
      have "unat APP_ADDRESS + k < 2 ^ 32" using that assms(6) unsigned_less [of "flash_app_end s", where ?'a = nat] by simp
      then show ?thesis by (simp add: unat_word_ariths unsigned_of_nat take_bit_nat_eq_self)
    qed
    then show ?thesis by (simp add: holds_image_def s'(3) flashed_def)
  qed
  then have "holds_image (mem (hw t)) img"
    if "\<forall>k<length img. mem (hw t) (APP_ADDRESS + of_nat k) = cells (fdev (hw s')) (APP_ADDRESS + of_nat k)" for t
    using that by (simp add: holds_image_def)
  then show ?thesis
    using s'(1, 2) starts_image [OF assms(7-11) _ assms(4) _ img(2)] by blast
qed

text \<open>A header without checksum, downloaded and started.\<close>

definition tiny_image :: "u8 list" where
  "tiny_image = [0x00, 0x50, 0x00, 0x20, 0x01, 0x21, 0x00, 0x08, 0x34, 0x12, 0, 0, 0x78, 0x56, 0, 0]"

lemma update_boots_witness:
  "\<exists>s'. host_session (usb_block (cmake_build False) dfu_bus h_usb dfu_env) APP_ADDRESS tiny_image duo_boot = Some s' \<and>
    (\<exists>t'. stage1_main 0 0 [1, 2, 3, 4, 5, 6, 7, 8] (soc_bus 0x4000)
        (stage1_demo (\<lambda>x. if x \<in> soc_ram then 0 else cells (h_fmc (hw s')) x)) =
      Some (\<lparr>msp = 0x20005000, psp = 0x20005000, pc = 0x8002101\<rparr>, t'))"
proof -
  let ?p = "[1, 2, 3, 4, 5, 6, 7, 8] :: u8 list" and ?m = "\<lambda>s' x. if x \<in> soc_ram then 0 else cells (h_fmc (hw s')) x"
  have words: "word_at (image_memory tiny_image) 0x8002000 = 0x20005000" "word_at (image_memory tiny_image) 0x8002004 = 0x8002101"
    "word_at (image_memory tiny_image) 0x8002008 = 0x1234" "word_at (image_memory tiny_image) 0x800200C = 0x5678"
    by (simp_all add: image_memory_def tiny_image_def word_at_def put_bytes_def mk32_def)
  then have intact: "image_intact tiny_image"
    by (simp add: image_intact_def image_ok_def Let_def drop_bit_eq_div) (simp add: tiny_image_def)
  have len: "length tiny_image = 16" by (simp add: tiny_image_def)
  have ends: "even (length tiny_image)" "unat APP_ADDRESS + length tiny_image \<le> unat (flash_app_end duo_boot)"
    unfolding len duo_boot_ready(3) by simp_all
  have W: "span RAM_START_ADDR (max 8 (length ?p)) \<subseteq> soc_ram" "length ?p < 2 ^ 32"
  proof -
    have "length ?p = 8" by simp
    then show "span RAM_START_ADDR (max 8 (length ?p)) \<subseteq> soc_ram" "length ?p < 2 ^ 32"
      using soc_spans(2) [of 8] by (simp_all only: max.idem) simp_all
  qed
  have "bit (0x4000 :: u32) 14" by (simp add: bit_simps)
  from update_boots [OF duo.usb_host_axioms duo_boot_ready(1, 2) intact ends soc0.soc_axioms soc_spans(1) W this]
  obtain s' where s': "host_session (usb_block (cmake_build False) dfu_bus h_usb dfu_env) APP_ADDRESS tiny_image duo_boot = Some s'"
    "\<forall>t :: soc_dev stage1_world. \<not> marker_set (sd_mem (hw t)) \<and>
         (\<forall>k<length tiny_image. sd_mem (hw t) (APP_ADDRESS + of_nat k) = cells (h_fmc (hw s')) (APP_ADDRESS + of_nat k)) \<longrightarrow>
       (\<exists>t'. stage1_main 0 0 ?p (soc_bus 0x4000) t = Some (vectors (image_memory tiny_image) APP_ADDRESS, t') \<and>
          sd_mem (hw t') = clear_marker (sd_mem (hw t)))"
    by blast
  have flash: "APP_ADDRESS + of_nat k \<notin> soc_ram" if "k < 16" for k
  proof -
    have "unat (0x8002000 + of_nat k :: u32) = 0x8002000 + k"
      using that by (simp add: unat_word_ariths unsigned_of_nat take_bit_nat_eq_self)
    then show ?thesis using that by (simp add: soc_ram_def word_le_nat_alt)
  qed
  have "\<not> marker_set (sd_mem (hw (stage1_demo (?m s'))))"
    by (simp add: stage1_demo_def marker_set_def word_at_def soc_ram_def mk32_def)
  moreover have "sd_mem (hw (stage1_demo (?m s'))) (APP_ADDRESS + of_nat k) = cells (h_fmc (hw s')) (APP_ADDRESS + of_nat k)"
    if "k < length tiny_image" for k
    using flash [of k] that unfolding len by (simp add: stage1_demo_def)
  ultimately show ?thesis
    using s' words by (intro exI [of _ s']) (auto simp: vectors_def)
qed

end
