(* ===== verification/DfuUpload.thy ===== *)
theory DfuUpload
  imports DfuUsb
begin

text \<open>
  Reading back over the bus: the data stage of an UPLOAD on the chip, IN transaction by IN transaction, and
  the round trip of a download and an upload.
\<close>

section \<open>The data stage of a read\<close>

context usb_chip begin

lemma chip_send_chunk:
  assumes "chip_at dev obs rx tx D (hw s)" "tx \<noteq> USB_EP_TX_STAT_VALID"
  shows "chip_at dev obs rx USB_EP_TX_STAT_VALID D (hw (usb_control_send_chunk b s))"
  using chip_write_packet(1) [OF assms, of 64] chip_write_packet(1) [OF assms, of "datasize s"]
  by (simp add: usb_control_send_chunk_def case_prod_beta word_less_nat_alt Let_def)

lemma poll_data_in:
  fixes t :: "('h, 'm) usb_world_scheme"
  assumes "token_done b dev IN (hw t)" "usb_fsm_state t = DATA_IN"
  obtains s1 t' where "world.more s1 = world.more t"
    "chip_at dev obs (rx_stat (dev (hw t))) USB_EP_TX_STAT_NAK (obs (hw t)) (hw s1)"
    "do_usb_poll cfg b t = Some t'" "same_chip dev obs (usb_control_send_chunk b s1) t'"
proof -
  obtain s1 where s1: "world.more s1 = world.more t"
    "chip_at dev obs (rx_stat (dev (hw t))) USB_EP_TX_STAT_NAK (obs (hw t)) (hw s1)"
    "\<And>u. usbd_control_in cfg b s1 = Some u \<Longrightarrow> \<exists>s'. do_usb_poll cfg b t = Some s' \<and> same_chip dev obs u s'"
    by (rule poll_in [OF assms(1), where cfg = cfg]) blast
  have "usbd_control_in cfg b s1 = Some (usb_control_send_chunk b s1)"
    using assms(2) by (simp add: usbd_control_in_def usb_fields_eq [OF s1(1)])
  then show ?thesis using s1 by (auto intro: that)
qed

end

lemma send_chunk_fields:
  "kept s (usb_control_send_chunk b s)" "usbdfu_state (usb_control_send_chunk b s) = usbdfu_state s"
  "usb_complete_cb (usb_control_send_chunk b s) = usb_complete_cb s"
  "usb_force_nak (usb_control_send_chunk b s) = usb_force_nak s"
  "usbd_control_buffer (usb_control_send_chunk b s) = usbd_control_buffer s"
  "ctl_byte (usb_control_send_chunk b s) = ctl_byte s"
  by (simp_all add: usb_control_send_chunk_def case_prod_beta Let_def usb_fields_eq [OF more_write_packet]
      kept_more [OF more_write_packet] ctl_byte_eq [OF more_write_packet])

text \<open>What the data stage leaves alone.\<close>

definition read_kept :: "('h, 'm) usb_world_scheme \<Rightarrow> ('h, 'm) usb_world_scheme \<Rightarrow> bool" where
  "read_kept s t \<longleftrightarrow> kept s t \<and> usbdfu_state t = usbdfu_state s \<and> usb_complete_cb t = usb_complete_cb s \<and>
     usb_force_nak t = (usb_force_nak s)[0 := 0] \<and> usbd_control_buffer t = usbd_control_buffer s"

context usb_env begin

lemma ins_run:
  fixes s t :: "('h, 'm) usb_world_scheme"
  assumes "chip_at dev obs rx tx D (hw s)" "tx \<noteq> USB_EP_TX_STAT_VALID"
    and "unat (dataoff s) + unat (datasize s) < 2 ^ 16" "same_chip dev obs (usb_control_send_chunk b s) t"
  shows "\<exists>t'. usb_run cfg b dev env (replicate (length (in_todo s)) IN) t = Some (in_todo s, t') \<and>
    usb_fsm_state t' = STATUS_OUT \<and> chip_at dev obs USB_EP_RX_STAT_VALID USB_EP_TX_STAT_NAK D (hw t') \<and> read_kept s t'"
  using assms
proof (induction "unat (datasize s) + (if usb_needs_zlp s = 0 then 0 else 1)" arbitrary: s t rx tx rule: less_induct)
  case less
  let ?c = "usb_control_send_chunk b s"
  have "tx_ready (dev (hw s))" using less.prems(1, 2) by (simp add: chip_at_def ep0_ok_def tx_ready_def tx_stat_def)
  note chunk = send_chunk_dev [OF this less.prems(3)]
  have m: "world.more t = world.more ?c" and d: "dev (hw t) = dev (hw ?c)" using less.prems(4) by (simp_all add: same_chip_def)
  note eq = usb_fields_eq [OF m]
  have at: "chip_at dev obs rx USB_EP_TX_STAT_VALID D (hw t)"
    using chip_send_chunk [OF less.prems(1, 2)] by (simp add: same_chip_at [OF less.prems(4)])
  let ?t = "t\<lparr>hw := env IN (hw t)\<rparr>"
  have e: "token_done b dev IN (hw ?t)" "obs (hw ?t) = D"
    using in_taken [of "hw t"] at by (simp_all add: chip_at_def env_obs)
  have kept_t: "kept s t" using send_chunk_fields(1) [of s b] by (simp add: kept_more [OF m])
  show ?case
  proof (cases "usb_fsm_state ?c = LAST_DATA_IN")
    case True
    then have todo: "in_todo s = [tx_packet (dev (hw t))]"
      using chunk d by (cases "64 < unat (datasize s)"; cases "usb_needs_zlp s = 0") auto
    have "usb_fsm_state ?t = LAST_DATA_IN" using True by (simp add: eq)
    then obtain t' where t': "do_usb_poll cfg b ?t = Some t'"
      "world.more t' = world.more (?t\<lparr>usb_fsm_state := STATUS_OUT, usb_force_nak := (usb_force_nak ?t)[0 := 0]\<rparr>)"
      "chip_at dev obs USB_EP_RX_STAT_VALID USB_EP_TX_STAT_NAK (obs (hw ?t)) (hw t')"
      by (rule poll_last_data_in [OF e(1), where cfg = cfg])
    note eq' = usb_fields_eq [OF t'(2)]
    have "read_kept s t'"
      using kept_t by (simp add: read_kept_def kept_more [OF t'(2)] eq' eq send_chunk_fields)
    then show ?thesis using t' e(2) by (simp add: todo eq')
  next
    case False
    then have st: "usb_fsm_state ?c = DATA_IN" and todo: "in_todo s = tx_packet (dev (hw t)) # in_todo ?c"
      and bound: "unat (dataoff ?c) + unat (datasize ?c) < 2 ^ 16"
      using chunk d by (cases "64 < unat (datasize s)"; cases "usb_needs_zlp s = 0"; auto)+
    have dec: "unat (datasize ?c) + (if usb_needs_zlp ?c = 0 then 0 else 1)
        < unat (datasize s) + (if usb_needs_zlp s = 0 then 0 else 1)"
      using False chunk send_chunk_left [of s] by (cases "64 < unat (datasize s)"; cases "usb_needs_zlp s = 0") auto
    have "usb_fsm_state ?t = DATA_IN" using st by (simp add: eq)
    then obtain s1 t1 where s1: "world.more s1 = world.more ?t"
      "chip_at dev obs (rx_stat (dev (hw ?t))) USB_EP_TX_STAT_NAK (obs (hw ?t)) (hw s1)"
      and t1: "do_usb_poll cfg b ?t = Some t1" "same_chip dev obs (usb_control_send_chunk b s1) t1"
      by (rule poll_data_in [OF e(1), where cfg = cfg])
    have m1: "world.more s1 = world.more ?c" using s1(1) m by simp
    note eq1 = usb_fields_eq [OF m1]
    have todo1: "in_todo s1 = in_todo ?c" by (simp add: in_todo_def eq1 ctl_byte_eq [OF m1])
    have "\<exists>t'. usb_run cfg b dev env (replicate (length (in_todo s1)) IN) t1 = Some (in_todo s1, t') \<and>
      usb_fsm_state t' = STATUS_OUT \<and> chip_at dev obs USB_EP_RX_STAT_VALID USB_EP_TX_STAT_NAK D (hw t') \<and> read_kept s1 t'"
      using less.hyps [of s1 "rx_stat (dev (hw ?t))" USB_EP_TX_STAT_NAK t1] dec bound s1(2) t1(2) e(2) by (simp add: eq1)
    then obtain t' where t': "usb_run cfg b dev env (replicate (length (in_todo s1)) IN) t1 = Some (in_todo s1, t')"
      "usb_fsm_state t' = STATUS_OUT" "chip_at dev obs USB_EP_RX_STAT_VALID USB_EP_TX_STAT_NAK D (hw t')" "read_kept s1 t'"
      by blast
    have "kept s s1" using send_chunk_fields(1) [of s b] by (simp add: kept_more [OF m1])
    then have "kept s t'" using t'(4) by (auto simp: read_kept_def intro: kept_trans)
    then have "read_kept s t'" using t'(4) by (simp add: read_kept_def eq1 send_chunk_fields)
    then show ?thesis using t'(1-3) t1(1) by (auto simp: todo todo1)
  qed
qed

end

section \<open>UPLOAD\<close>

definition upload_request :: "u16 \<Rightarrow> usb_setup_data" where
  "upload_request k = \<lparr>bmRequestType = 0xA1, bRequest = 2, wValue = k, wIndex = 0, wLength = of_nat DFU_TRANSFER_SIZE\<rparr>"

text \<open>The host asks for the 64 packets of a block, and acknowledges.\<close>

definition upload_tokens :: "u16 \<Rightarrow> usb_token list" where
  "upload_tokens k = SETUP (upload_request k) # replicate 64 IN @ [OUT []]"

definition usb_upload :: "build \<Rightarrow> 'h bus \<Rightarrow> ('h \<Rightarrow> usb_dev) \<Rightarrow> (usb_token \<Rightarrow> 'h \<Rightarrow> 'h) \<Rightarrow> u16 \<Rightarrow>
    ('h, 'm) usb_world_scheme \<Rightarrow> (u8 list \<times> ('h, 'm) usb_world_scheme) option" where
  "usb_upload cfg b dev env k s = do {
     (ps, s') \<leftarrow> usb_run cfg b dev env (upload_tokens k) s;
     Some (concat ps, s')
   }"

lemma length_in_packets: "bs \<noteq> [] \<Longrightarrow> length (in_packets bs False) = (length bs + 63) div 64"
proof (induction bs "False" rule: in_packets.induct)
  case (1 bs)
  show ?case
  proof (cases "64 < length bs")
    case True
    then have "length (in_packets (drop 64 bs) False) = (length bs - 64 + 63) div 64" using 1 by simp
    moreover have "(length bs + 63) div 64 = Suc ((length bs - 64 + 63) div 64)" using True by linarith
    ultimately show ?thesis using True by (subst in_packets.simps) simp
  next
    case False
    moreover have "0 < length bs" using 1(2) by simp
    ultimately have "(length bs + 63) div 64 = 1" by linarith
    then show ?thesis using False by (subst in_packets.simps) simp
  qed
qed

lemma upload_chunk:
  fixes s :: "('h, 'm) usb_world_scheme"
  assumes "usb_req s = upload_request k"
    and "dfu_upload cfg b (upload_request k) (s\<lparr>dataoff := 0\<rparr>) = (of_nat DFU_TRANSFER_SIZE, u)"
  shows "usb_control_setup_read cfg b s =
    Some (usb_control_send_chunk b (u\<lparr>datasize := of_nat DFU_TRANSFER_SIZE, usb_needs_zlp := 0\<rparr>))"
proof -
  have "class_request (upload_request k)" "dfu_req_of (bRequest (upload_request k)) = Some DFU_UPLOAD"
    "wLength (upload_request k) = 4096"
    by (simp_all add: class_request_def upload_request_def dfu_req_of_def)
  then show ?thesis using assms
    by (simp add: usb_control_setup_read_def usb_control_request_dispatch_def usbdfu_control_request_def Let_def
        ret_true_def needs_zlp_def)
qed

context dfu_chip begin

lemma read_usb: "dev (hw (snd (read_bytes b a n s))) = dev (hw s)"
  by (induction n arbitrary: a s) (simp_all add: case_prod_beta loads_usb)

lemma upload_usb: "dev (hw (snd (dfu_upload cfg b req s))) = dev (hw s)"
  by (simp add: dfu_upload_def case_prod_beta Let_def set_ctl_def read_usb)

end

context usb_host begin

lemma upload_run:
  fixes s :: "('h, 'm) usb_world_scheme"
  assumes "usb_idle dev s" "length blk = DFU_TRANSFER_SIZE"
    and up: "\<And>t :: ('h, 'm) usb_world_scheme. flash_view fdev t = flash_view fdev s \<Longrightarrow>
      \<exists>t'. dfu_upload cfg b (upload_request k) t = (of_nat DFU_TRANSFER_SIZE, t') \<and>
        settled (fdev (hw t')) = settled (fdev (hw t)) \<and> dev (hw t') = dev (hw t) \<and>
        world.more t' = world.more (t\<lparr>usbdfu_state := STATE_DFU_UPLOAD_IDLE, usbd_control_buffer := blk\<rparr>)"
  shows "\<exists>s'. usb_upload cfg b dev env k s = Some (blk, s') \<and> usb_idle dev s' \<and> flash_view fdev s' = flash_view fdev s \<and>
    usbdfu_state s' = STATE_DFU_UPLOAD_IDLE"
proof -
  let ?D = "settled (fdev (hw s))" and ?r = "upload_request k"
  let ?s = "s\<lparr>hw := env (SETUP ?r) (hw s)\<rparr>"
  have e: "token_done b dev (SETUP ?r) (hw ?s)" "settled (fdev (hw ?s)) = ?D" "usb_force_nak ?s \<noteq> []"
    using setup_taken [of "hw s" ?r] assms(1) by (simp_all add: usb_idle_def env_obs)
  have dir: "(wLength ?r = 0 \<or> bmRequestType ?r AND 0x80 \<noteq> 0) = True" by (simp add: upload_request_def)
  obtain s3 where s3: "\<And>u. usb_control_setup_read cfg b s3 = Some u \<Longrightarrow>
      \<exists>s'. do_usb_poll cfg b ?s = Some s' \<and> same_chip dev (flash_seen fdev) u s'"
    "world.more s3 = world.more (?s\<lparr>usb_complete_cb := None, usb_force_nak := (usb_force_nak ?s)[0 := 1], usb_req := ?r\<rparr>)"
    "chip_at dev (flash_seen fdev) USB_EP_RX_STAT_NAK USB_EP_TX_STAT_NAK (settled (fdev (hw ?s))) (hw s3)"
    by (rule poll_setup [OF e(1, 3), where cfg = cfg, unfolded dir if_True]) blast
  note eq3 = usb_fields_eq [OF s3(2)]
  have view3: "flash_view fdev (s3\<lparr>dataoff := 0\<rparr>) = flash_view fdev s"
    using s3(3) e(2) by (simp add: flash_view_kept kept_more [OF s3(2)] chip_at_def)
  obtain u where u: "dfu_upload cfg b ?r (s3\<lparr>dataoff := 0\<rparr>) = (of_nat DFU_TRANSFER_SIZE, u)"
    "settled (fdev (hw u)) = settled (fdev (hw s3))" "dev (hw u) = dev (hw s3)"
    "world.more u = world.more (s3\<lparr>dataoff := 0, usbdfu_state := STATE_DFU_UPLOAD_IDLE, usbd_control_buffer := blk\<rparr>)"
    using up [OF view3] by auto
  note equ = usb_fields_eq [OF u(4)]
  let ?u = "u\<lparr>datasize := of_nat DFU_TRANSFER_SIZE, usb_needs_zlp := 0\<rparr>"
  have "usb_control_setup_read cfg b s3 = Some (usb_control_send_chunk b ?u)"
    by (rule upload_chunk [OF _ u(1)]) (simp add: eq3)
  then obtain t where t: "do_usb_poll cfg b ?s = Some t" "same_chip dev (flash_seen fdev) (usb_control_send_chunk b ?u) t"
    using s3(1) by blast
  have at: "chip_at dev (flash_seen fdev) USB_EP_RX_STAT_NAK USB_EP_TX_STAT_NAK ?D (hw ?u)"
    using s3(3) e(2) u(2, 3) by (simp add: chip_at_def)
  have "map (ctl_byte u) [0..<DFU_TRANSFER_SIZE] = blk"
    using assms(2) by (intro nth_equalityI) (simp_all add: ctl_byte_def equ)
  then have todo: "in_todo ?u = in_packets blk False" by (simp add: in_todo_def equ)
  then have n: "length (in_todo ?u) = 64" using length_in_packets [of blk] assms(2) by fastforce
  obtain t' where t': "usb_run cfg b dev env (replicate 64 IN) t = Some (in_todo ?u, t')" "usb_fsm_state t' = STATUS_OUT"
    "chip_at dev (flash_seen fdev) USB_EP_RX_STAT_VALID USB_EP_TX_STAT_NAK ?D (hw t')" "read_kept ?u t'"
    using ins_run [OF at _ _ t(2), of cfg] n by (auto simp: equ)
  note k = t'(4) [unfolded read_kept_def]
  let ?t = "t'\<lparr>hw := env (OUT []) (hw t')\<rparr>"
  have e': "token_done b dev (OUT []) (hw ?t)" "tx_stat (dev (hw ?t)) = USB_EP_TX_STAT_NAK" "settled (fdev (hw ?t)) = ?D"
    using out_taken [of "hw t'" "[]"] t'(3) by (simp_all add: chip_at_def env_obs)
  have nak: "usb_force_nak ?t ! 0 = 0" "usb_force_nak t' \<noteq> []" using k e(3) by (simp_all add: equ eq3)
  obtain v where v: "world.more v = world.more (?t\<lparr>usb_fsm_state := IDLE\<rparr>)"
    "chip_at dev (flash_seen fdev) USB_EP_RX_STAT_VALID (tx_stat (dev (hw ?t))) (settled (fdev (hw ?t))) (hw v)"
    "\<And>w. run_complete_cb cfg b v = Some w \<Longrightarrow>
      \<exists>s'. do_usb_poll cfg b ?t = Some s' \<and> same_chip dev (flash_seen fdev) (w\<lparr>usb_complete_cb := None\<rparr>) s'"
    by (rule poll_status_out [OF e'(1) _ nak(1), where cfg = cfg]) (use t'(2) in simp_all)
  note eqv = usb_fields_eq [OF v(1)]
  have "run_complete_cb cfg b v = Some v" using k by (simp add: run_complete_cb_def eqv equ eq3)
  then obtain s' where s': "do_usb_poll cfg b ?t = Some s'" "same_chip dev (flash_seen fdev) (v\<lparr>usb_complete_cb := None\<rparr>) s'"
    using v(3) by blast
  have m: "world.more s' = world.more (v\<lparr>usb_complete_cb := None\<rparr>)" using s'(2) by (simp add: same_chip_def)
  note eq = usb_fields_eq [OF m]
  have "usb_run cfg b dev env (upload_tokens k) s = Some (in_todo ?u, s')"
    using t(1) t'(1) s'(1) unfolding upload_tokens_def by (simp add: usb_run_append)
  moreover have "concat (in_todo ?u) = blk" unfolding todo by (rule concat_in_packets)
  ultimately have "usb_upload cfg b dev env k s = Some (blk, s')" by (simp add: usb_upload_def)
  moreover have "usb_idle dev s'"
    using s'(2) v(2) k nak(2) assms(2) by (simp add: usb_idle_def eq eqv equ same_chip_def chip_at_def)
  moreover have "flash_view fdev s' = flash_view fdev s"
  proof -
    have "kept s u" using view3 by (simp add: flash_view_kept kept_more [OF u(4)])
    moreover have "kept u ?u" by simp
    ultimately have "kept s t'" using k by (meson kept_trans)
    then have "kept s s'" by (simp add: kept_more [OF m] kept_more [OF v(1)])
    then show ?thesis using s'(2) v(2) e'(3) by (simp add: flash_view_kept same_chip_def chip_at_def)
  qed
  moreover have "usbdfu_state s' = STATE_DFU_UPLOAD_IDLE" using k by (simp add: eq eqv equ)
  ultimately show ?thesis by blast
qed

end

section \<open>Properties\<close>

text \<open>C6: what a host has downloaded over the bus it can read back over the bus: after the address command
  and the blocks of the image, UPLOAD of block \<open>j + 2\<close>, a SETUP and 64 IN transactions, answers with the
  \<open>j\<close>-th full block of the image; the flash is as before, and the device ready for the next request.\<close>

theorem upload_over_usb:
  assumes "usb_host b dev fdev env" "fmc_readable b fdev" "usb_idle dev s" "flash_settled fdev s" "even (length img)"
    and "ENABLE_DFU_UPLOAD cfg" "unat (d_page (fdev (hw s))) dvd unat a" "0x8002000 \<le> unat a"
    and "unat a + length img \<le> unat (flash_app_end s)" "DFU_TRANSFER_SIZE * Suc j \<le> length img"
  shows "\<exists>s1 s2 s3. usb_block cfg b dev env 0 (set_address a) s = Some s1 \<and>
    host_download (usb_block cfg b dev env) 2 (chunks img) s1 = Some s2 \<and>
    usb_upload cfg b dev env (2 + of_nat j) s2 = Some (take DFU_TRANSFER_SIZE (drop (DFU_TRANSFER_SIZE * j) img), s3) \<and>
    settled (fdev (hw s3)) = settled (fdev (hw s2)) \<and> usb_idle dev s3"
proof -
  let ?blk = "take DFU_TRANSFER_SIZE (drop (DFU_TRANSFER_SIZE * j) img)"
  have chip: "dfu_chip b dev fdev" using assms(1) by (simp add: usb_host_def)
  have "img \<noteq> []" using assms(10) by auto
  obtain s1 s2 where s12: "usb_block cfg b dev env 0 (set_address a) s = Some s1"
    "host_download (usb_block cfg b dev env) 2 (chunks img) s1 = Some s2" "usb_idle dev s2"
    "flash_settled fdev s2" "prog_addr s2 = a" "flash_app_end s2 = flash_app_end s"
    "cells (fdev (hw s2)) = flashed cfg (fdev (hw s)) s a img"
    by (rule block_host.image_downloaded [OF usb_host.block_host_usb [OF assms(1)] assms(3, 4) \<open>img \<noteq> []\<close> assms(5, 7-9)])
  have req: "wValue (upload_request (2 + of_nat j)) = 2 + of_nat j" by (simp only: upload_request_def usb_setup_data.simps)
  have up: "\<exists>t'. dfu_upload cfg b (upload_request (2 + of_nat j)) t = (of_nat DFU_TRANSFER_SIZE, t') \<and>
      settled (fdev (hw t')) = settled (fdev (hw t)) \<and> dev (hw t') = dev (hw t) \<and>
      world.more t' = world.more (t\<lparr>usbdfu_state := STATE_DFU_UPLOAD_IDLE, usbd_control_buffer := ?blk\<rparr>)"
    if view: "flash_view fdev t = flash_view fdev s2" for t
  proof -
    note same = flash_view_eq [OF view] settled_eq [OF flash_view_eq(1) [OF view]]
    have t: "flash_settled fdev t" "cells (fdev (hw t)) = flashed cfg (fdev (hw s)) s (prog_addr t) img"
      "0x8002000 \<le> unat (prog_addr t)" "unat (prog_addr t) + length img \<le> unat (flash_app_end t)"
      using s12(4-7) assms(8, 9) by (simp_all add: same)
    obtain t' where t': "dfu_upload cfg b (upload_request (2 + of_nat j)) t = (of_nat DFU_TRANSFER_SIZE, t')"
      "fdev (hw t') = fdev (hw t)"
      "world.more t' = world.more (t\<lparr>usbdfu_state := STATE_DFU_UPLOAD_IDLE, usbd_control_buffer := ?blk\<rparr>)"
      by (rule upload_reads [OF assms(2) t(1, 2) assms(6) t(3, 4) assms(10) req refl])
    have "dev (hw t') = dev (hw t)"
      using dfu_chip.upload_usb [OF chip, of cfg "upload_request (2 + of_nat j)" t] t'(1) by simp
    with t' show ?thesis by simp
  qed
  have "length ?blk = DFU_TRANSFER_SIZE" using assms(10) by simp
  from usb_host.upload_run [OF assms(1) s12(3) this up]
  obtain s3 where "usb_upload cfg b dev env (2 + of_nat j) s2 = Some (?blk, s3)" "usb_idle dev s3"
    "flash_view fdev s3 = flash_view fdev s2" by blast
  then show ?thesis using s12(1, 2) flash_view_eq(1) by blast
qed

interpretation duo: fmc_readable dfu_bus h_fmc
  by unfold_locales (simp_all add: dfu_bus_def fmc_not_usb)

lemma upload_over_usb_witness:
  "\<exists>(s2 :: dfu_hw usb_world) s3. usb_upload ((cmake_build False)\<lparr>ENABLE_DFU_UPLOAD := True\<rparr>) dfu_bus h_usb dfu_env 2 s2 = Some (replicate 4096 7, s3) \<and>
    usb_idle h_usb s3"
proof -
  have d: "h_fmc (hw duo_boot) = flash_demo" "d_page flash_demo = 1024"
    by (simp_all add: duo_boot_def usb_boot_def flash_demo_def)
  show ?thesis
    using upload_over_usb [OF duo.usb_host_axioms duo.fmc_readable_axioms duo_boot_ready(1, 2), of "replicate 5000 7"
        "(cmake_build False)\<lparr>ENABLE_DFU_UPLOAD := True\<rparr>" "0x8002400" 0]
    by (auto simp: duo_boot_ready(3) d)
qed

end
