(* ===== verification/UsbDesc.thy ===== *)
theory UsbDesc
  imports UsbOut
begin

text \<open>
  The descriptors as a host reads them: split by their length bytes, typed by their second bytes.
\<close>

section \<open>Reading descriptors\<close>

text \<open>A descriptor set is a sequence of descriptors, each with its length first; \<open>None\<close> if a length does
  not fit.\<close>

function descriptors :: "u8 list \<Rightarrow> u8 list list option" where
  "descriptors bs =
     (if bs = [] then Some []
      else if unat (hd bs) < 2 \<or> length bs < unat (hd bs) then None
      else map_option (Cons (take (unat (hd bs)) bs)) (descriptors (drop (unat (hd bs)) bs)))"
  by pat_completeness auto
termination by (relation "measure length") auto

declare descriptors.simps [simp del]

lemma descriptors_Nil [simp]: "descriptors [] = Some []"
  by (simp add: descriptors.simps)

lemma descriptors_append:
  assumes "ds \<noteq> []" "unat (hd ds) = length ds" "2 \<le> length ds"
  shows "descriptors (ds @ bs) = map_option (Cons ds) (descriptors bs)"
  by (subst descriptors.simps) (use assms in simp)

definition desc_type :: "u8 list \<Rightarrow> u8" where "desc_type d = d ! 1"

definition desc_word :: "u8 list \<Rightarrow> nat \<Rightarrow> u16" where "desc_word d i = mk16 (d ! i) (d ! Suc i)"

section \<open>Strings\<close>

text \<open>Consecutive stores into the control buffer.\<close>

lemma take_store_ctl:
  assumes "off + length bs \<le> length (usbd_control_buffer s)"
  shows "take (off + length bs) (usbd_control_buffer (store_ctl off bs s)) = take off (usbd_control_buffer s) @ bs"
    and "length (usbd_control_buffer (store_ctl off bs s)) = length (usbd_control_buffer s)"
  using assms by (simp_all add: store_ctl_def)

lemma take_hold: "holds buf cs \<Longrightarrow> take (length cs) buf = cs"
proof -
  assume "holds buf cs"
  then have "take (length cs) (take (Suc (length cs)) buf) = take (length cs) (cs @ [0])" by (simp only: holds_def)
  then show ?thesis by simp
qed

definition string_request :: "nat \<Rightarrow> usb_setup_data" where
  "string_request k = \<lparr>bmRequestType = 0x80, bRequest = USB_REQ_GET_DESCRIPTOR, wValue = 0x300 OR of_nat k,
     wIndex = USB_LANGID_ENGLISH_US, wLength = 255\<rparr>"

lemma string_request_fields:
  assumes "k < 6"
  shows "drop_bit 8 (wValue (string_request k)) = 3" "unat (wValue (string_request k) AND 0xFF) = k"
    "wIndex (string_request k) = USB_LANGID_ENGLISH_US"
proof -
  consider "k = 0" | "k = 1" | "k = 2" | "k = 3" | "k = 4" | "k = 5" using assms by linarith
  then show "drop_bit 8 (wValue (string_request k)) = 3" "unat (wValue (string_request k) AND 0xFF) = k"
    "wIndex (string_request k) = USB_LANGID_ENGLISH_US"
    by (cases; simp add: string_request_def)+
qed

section \<open>The answers\<close>

text \<open>The configuration, the interface and the DFU functional descriptor.\<close>

lemma descriptors_single:
  assumes "2 \<le> length d" "unat (hd d) = length d"
  shows "descriptors d = Some [d]"
proof -
  have "d \<noteq> []" using assms(1) by auto
  from descriptors_append [OF this assms(2, 1), of "[]"] show ?thesis by simp
qed

lemma descriptors_config:
  "descriptors (config_desc cfg) =
     Some [bytes_of_config config_desc_config, bytes_of_interface config_desc_iface, bytes_of_dfu (config_desc_dfu cfg)]"
  using descriptors_append [of "bytes_of_config config_desc_config" "bytes_of_interface config_desc_iface @ bytes_of_dfu (config_desc_dfu cfg)"]
    descriptors_append [of "bytes_of_interface config_desc_iface" "bytes_of_dfu (config_desc_dfu cfg)"]
    descriptors_single [of "bytes_of_dfu (config_desc_dfu cfg)"]
  by (simp add: config_desc_def bytes_of_config_def bytes_of_interface_def bytes_of_dfu_def le16_def
      config_desc_config_def config_desc_iface_def config_desc_dfu_def)

lemma descriptors_device: "descriptors (bytes_of_device dev_desc) = Some [bytes_of_device dev_desc]"
  by (rule descriptors_single) (simp_all add: bytes_of_device_def le16_def dev_desc_def)

text \<open>The string for index \<open>k + 1\<close>, whatever the rest of the request.\<close>

lemma string_answer:
  fixes s :: "('h, 'm) usb_world_scheme"
  assumes "k < 5" "drop_bit 8 (wValue (usb_req s)) = 3" "unat (wValue (usb_req s) AND 0xFF) = Suc k"
    and "wIndex (usb_req s) = USB_LANGID_ENGLISH_US" "holds (usb_strings s ! k) cs" "length cs \<le> 126"
    and "length (usbd_control_buffer s) = DFU_TRANSFER_SIZE"
  shows "\<exists>s'. usb_standard_get_descriptor cfg s = Some (USBD_REQ_HANDLED, s') \<and>
    unat (datasize s') = 2 * length cs + 2 \<and>
    descriptors (take (unat (datasize s')) (usbd_control_buffer s')) = Some [of_nat (2 * length cs + 2) # USB_DT_STRING # utf16 cs]"
proof -
  let ?n = "of_nat (length cs * 2 + 2) :: u8"
  have n: "unat ?n = 2 * length cs + 2" using assms(6) by (simp only: unat_of_nat) simp
  define t where "t = store_ctl 1 [USB_DT_STRING] s"
  define u where "u = (store_ctl 0 [?n] t)\<lparr>datasize := ucast ?n\<rparr>"
  define v where "v = store_ctl 2 (utf16 cs) u"
  have same: "usb_strings (store_ctl off bs s) = usb_strings s" "usb_req (store_ctl off bs s) = usb_req s"
    "length (usb_strings s) = 5" for off bs
    by (simp_all add: store_ctl_def usb_strings_def)
  have "usb_standard_get_descriptor cfg s = Some (USBD_REQ_HANDLED, v)"
    using assms(1) xstrlen_holds [OF assms(5)] take_hold [OF assms(5)]
    by (simp add: usb_standard_get_descriptor_def assms(2-4) same Let_def t_def u_def v_def)
  moreover have ds: "unat (datasize v) = 2 * length cs + 2"
    using n assms(6) by (simp add: v_def store_ctl_def u_def unsigned_ucast_eq take_bit_nat_eq_self)
  moreover have "take (2 * length cs + 2) (usbd_control_buffer v) = ?n # USB_DT_STRING # utf16 cs"
  proof -
    obtain x y L where L: "usbd_control_buffer s = x # y # L"
      using assms(7) by (cases "usbd_control_buffer s"; cases "tl (usbd_control_buffer s)") auto
    then have t: "usbd_control_buffer t = x # USB_DT_STRING # L" by (simp add: t_def store_ctl_def)
    then have u: "usbd_control_buffer u = ?n # USB_DT_STRING # L" by (simp add: u_def store_ctl_def)
    then have "2 + length (utf16 cs) \<le> length (usbd_control_buffer u)" using assms(6, 7) L by simp
    from take_store_ctl(1) [OF this] show ?thesis by (simp add: v_def u add.commute)
  qed
  moreover have "descriptors (?n # USB_DT_STRING # utf16 cs) = Some [?n # USB_DT_STRING # utf16 cs]"
    by (rule descriptors_single) (use n in simp_all)
  ultimately show ?thesis by (simp add: mult.commute)
qed

text \<open>The requests for which there is a descriptor: the device, the configuration, the list of
  languages, and the five strings in English.\<close>

definition descriptor_exists :: "usb_setup_data \<Rightarrow> bool" where
  "descriptor_exists r \<longleftrightarrow>
     (let ty = drop_bit 8 (wValue r); i = unat (wValue r AND 0xFF)
      in ty = ucast USB_DT_DEVICE \<or> ty = ucast USB_DT_CONFIGURATION \<or>
         ty = ucast USB_DT_STRING \<and> (i = 0 \<or> i \<le> 5 \<and> wIndex r = USB_LANGID_ENGLISH_US))"

text \<open>What the USB standard asks of a set of descriptors: behind a configuration descriptor stands all that it
  counts, its total length, its interfaces and their endpoints, and a string that a descriptor names
  can be fetched.\<close>

definition counted :: "u8 list list \<Rightarrow> bool" where
  "counted ds \<longleftrightarrow>
     unat (desc_word (hd ds) 2) = length (concat ds) \<and>
     unat (hd ds ! 4) = length (filter (\<lambda>d. desc_type d = USB_DT_INTERFACE) ds) \<and>
     sum_list (map (\<lambda>d. unat (d ! 4)) (filter (\<lambda>d. desc_type d = USB_DT_INTERFACE) ds)) =
       length (filter (\<lambda>d. desc_type d = 5) ds)"

definition strings_named :: "u8 list \<Rightarrow> nat list" where
  "strings_named d = map unat (filter (\<lambda>i. i \<noteq> 0)
     (if desc_type d = USB_DT_DEVICE then [d ! 14, d ! 15, d ! 16]
      else if desc_type d = USB_DT_CONFIGURATION then [d ! 6]
      else if desc_type d = USB_DT_INTERFACE then [d ! 8] else []))"

definition answer_ok :: "u16 \<Rightarrow> u8 list \<Rightarrow> bool" where
  "answer_ok ty bs \<longleftrightarrow> (case descriptors bs of Some (d # ds) \<Rightarrow>
       ucast (desc_type d) = ty \<and> (desc_type d = USB_DT_CONFIGURATION \<longrightarrow> counted (d # ds)) \<and>
       (desc_type d \<noteq> USB_DT_CONFIGURATION \<longrightarrow> ds = []) \<and>
       list_all (\<lambda>i. descriptor_exists (string_request i)) (concat (map strings_named (d # ds)))
     | _ \<Rightarrow> False)"

lemma string_exists: "k < 6 \<Longrightarrow> descriptor_exists (string_request k)"
  by (simp add: descriptor_exists_def Let_def string_request_fields)

lemma device_ok: "answer_ok 1 (bytes_of_device dev_desc)"
  unfolding answer_ok_def descriptors_device
  by (simp add: bytes_of_device_def le16_def dev_desc_def desc_type_def strings_named_def string_exists)

lemma config_ok: "answer_ok 2 (config_desc cfg)"
  unfolding answer_ok_def descriptors_config
  by (simp add: bytes_of_config_def bytes_of_interface_def bytes_of_dfu_def le16_def lo8_def hi8_def mk16_def
      config_desc_config_def config_desc_iface_def config_desc_dfu_def desc_type_def desc_word_def strings_named_def
      counted_def string_exists)

lemma language_bytes: "le16 USB_LANGID_ENGLISH_US = [9, 4]"
  by (simp add: le16_def lo8_def hi8_def)

lemma languages_ok: "answer_ok 3 [4, 3, 9, 4]"
  using descriptors_single [of "[4, 3, 9, 4]"] by (simp add: answer_ok_def desc_type_def strings_named_def)

lemma c_str_holds: "0 \<notin> set (map of_char cs :: u8 list) \<Longrightarrow> holds (c_str cs) (map of_char cs)"
  by (simp add: holds_def c_str_def)

lemma string_held:
  fixes s :: "('h, 'm) usb_world_scheme"
  assumes "k < 5" "holds (serial_no s) sn" "length sn \<le> 126" "holds (memory_layout s) ml" "length ml \<le> 126"
  shows "\<exists>cs. holds (usb_strings s ! k) cs \<and> length cs \<le> 126"
proof -
  consider "k = 0" | "k = 1" | "k = 2" | "k = 3" | "k = 4" using assms(1) by linarith
  then show ?thesis
  proof cases
    case 1
    then show ?thesis using c_str_holds [of "''davidgf.net (libopencm3 based)''"]
      by (intro exI [of _ "map of_char ''davidgf.net (libopencm3 based)''"]) (simp add: usb_strings_def of_char_def)
  next
    case 2
    then show ?thesis using c_str_holds [of "''Swindle bootloader_'' @ VERSION"]
      by (intro exI [of _ "map of_char (''Swindle bootloader_'' @ VERSION)"]) (simp add: usb_strings_def of_char_def VERSION_def)
  next
    case 3
    then show ?thesis using assms(2, 3) by (auto simp: usb_strings_def)
  next
    case 4
    then show ?thesis using assms(4, 5) by (auto simp: usb_strings_def)
  next
    case 5
    then show ?thesis using c_str_holds [of "''Bootloader ''"]
      by (intro exI [of _ "map of_char ''Bootloader ''"]) (simp add: usb_strings_def of_char_def)
  qed
qed

lemma string_ok: "descriptors bs = Some [n # USB_DT_STRING # cs] \<Longrightarrow> answer_ok 3 bs"
  by (simp add: answer_ok_def desc_type_def strings_named_def)

section \<open>Properties\<close>

text \<open>C22: GET_DESCRIPTOR, for every request, with the serial number and the memory layout in place. A
  request for which there is a descriptor is answered, with a well formed set of descriptors of the
  type that was asked for: the length bytes add up to the length of the answer, behind a configuration
  stands exactly what it counts, and every string that an answer names has an answer of its own. Every
  other request is refused.\<close>

theorem descriptor_answers:
  fixes s :: "('h, 'm) usb_world_scheme"
  assumes "length (usbd_control_buffer s) = DFU_TRANSFER_SIZE"
    and "holds (serial_no s) sn" "length sn \<le> 126" "holds (memory_layout s) ml" "length ml \<le> 126"
  shows "\<exists>c s'. usb_standard_get_descriptor cfg s = Some (c, s') \<and>
    (if descriptor_exists (usb_req s)
     then c = USBD_REQ_HANDLED \<and>
       answer_ok (drop_bit 8 (wValue (usb_req s))) (take (unat (datasize s')) (usbd_control_buffer s'))
     else c = USBD_REQ_NOTSUPP)"
proof -
  let ?ty = "drop_bit 8 (wValue (usb_req s))" and ?i = "unat (wValue (usb_req s) AND 0xFF)"
  have sizes: "length (bytes_of_device dev_desc) = 18" "length (config_desc cfg) = 27"
    by (simp_all add: config_desc_def)
  have "?i = Suc (?i - 1) \<and> ?i - 1 < 5" if "?i \<noteq> 0" "?i \<le> 5" using that by simp
  then consider (device) "?ty = 1" | (config) "?ty = 2" | (langs) "?ty = 3" "?i = 0"
    | (str) k where "?ty = 3" "?i = Suc k" "k < 5" "wIndex (usb_req s) = USB_LANGID_ENGLISH_US"
    | (none) "\<not> descriptor_exists (usb_req s)"
    unfolding descriptor_exists_def Let_def by fastforce
  then show ?thesis
  proof cases
    case device
    then show ?thesis using device_ok take_store_ctl(1) [of 0 "bytes_of_device dev_desc" s] assms(1) sizes
      by (simp add: usb_standard_get_descriptor_def descriptor_exists_def)
  next
    case config
    then show ?thesis using config_ok take_store_ctl(1) [of 0 "config_desc cfg" s] assms(1) sizes
      by (simp add: usb_standard_get_descriptor_def descriptor_exists_def)
  next
    case langs
    have "length (usbd_control_buffer s) = Suc (Suc (Suc (Suc 4092)))" using assms(1) by simp
    then obtain x y z w L where "usbd_control_buffer s = x # y # z # w # L" by (auto simp only: length_Suc_conv)
    then show ?thesis using langs languages_ok
      by (simp add: usb_standard_get_descriptor_def descriptor_exists_def Let_def store_ctl_def language_bytes)
  next
    case (str k)
    obtain cs where cs: "holds (usb_strings s ! k) cs" "length cs \<le> 126"
      using string_held [OF str(3) assms(2-5)] by blast
    obtain s' where s': "usb_standard_get_descriptor cfg s = Some (USBD_REQ_HANDLED, s')"
      "descriptors (take (unat (datasize s')) (usbd_control_buffer s')) =
        Some [of_nat (2 * length cs + 2) # USB_DT_STRING # utf16 cs]"
      using string_answer [OF str(3, 1, 2, 4) cs assms(1), of cfg] by blast
    have "descriptor_exists (usb_req s)" using str by (simp add: descriptor_exists_def)
    with s'(1) string_ok [OF s'(2)] show ?thesis by (simp add: str(1))
  next
    case none
    define ty i where "ty = ?ty" and "i = ?i"
    note folded = ty_def [symmetric] i_def [symmetric]
    have n: "ty \<noteq> 1" "ty \<noteq> 2" "ty = 3 \<Longrightarrow> i \<noteq> 0 \<and> (wIndex (usb_req s) = USB_LANGID_ENGLISH_US \<longrightarrow> 5 < i)"
      using none by (auto simp: descriptor_exists_def folded)
    have strings: "usb_strings (store_ctl off bs s) = usb_strings s" "usb_req (store_ctl off bs s) = usb_req s"
      "length (usb_strings s) = 5" for off bs
      by (simp_all add: usb_strings_def store_ctl_def)
    show ?thesis
      using none n by (cases "ty = 3") (auto simp: usb_standard_get_descriptor_def folded Let_def strings)
  qed
qed

lemma descriptor_answers_witness:
  "\<exists>c s'. usb_standard_get_descriptor (cmake_build False)
      (demo_state\<lparr>usb_req := get_descriptor_request 0x0200 255\<rparr>) = Some (c, s') \<and> c = USBD_REQ_HANDLED \<and>
    answer_ok 2 (take (unat (datasize s')) (usbd_control_buffer s'))"
proof -
  let ?s = "demo_state\<lparr>usb_req := get_descriptor_request 0x0200 255\<rparr>"
  have len: "length (usbd_control_buffer ?s) = DFU_TRANSFER_SIZE" by simp
  have held: "holds (serial_no ?s) []" "holds (memory_layout ?s) []"
    by (simp_all add: demo_state_def usb_boot_def holds_def zeros_def take_Suc)
  have "descriptor_exists (usb_req ?s)" "drop_bit 8 (wValue (usb_req ?s)) = 2"
    by (simp_all add: descriptor_exists_def get_descriptor_request_def)
  then show ?thesis using descriptor_answers [OF len held(1) _ held(2), of "cmake_build False"] by simp
qed

text \<open>C23: strings. For every string index a descriptor can name, the answer to GET_DESCRIPTOR is one well
  formed string descriptor: its length, its type, and the characters of the string in UTF-16.\<close>

theorem string_descriptor:
  fixes s :: "('h, 'm) usb_world_scheme"
  assumes "k < 5" "usb_req s = string_request (Suc k)" "holds (usb_strings s ! k) cs" "length cs \<le> 126"
    and "length (usbd_control_buffer s) = DFU_TRANSFER_SIZE"
  shows "\<exists>s'. usb_standard_get_descriptor cfg s = Some (USBD_REQ_HANDLED, s') \<and>
    unat (datasize s') = 2 * length cs + 2 \<and>
    descriptors (take (unat (datasize s')) (usbd_control_buffer s')) = Some [of_nat (2 * length cs + 2) # USB_DT_STRING # utf16 cs]"
  by (rule string_answer [OF assms(1) _ _ _ assms(3-5)]) (use assms(1) in \<open>simp_all add: assms(2) string_request_fields\<close>)

text \<open>The third string, of the serial number, in a state whose serial number is \<open>SWIND_7\<close>.\<close>

lemma string_descriptor_witness:
  "\<exists>s'. usb_standard_get_descriptor (cmake_build False)
      (demo_state\<lparr>serial_no := map of_char ''SWIND_7'' @ [0], usb_req := string_request 3\<rparr>) = Some (USBD_REQ_HANDLED, s') \<and>
    descriptors (take (unat (datasize s')) (usbd_control_buffer s')) =
      Some [[16, 3, 0x53, 0, 0x57, 0, 0x49, 0, 0x4E, 0, 0x44, 0, 0x5F, 0, 0x37, 0]]"
proof -
  let ?s = "demo_state\<lparr>serial_no := map of_char ''SWIND_7'' @ [0], usb_req := string_request 3\<rparr>"
  let ?cs = "[0x53, 0x57, 0x49, 0x4E, 0x44, 0x5F, 0x37] :: u8 list"
  have h: "holds (usb_strings ?s ! 2) ?cs"
    by (simp add: holds_def usb_strings_def of_char_def)
  have "utf16 ?cs = [0x53, 0, 0x57, 0, 0x49, 0, 0x4E, 0, 0x44, 0, 0x5F, 0, 0x37, 0]"
    by (simp add: utf16_def le16_def lo8_def hi8_def)
  then show ?thesis
    using string_descriptor [of 2 ?s ?cs "cmake_build False"] h by auto
qed

end
