(* ===== verification/DfuStates.thy ===== *)
theory DfuStates
  imports UsbSafe
begin

text \<open>
  The DFU state machine as a specification, and the proof that one poll of the USB stack takes at
  most one of its transitions.
\<close>

section \<open>The state machine\<close>

datatype dfu_event =
    Download bool | Upload | Get_status | Clear_status | Abort | Detach | Operation_done

text \<open>\<open>Download True\<close> is a download of length zero. \<open>Operation_done\<close> is the end of the status
  stage of a GETSTATUS, where the flash operation runs.\<close>

inductive dfu_trans :: "dfu_event \<Rightarrow> dfu_state \<Rightarrow> dfu_state \<Rightarrow> bool" where
  leave: "dfu_trans (Download True) st STATE_DFU_MANIFEST_SYNC"
| block: "dfu_trans (Download False) st STATE_DFU_DNLOAD_SYNC"
| upload: "dfu_trans Upload st STATE_DFU_UPLOAD_IDLE"
| upload_fails: "dfu_trans Upload st STATE_DFU_ERROR"
| busy: "dfu_trans Get_status STATE_DFU_DNLOAD_SYNC STATE_DFU_DNBUSY"
| manifest: "dfu_trans Get_status STATE_DFU_MANIFEST_SYNC STATE_DFU_MANIFEST"
| clear: "dfu_trans Clear_status STATE_DFU_ERROR STATE_DFU_IDLE"
| abort: "dfu_trans Abort st STATE_DFU_IDLE"
| detach: "dfu_trans Detach st STATE_DFU_MANIFEST"
| ready: "dfu_trans Operation_done STATE_DFU_DNBUSY STATE_DFU_DNLOAD_IDLE"

inductive_cases dfu_transE: "dfu_trans ev st st'"

inductive_simps dfu_trans_manifest: "dfu_trans ev st STATE_DFU_MANIFEST"
inductive_simps dfu_trans_error: "dfu_trans ev st STATE_DFU_ERROR"
inductive_simps dfu_trans_busy: "dfu_trans ev st STATE_DFU_DNBUSY"

text \<open>The event of a class request; a request for the state is none.\<close>

definition event_of :: "usb_setup_data \<Rightarrow> dfu_event option" where
  "event_of req =
     (case dfu_req_of (bRequest req) of
        Some DFU_DETACH \<Rightarrow> Some Detach
      | Some DFU_DNLOAD \<Rightarrow> Some (Download (wLength req = 0))
      | Some DFU_UPLOAD \<Rightarrow> Some Upload
      | Some DFU_GETSTATUS \<Rightarrow> Some Get_status
      | Some DFU_CLRSTATUS \<Rightarrow> Some Clear_status
      | Some DFU_ABORT \<Rightarrow> Some Abort
      | _ \<Rightarrow> None)"

text \<open>At most one transition, and only the one the last request asked for, or the end of an
  operation.\<close>

definition dfu_steps :: "usb_setup_data \<Rightarrow> dfu_state \<Rightarrow> dfu_state \<Rightarrow> bool" where
  "dfu_steps req st st' \<longleftrightarrow>
     st' = st \<or> (\<exists>ev. class_request req \<and> event_of req = Some ev \<and> dfu_trans ev st st') \<or>
     dfu_trans Operation_done st st'"

lemma dfu_steps_refl [simp, intro]: "dfu_steps req st st"
  by (simp add: dfu_steps_def)

section \<open>The class\<close>

lemma request_trans:
  fixes s s' :: "('h, 'm) dfu_world_scheme"
  assumes "usbdfu_control_request cfg b req (wLength req) s = (r, len', cb, s')"
  shows "case event_of req of
      None \<Rightarrow> usbdfu_state s' = usbdfu_state s
    | Some ev \<Rightarrow> dfu_trans ev (usbdfu_state s) (usbdfu_state s') \<or>
        usbdfu_state s' = usbdfu_state s \<and> (\<forall>st'. \<not> dfu_trans ev (usbdfu_state s) st')"
proof -
  have dn: "dfu_trans (Download (len = 0)) (usbdfu_state s) (usbdfu_state (dfu_dnload req len s))" for len
    by (simp add: dfu_dnload_def Let_def leave block)
  have st: "usbdfu_state (dfu_getstatus_reply s) = usbdfu_state (snd (snd (usbdfu_getstatus 0 s)))"
    by (simp add: dfu_getstatus_reply_def set_ctl_def case_prod_beta Let_def)
  have gs: "dfu_trans Get_status (usbdfu_state s) (usbdfu_state (dfu_getstatus_reply s)) \<or>
    usbdfu_state (dfu_getstatus_reply s) = usbdfu_state s \<and> (\<forall>st'. \<not> dfu_trans Get_status (usbdfu_state s) st')"
    unfolding st by (auto simp: usbdfu_getstatus_def busy manifest elim: dfu_transE split: dfu_state.splits)
  have rb: "usbdfu_state (snd (read_bytes b a n t)) = usbdfu_state t" for a n and t :: "('h, 'm) dfu_world_scheme"
    by (rule dfu_fields_eq(7) [OF flash_more [OF more_read_bytes]])
  have "usbdfu_state (snd (dfu_upload cfg b req s)) \<in> {STATE_DFU_UPLOAD_IDLE, STATE_DFU_ERROR}"
    by (auto simp: dfu_upload_def Let_def case_prod_beta set_ctl_def rb)
  then have up: "dfu_trans Upload (usbdfu_state s) (usbdfu_state (snd (dfu_upload cfg b req s)))"
    by (auto intro: upload upload_fails)
  have cl: "\<not> dfu_trans Clear_status (usbdfu_state s) st'" if "usbdfu_state s \<noteq> STATE_DFU_ERROR" for st'
    using that by (auto elim: dfu_transE)
  show ?thesis
    using assms dn [of "wLength req"] gs up cl
    by (auto simp: usbdfu_control_request_def event_of_def case_prod_beta set_ctl_def clear abort detach
        split: option.splits dfu_req.splits if_splits)
qed

lemma request_steps:
  fixes s s' :: "('h, 'm) dfu_world_scheme"
  assumes "usbdfu_control_request cfg b req (wLength req) s = (r, len', cb, s')" "class_request req"
  shows "dfu_steps req (usbdfu_state s) (usbdfu_state s')"
  using request_trans [OF assms(1)] assms(2) by (auto simp: dfu_steps_def split: option.splits)

lemma busy_state:
  assumes "dfu_busy_operation cfg b s = Some s'"
  shows "usbdfu_state s' = usbdfu_state s"
  using assms
  by (auto simp: dfu_busy_operation_def dfu_fields_eq(7) [OF more_cmd_erase]
      dfu_fields_eq(7) [OF more_write_block] split: if_splits)

lemma complete_steps:
  assumes "usbdfu_getstatus_complete cfg b s = Some s'"
  shows "dfu_steps req (usbdfu_state s) (usbdfu_state s')"
proof (cases "usbdfu_state s = STATE_DFU_DNBUSY")
  case True
  then have "usbdfu_state s' = STATE_DFU_DNLOAD_IDLE"
    using assms by (auto simp: usbdfu_getstatus_complete_def Let_def bind_eq_Some_conv)
  with True show ?thesis by (simp add: dfu_steps_def ready)
next
  case False
  then have "s' = s"
    using assms by (cases "usbdfu_state s") (simp_all add: usbdfu_getstatus_complete_def)
  then show ?thesis by simp
qed

lemma more_request:
  fixes s s' :: "('h, 'm) dfu_world_scheme"
  assumes "usbdfu_control_request cfg b req len s = (r, len', cb, s')"
  shows "dfu_world.more s' = dfu_world.more s"
proof -
  have rb: "dfu_world.more (snd (read_bytes b a n t)) = dfu_world.more t"
    for a n and t :: "('h, 'm) dfu_world_scheme"
    by (rule dfu_fields_eq [OF flash_more [OF more_read_bytes]])
  have "dfu_world.more (dfu_dnload req len s) = dfu_world.more s"
    "dfu_world.more (dfu_getstatus_reply s) = dfu_world.more s"
    "dfu_world.more (snd (dfu_upload cfg b req s)) = dfu_world.more s"
    by (auto simp: dfu_dnload_def dfu_getstatus_reply_def usbdfu_getstatus_def dfu_upload_def set_ctl_def
        Let_def case_prod_beta rb split: dfu_state.splits)
  then show ?thesis
    using assms
    by (auto simp: usbdfu_control_request_def case_prod_beta set_ctl_def
        split: option.splits dfu_req.splits if_splits)
qed

section \<open>The USB stack\<close>

text \<open>What the state machine depends on.\<close>

definition dfu_view :: "('h, 'm) usb_world_scheme \<Rightarrow> dfu_state \<times> usb_setup_data" where
  "dfu_view s = (usbdfu_state s, usb_req s)"

lemma dfu_view_more: "world.more s' = world.more s \<Longrightarrow> dfu_view s' = dfu_view s"
  using usb_fields_eq(6, 14) [of s' s] by (simp add: dfu_view_def)

lemma dfu_view_update [simp]:
  "dfu_view (s\<lparr>datasize := d\<rparr>) = dfu_view s" "dfu_view (s\<lparr>dataoff := d\<rparr>) = dfu_view s"
  "dfu_view (s\<lparr>usb_fsm_state := f\<rparr>) = dfu_view s" "dfu_view (s\<lparr>usb_complete_cb := c\<rparr>) = dfu_view s"
  "dfu_view (s\<lparr>usb_needs_zlp := z\<rparr>) = dfu_view s" "dfu_view (s\<lparr>usb_force_nak := n\<rparr>) = dfu_view s"
  "dfu_view (s\<lparr>usb_pm_top := t\<rparr>) = dfu_view s" "dfu_view (store_ctl off bs s) = dfu_view s"
  "dfu_view (s\<lparr>usbd_control_buffer := cb\<rparr>) = dfu_view s"
  by (simp_all add: dfu_view_def store_ctl_def)

text \<open>From \<open>s\<close> to \<open>s'\<close> the machine takes a permitted step.\<close>

definition dfu_step_ok :: "('h, 'm) usb_world_scheme \<Rightarrow> ('h, 'm) usb_world_scheme \<Rightarrow> bool" where
  "dfu_step_ok s s' \<longleftrightarrow> dfu_steps (usb_req s') (usbdfu_state s) (usbdfu_state s')"

lemma step_same: "dfu_view s' = dfu_view s \<Longrightarrow> dfu_step_ok s s'"
  by (simp add: dfu_step_ok_def dfu_view_def)

lemma step_view:
  assumes "dfu_step_ok t t'" "dfu_view t = dfu_view s" "dfu_view s' = dfu_view t'"
  shows "dfu_step_ok s s'"
  using assms by (simp add: dfu_step_ok_def dfu_view_def)

lemma step_req: "dfu_step_ok (s\<lparr>usb_req := r\<rparr>) s' \<Longrightarrow> dfu_step_ok s s'"
  by (simp add: dfu_step_ok_def)

lemma standard_view:
  assumes "usbd_standard_request cfg b s = Some (c, s')"
  shows "dfu_view s' = dfu_view s"
proof -
  have "dfu_view t = dfu_view s" if "usb_standard_get_descriptor cfg s = Some (c, t)" for t
    using that by (auto simp: usb_standard_get_descriptor_def Let_def bind_eq_Some_conv split: if_splits)
  then have "dfu_view s' = dfu_view s" if "usbd_standard_request_device cfg b s = Some (c, s')"
    using that
    by (auto simp: usbd_standard_request_device_def Let_def dfu_view_more [OF more_disable_endpoints]
        simp del: disable_endpoints.simps split: if_splits)
  moreover have "dfu_view s' = dfu_view s" if "usbd_standard_request_interface s = Some (c, s')"
    using that by (auto simp: usbd_standard_request_interface_def Let_def split: if_splits)
  moreover have "dfu_view s' = dfu_view s" if "usbd_standard_request_endpoint b s = Some (c, s')"
    using that
    by (auto simp: usbd_standard_request_endpoint_def Let_def case_prod_beta
        dfu_view_more [OF more_stall_set] dfu_view_more [OF more_stall_get] split: if_splits)
  ultimately show ?thesis
    using assms by (auto simp: usbd_standard_request_def Let_def split: if_splits)
qed

lemma dispatch_steps:
  assumes "usb_control_request_dispatch cfg b s = Some (c, s')"
  shows "dfu_step_ok s s'"
proof (cases "class_request (usb_req s)")
  case True
  obtain res len cb s1 where req: "usbdfu_control_request cfg b (usb_req s) (wLength (usb_req s)) s = (res, len, cb, s1)"
    by (metis surj_pair)
  let ?s2 = "s1\<lparr>datasize := len, usb_complete_cb := (case cb of None \<Rightarrow> usb_complete_cb s1 | Some c \<Rightarrow> Some c)\<rparr>"
  have "s' = ?s2 \<or> usbd_standard_request cfg b ?s2 = Some (c, s')"
    using assms True req by (auto simp: usb_control_request_dispatch_def Let_def split: if_splits)
  then have "dfu_view s' = dfu_view s1" using standard_view by fastforce
  moreover have "usb_req s1 = usb_req s" by (rule usb_fields_eq_dfu [OF more_request [OF req]])
  ultimately show ?thesis
    using request_steps [OF req True] by (simp add: dfu_step_ok_def dfu_view_def)
next
  case False
  then show ?thesis
    using assms by (auto simp: usb_control_request_dispatch_def intro: step_same dest: standard_view)
qed

lemma kept_view [simp]:
  fixes s :: "('h, 'm) usb_world_scheme"
  shows
  "dfu_view (usbd_ep_nak_set b a n s) = dfu_view s"
  "dfu_view (stall_transaction b s) = dfu_view s"
  "dfu_view (usb_control_send_chunk b s) = dfu_view s"
  "dfu_view (snd (usb_control_recv_chunk b s)) = dfu_view s"
  "dfu_view (usb_control_setup_write b s) = dfu_view s"
  "dfu_view (snd (usbd_ep_write_packet b a src len s)) = dfu_view s"
  "dfu_view (snd (usbd_ep_read_packet b a len s)) = dfu_view s"
proof -
  show nak: "dfu_view (usbd_ep_nak_set b a n s) = dfu_view s" for a n and s :: "('h, 'm) usb_world_scheme"
    by (simp add: usbd_ep_nak_set_def Let_def dfu_view_more [OF more_ep_macros(4)])
  show stall: "dfu_view (stall_transaction b s) = dfu_view s" for s :: "('h, 'm) usb_world_scheme"
    by (simp add: stall_transaction_def dfu_view_more [OF more_stall_set])
  show w: "dfu_view (snd (usbd_ep_write_packet b a src len s)) = dfu_view s" for a src len and s :: "('h, 'm) usb_world_scheme"
    by (rule dfu_view_more) simp
  show r: "dfu_view (snd (usbd_ep_read_packet b a len s)) = dfu_view s" for a len and s :: "('h, 'm) usb_world_scheme"
    by (rule dfu_view_more) simp
  show "dfu_view (usb_control_send_chunk b s) = dfu_view s"
    by (simp add: usb_control_send_chunk_def Let_def case_prod_beta w)
  show "dfu_view (snd (usb_control_recv_chunk b s)) = dfu_view s"
    by (simp add: usb_control_recv_chunk_def Let_def case_prod_beta stall r)
  show "dfu_view (usb_control_setup_write b s) = dfu_view s"
    by (simp add: usb_control_setup_write_def Let_def nak stall)
qed

lemma setup_read_steps:
  assumes "usb_control_setup_read cfg b s = Some s'"
  shows "dfu_step_ok s s'"
proof -
  obtain c s1 where s1: "usb_control_request_dispatch cfg b (s\<lparr>dataoff := 0\<rparr>) = Some (c, s1)"
    using assms by (auto simp: usb_control_setup_read_def Let_def bind_eq_Some_conv)
  then have "dfu_view s' = dfu_view s1"
    using assms by (auto simp: usb_control_setup_read_def Let_def case_prod_beta split: if_splits)
  then show ?thesis by (rule step_view [OF dispatch_steps [OF s1], rotated]) simp
qed

lemma control_setup_steps:
  assumes "usbd_control_setup cfg b s = Some s'"
  shows "dfu_step_ok s s'"
proof -
  let ?s1 = "usbd_ep_nak_set b 0 1 (s\<lparr>usb_complete_cb := None\<rparr>)"
  obtain bs s2 where s2: "usbd_ep_read_packet b 0 8 ?s1 = (bs, s2)" by fastforce
  have view: "dfu_view s2 = dfu_view s"
    using kept_view(7) [of b 0 8 ?s1] s2 by simp
  consider "dfu_view s' = dfu_view s2"
    | r where "dfu_view s' = dfu_view (s2\<lparr>usb_req := r\<rparr>)"
    | r where "usb_control_setup_read cfg b (s2\<lparr>usb_req := r\<rparr>) = Some s'"
    using assms s2 by (auto simp: usbd_control_setup_def Let_def split: if_splits)
  then have "dfu_step_ok s2 s'"
    by cases (auto intro: step_same step_req dest: setup_read_steps simp: dfu_step_ok_def dfu_view_def)
  then show ?thesis by (rule step_view) (simp_all add: view)
qed

lemma run_complete_cb_steps:
  assumes "run_complete_cb cfg b s = Some s'"
  shows "dfu_step_ok s s'"
  using assms complete_steps
  by (auto simp: run_complete_cb_def usb_callback_run_def dfu_step_ok_def
      split: option.splits usb_callback.splits)

lemma control_out_steps:
  assumes "usbd_control_out cfg b s = Some s'"
  shows "dfu_step_ok s s'"
proof -
  obtain ok s1 where rc: "usb_control_recv_chunk b s = (ok, s1)" by fastforce
  then have s1: "dfu_view s1 = dfu_view s" using kept_view(4) [of b s] by simp
  obtain bs t where t: "usbd_ep_read_packet b 0 0 s = (bs, t)" by fastforce
  then have t1: "dfu_view t = dfu_view s" using kept_view(7) [of b 0 0 s] by simp
  have last: "dfu_step_ok s s'" if fsm: "usb_fsm_state s = LAST_DATA_OUT"
  proof (cases ok)
    case True
    then obtain c s2 where s2: "usb_control_request_dispatch cfg b s1 = Some (c, s2)"
      using assms fsm rc by (auto simp: usbd_control_out_def bind_eq_Some_conv)
    then have "dfu_view s' = dfu_view s2"
      using assms fsm rc True by (auto simp: usbd_control_out_def Let_def case_prod_beta split: if_splits)
    then show ?thesis by (rule step_view [OF dispatch_steps [OF s2] s1])
  next
    case False
    then show ?thesis using assms fsm rc s1 by (auto simp: usbd_control_out_def intro: step_same)
  qed
  have status: "dfu_step_ok s s'" if fsm: "usb_fsm_state s = STATUS_OUT"
  proof -
    obtain s2 where s2: "run_complete_cb cfg b (t\<lparr>usb_fsm_state := IDLE\<rparr>) = Some s2"
      "s' = s2\<lparr>usb_complete_cb := None\<rparr>"
      using assms fsm t by (auto simp: usbd_control_out_def bind_eq_Some_conv)
    show ?thesis by (rule step_view [OF run_complete_cb_steps [OF s2(1)]]) (simp_all add: t1 s2(2))
  qed
  show ?thesis
    using assms last status rc s1
    by (cases "usb_fsm_state s") (auto simp: usbd_control_out_def intro: step_same split: if_splits)
qed

lemma control_in_steps:
  assumes "usbd_control_in cfg b s = Some s'"
  shows "dfu_step_ok s s'"
proof (cases "usb_fsm_state s = STATUS_IN")
  case True
  then obtain s1 where s1: "run_complete_cb cfg b s = Some s1"
    using assms by (auto simp: usbd_control_in_def bind_eq_Some_conv)
  then have "dfu_view s' = dfu_view s1"
    using assms True by (auto simp: usbd_control_in_def Let_def dfu_view_more [OF more_SET_REG])
  then show ?thesis by (rule step_view [OF run_complete_cb_steps [OF s1] refl])
next
  case False
  then show ?thesis
    using assms by (cases "usb_fsm_state s") (auto simp: usbd_control_in_def intro: step_same)
qed

lemma ctr_event_steps:
  assumes "usb_ctr_event cfg b istr s = Some s'"
  shows "dfu_step_ok s s'"
proof (cases "istr AND USB_ISTR_DIR = 0")
  case True
  then have "usbd_control_in cfg b (USB_CLR_EP_TX_CTR b (ucast (istr AND USB_ISTR_EP_ID)) s) = Some s'"
    using assms by (simp add: usb_ctr_event_def Let_def)
  from control_in_steps [OF this] show ?thesis
    by (rule step_view) (simp_all add: dfu_view_more [OF more_ep_macros(9)])
next
  case False
  obtain v t where t: "rd32 b (USB_EP_REG (ucast (istr AND USB_ISTR_EP_ID))) s = (v, t)" by fastforce
  have "usbd_control_setup cfg b t = Some s' \<or> usbd_control_out cfg b t = Some s'"
    using assms False t by (simp add: usb_ctr_event_def split: if_splits)
  then have "dfu_step_ok t s'" using control_setup_steps control_out_steps by metis
  then show ?thesis by (rule step_view) (simp_all add: dfu_view_more [OF more_rd(3) [OF t]])
qed

lemmas view_hw = more_ep_macros [THEN dfu_view_more] more_btable(2) [THEN dfu_view_more]
  more_rx_bufsize [THEN dfu_view_more] more_SET_REG [THEN dfu_view_more]

lemma reset_event_view: "dfu_view (usb_reset_event b s) = dfu_view s"
  by (simp add: usb_reset_event_def usbd_ep_setup_def Let_def view_hw)

lemma poll_steps:
  assumes "do_usb_poll cfg b s = Some s'"
  shows "dfu_step_ok s s'"
proof -
  obtain istr s1 where g: "GET_REG b USB_ISTR_REG s = (istr, s1)" by fastforce
  have view: "dfu_view s1 = dfu_view s"
    using dfu_view_more [OF more_GET_REG, of b USB_ISTR_REG s] g by simp
  show ?thesis
  proof (cases "istr AND USB_ISTR_RESET = 0")
    case False
    then have "s' = usb_reset_event b s1" using assms g by (simp add: do_usb_poll_def)
    then show ?thesis by (intro step_same) (simp add: view reset_event_view)
  next
    case True
    obtain s2 where s2: "(if istr AND USB_ISTR_CTR \<noteq> 0 then usb_ctr_event cfg b istr s1 else Some s1) = Some s2"
      and s': "s' = mod32 b USB_CNTR_REG (\<lambda>v. v AND NOT USB_CNTR_SOFM) (clr_istr_if b istr USB_ISTR_SOF
        (clr_istr_if b istr USB_ISTR_WKUP (clr_istr_if b istr USB_ISTR_SUSP s2)))"
      using assms g True by (auto simp: do_usb_poll_def Let_def bind_eq_Some_conv)
    have "world.more s' = world.more s2" by (simp add: s')
    then have last: "dfu_view s' = dfu_view s2" by (rule dfu_view_more)
    have "dfu_step_ok s1 s2"
      using s2 ctr_event_steps by (auto intro: step_same split: if_splits)
    then show ?thesis by (rule step_view [OF _ view last])
  qed
qed

section \<open>A host that sends DFU_DETACH\<close>

text \<open>Hardware whose registers hold constant values, whatever is stored.\<close>

definition const_bus :: "(u32 \<Rightarrow> u32) \<Rightarrow> unit bus" where
  "const_bus f =
     \<lparr>ld8 = (\<lambda>a h. (ucast (f a), ())), ld16 = (\<lambda>a h. (ucast (f a), ())), ld32 = (\<lambda>a h. (f a, ())),
      st8 = (\<lambda>a v h. ()), st16 = (\<lambda>a v h. ()), st32 = (\<lambda>a v h. ())\<rparr>"

lemma const_bus_simps [simp]:
  "rd8 (const_bus f) a s = (ucast (f a), s)" "rd16 (const_bus f) a s = (ucast (f a), s)"
  "rd32 (const_bus f) a s = (f a, s)"
  "wr8 (const_bus f) a x s = s" "wr16 (const_bus f) a w s = s" "wr32 (const_bus f) a v s = s"
  by (simp_all add: const_bus_def rd8_def rd16_def rd32_def wr8_def wr16_def wr32_def)

lemma const_bus_regs [simp]:
  "GET_REG (const_bus f) a s = (ucast (f a), s)" "SET_REG (const_bus f) a w s = s"
  "UPD_REG (const_bus f) a g s = s" "mod32 (const_bus f) a k s = s"
  by (simp_all add: GET_REG_def SET_REG_def UPD_REG_def mod32_def)

text \<open>A SETUP packet on endpoint 0: DFU_DETACH.\<close>

definition detach_regs :: "u32 \<Rightarrow> u32" where
  "detach_regs = (\<lambda>_. 0)(0x40005c44 := 0x8010, 0x40005c00 := 0x0A00, 0x40006008 := 0x20, 0x4000600C := 8, 0x40006040 := 0x21)"

lemma copy_words_numeral:
  "copy_words_from_pm b pm i (numeral k) s =
     (let (w, s1) = rd16 b (pm + 4 * of_nat i) s;
          (bs, s2) = copy_words_from_pm b pm (Suc i) (pred_numeral k) s1
      in (lo8 w # hi8 w # bs, s2))"
  by (simp add: numeral_eq_Suc)

lemma detach_setup:
  "fst (usbd_ep_read_packet (const_bus detach_regs) 0 8 s) = [0x21, 0, 0, 0, 0, 0, 0, 0]"
  for s :: "(unit, 'a) usb_world_scheme"
  by (simp add: usbd_ep_read_packet_def rx_min_def USB_GET_EP_RX_BUFF_def st_usbfs_copy_from_pm_def
      GET_BTABLE_ENTRY_def btable_entry_def USB_EP_REG_def detach_regs_def)
    (simp add: copy_words_numeral lo8_def hi8_def Let_def case_prod_beta)

lemma detach_poll:
  fixes s :: "(unit, 'm) usb_world_scheme"
  obtains s' where "do_usb_poll cfg (const_bus detach_regs) s = Some s'" "usbdfu_state s' = STATE_DFU_MANIFEST"
proof -
  let ?b = "const_bus detach_regs"
  have regs: "detach_regs 0x40005c44 = 0x8010" "detach_regs 0x40005c00 = 0x0A00"
    by (simp_all add: detach_regs_def)
  have poll: "do_usb_poll cfg ?b s = usbd_control_setup cfg ?b s"
    by (simp add: do_usb_poll_def regs usb_ctr_event_def clr_istr_if_def USB_EP_REG_def)
  obtain s2 where s2: "usbd_ep_read_packet ?b 0 8 (usbd_ep_nak_set ?b 0 1 (s\<lparr>usb_complete_cb := None\<rparr>)) =
      ([0x21, 0, 0, 0, 0, 0, 0, 0], s2)"
    using detach_setup [of "usbd_ep_nak_set ?b 0 1 (s\<lparr>usb_complete_cb := None\<rparr>)"] by (metis prod.collapse)
  have w: "usbdfu_state (snd (usbd_ep_write_packet ?b a src len t)) = usbdfu_state t" for a src len and t :: "(unit, 'm) usb_world_scheme"
    using kept_view(6) [of ?b a src len t] by (simp add: dfu_view_def)
  have "\<exists>s'. usbd_control_setup cfg ?b s = Some s' \<and> usbdfu_state s' = STATE_DFU_MANIFEST"
    by (simp add: usbd_control_setup_def s2 Let_def setup_overwrite_all setup_of_bytes_def mk16_def
        usb_control_setup_read_def usb_control_request_dispatch_def class_request_def usbdfu_control_request_def
        dfu_req_of_def case_prod_beta w ret_true_def)
  then show ?thesis using that poll by auto
qed

section \<open>Properties\<close>

text \<open>C19: a class request takes the transition of the state machine for its event, and where the
  machine has none for the present state, the state stays.\<close>

theorem class_transition:
  "let (r, len, cb, s') = usbdfu_control_request cfg b req (wLength req) s in
   case event_of req of
     None \<Rightarrow> usbdfu_state s' = usbdfu_state s
   | Some ev \<Rightarrow> dfu_trans ev (usbdfu_state s) (usbdfu_state s') \<or>
       usbdfu_state s' = usbdfu_state s \<and> (\<forall>st'. \<not> dfu_trans ev (usbdfu_state s) st')"
  by (auto simp only: Let_def split: prod.splits intro: request_trans)

text \<open>C15: on any hardware, one poll of the USB stack takes the DFU machine through at most one
  transition: that of the class request just received, or the end of the deferred operation.\<close>

theorem poll_refines:
  assumes "do_usb_poll cfg b s = Some s'"
  shows "usbdfu_state s' = usbdfu_state s \<or>
    (\<exists>ev. class_request (usb_req s') \<and> event_of (usb_req s') = Some ev \<and>
       dfu_trans ev (usbdfu_state s) (usbdfu_state s')) \<or>
    dfu_trans Operation_done (usbdfu_state s) (usbdfu_state s')"
  using poll_steps [OF assms] by (simp add: dfu_step_ok_def dfu_steps_def)

lemma poll_refines_witness:
  "\<exists>s' :: unit usb_world. do_usb_poll (cmake_build False) (const_bus detach_regs) (usb_boot () (\<lambda>_. 0)) = Some s' \<and>
    event_of (usb_req s') = Some Detach \<and> usbdfu_state s' = STATE_DFU_MANIFEST"
proof -
  let ?s = "usb_boot () (\<lambda>_. 0)"
  obtain s' where s': "do_usb_poll (cmake_build False) (const_bus detach_regs) ?s = Some s'"
    "usbdfu_state s' = STATE_DFU_MANIFEST"
    by (rule detach_poll)
  have "usbdfu_state ?s = STATE_DFU_IDLE" by (simp add: usb_boot_def)
  then have "event_of (usb_req s') = Some Detach"
    using poll_refines [OF s'(1)] s'(2) by (auto elim: dfu_transE)
  then show ?thesis using s' by blast
qed

end
