(* ===== verification/ClockUnit.thy ===== *)
theory ClockUnit
  imports Rcu FlashDrv
begin

text \<open>
  What the clock setup code needs from the clock unit, as a locale: an oscillator or the PLL is
  ready some time after it was enabled, the clock switch follows the request, and the status bits
  cannot be written. With it the busy waits of the clock code, once for all of them.
\<close>

section \<open>Waiting for status bits\<close>

abbreviation RCU_ADDCTL :: u32 where "RCU_ADDCTL \<equiv> 0x400210C0"

text \<open>\<open>while (!(*reg & mask)) ;\<close>\<close>

partial_function (option) wait_set ::
  "'h bus \<Rightarrow> u32 \<Rightarrow> u32 \<Rightarrow> ('h, 'm) world_scheme \<Rightarrow> ('h, 'm) world_scheme option" where
  "wait_set b reg msk s =
     (case rd32 b reg s of (v, s') \<Rightarrow> if v AND msk = 0 then wait_set b reg msk s' else Some s')"

text \<open>\<open>while (*reg & mask) ;\<close>\<close>

partial_function (option) wait_clear ::
  "'h bus \<Rightarrow> u32 \<Rightarrow> u32 \<Rightarrow> ('h, 'm) world_scheme \<Rightarrow> ('h, 'm) world_scheme option" where
  "wait_clear b reg msk s =
     (case rd32 b reg s of (v, s') \<Rightarrow> if v AND msk \<noteq> 0 then wait_clear b reg msk s' else Some s')"

lemma more_wait_set [frame]:
  assumes "wait_set b reg msk s = Some s'"
  shows "world.more s' = world.more s"
  by (induction rule: wait_set.raw_induct [OF _ assms, rotated])
    (auto split: prod.splits if_splits dest!: more_rd)

lemma more_wait_clear [frame]:
  assumes "wait_clear b reg msk s = Some s'"
  shows "world.more s' = world.more s"
  by (induction rule: wait_clear.raw_induct [OF _ assms, rotated])
    (auto split: prod.splits if_splits dest!: more_rd)

section \<open>The laws\<close>

text \<open>The status bits of a register, and what they are once everything has settled: ready bits above
  the enable bits, and in CFG0 the selected clock above the requested one.\<close>

definition rcu_ro :: "u32 \<Rightarrow> u32" where
  "rcu_ro a =
     (if a = rcu_reg RCU_CTL then 0x02020002 else if a = rcu_reg RCU_CFG0 then 0xC
      else if a = RCU_ADDCTL then 0x00020000 else 0)"

definition rcu_status :: "u32 \<Rightarrow> u32 \<Rightarrow> u32" where
  "rcu_status a v =
     (if a = rcu_reg RCU_CTL then push_bit 1 (v AND 0x01010001)
      else if a = rcu_reg RCU_CFG0 then push_bit 2 (v AND 3)
      else if a = RCU_ADDCTL then push_bit 1 (v AND 0x00010000) else 0)"

text \<open>\<open>cregs\<close> is what was written, without the status bits; \<open>lag\<close> bounds the number of loads until
  the status bits have settled.\<close>

locale clock_unit =
  fixes b :: "'h bus" and cregs :: "'h \<Rightarrow> u32 \<Rightarrow> u32" and lag :: "'h \<Rightarrow> nat" and R :: "u32 set"
  assumes load_written: "a \<in> R \<Longrightarrow> fst (ld32 b a h) AND NOT (rcu_ro a) = cregs h a"
    and load_settled: "a \<in> R \<Longrightarrow> lag h = 0 \<Longrightarrow> fst (ld32 b a h) = cregs h a OR rcu_status a (cregs h a)"
    and load_cregs: "cregs (snd (ld32 b a h)) = cregs h"
    and load_lag: "lag (snd (ld32 b a h)) = lag h - 1"
    and store_cregs: "a \<in> R \<Longrightarrow> cregs (st32 b a v h) = (cregs h)(a := v AND NOT (rcu_ro a))"
begin

lemma wait_set_ends:
  assumes "a \<in> R" "rcu_status a (cregs (hw s) a) AND msk \<noteq> 0"
  shows "\<exists>s'. wait_set b a msk s = Some s' \<and> cregs (hw s') = cregs (hw s) \<and> world.more s' = world.more s"
  using assms
proof (induction "lag (hw s)" arbitrary: s rule: less_induct)
  case less
  obtain v s1 where rd: "rd32 b a s = (v, s1)" by fastforce
  have v: "v = fst (ld32 b a (hw s))" and h1: "hw s1 = snd (ld32 b a (hw s))"
    and m1: "world.more s1 = world.more s"
    using rd fst_rd(3) [of b a s] hw_rd(3) [of b a s] more_ops(6) [of b a s] by auto
  show ?case
  proof (cases "v AND msk = 0")
    case False
    then show ?thesis using rd h1 m1 by (subst wait_set.simps) (simp add: load_cregs)
  next
    case True
    then have "lag (hw s) \<noteq> 0"
    proof (rule contrapos_pn)
      assume "lag (hw s) = 0"
      then have "v = cregs (hw s) a OR rcu_status a (cregs (hw s) a)"
        using load_settled [OF less.prems(1)] v by simp
      then have "v AND msk = 0 \<Longrightarrow> rcu_status a (cregs (hw s) a) AND msk = 0"
        by (simp add: bit.conj_disj_distrib2 or_eq_0_iff)
      then show "v AND msk \<noteq> 0" using less.prems(2) by blast
    qed
    then have "lag (hw s1) < lag (hw s)" by (simp add: h1 load_lag)
    then obtain s' where "wait_set b a msk s1 = Some s'" "cregs (hw s') = cregs (hw s1)"
      "world.more s' = world.more s1"
      using less.hyps [of s1] less.prems by (auto simp: h1 load_cregs)
    then show ?thesis using rd True h1 m1 by (subst wait_set.simps) (simp add: load_cregs)
  qed
qed

lemma wait_clear_ends:
  assumes "a \<in> R" "(cregs (hw s) a OR rcu_status a (cregs (hw s) a)) AND msk = 0"
  shows "\<exists>s'. wait_clear b a msk s = Some s' \<and> cregs (hw s') = cregs (hw s) \<and> world.more s' = world.more s"
  using assms
proof (induction "lag (hw s)" arbitrary: s rule: less_induct)
  case less
  obtain v s1 where rd: "rd32 b a s = (v, s1)" by fastforce
  have v: "v = fst (ld32 b a (hw s))" and h1: "hw s1 = snd (ld32 b a (hw s))"
    and m1: "world.more s1 = world.more s"
    using rd fst_rd(3) [of b a s] hw_rd(3) [of b a s] more_ops(6) [of b a s] by auto
  show ?case
  proof (cases "v AND msk = 0")
    case True
    then show ?thesis using rd h1 m1 by (subst wait_clear.simps) (simp add: load_cregs)
  next
    case False
    then have "lag (hw s) \<noteq> 0" using load_settled [OF less.prems(1)] v less.prems(2) by metis
    then have "lag (hw s1) < lag (hw s)" by (simp add: h1 load_lag)
    then obtain s' where "wait_clear b a msk s1 = Some s'" "cregs (hw s') = cregs (hw s1)"
      "world.more s' = world.more s1"
      using less.hyps [of s1] less.prems by (auto simp: h1 load_cregs)
    then show ?thesis using rd False h1 m1 by (subst wait_clear.simps) (simp add: load_cregs)
  qed
qed

text \<open>\<open>*reg op= x\<close> when the operation works on each bit alone.\<close>

lemma mod32_cregs:
  assumes "a \<in> R" "\<And>v. f v AND NOT (rcu_ro a) = f (v AND NOT (rcu_ro a)) AND NOT (rcu_ro a)"
  shows "cregs (hw (mod32 b a f s)) = (cregs (hw s))(a := f (cregs (hw s) a) AND NOT (rcu_ro a))"
  using assms(2) [of "fst (ld32 b a (hw s))"] assms(1)
  by (simp add: store_cregs load_cregs load_written)

lemma or_cregs [simp]:
  "a \<in> R \<Longrightarrow> cregs (hw (mod32 b a (\<lambda>v. v OR m) s)) =
    (cregs (hw s))(a := (cregs (hw s) a OR m) AND NOT (rcu_ro a))"
  by (rule mod32_cregs) (auto simp: bit_eq_iff bit_simps)

lemma rd32_cregs [simp]: "cregs (hw (snd (rd32 b a s))) = cregs (hw s)"
  by (simp add: load_cregs)

end

section \<open>One hardware that satisfies the laws\<close>

record clock_dev =
  ck_regs :: "u32 \<Rightarrow> u32"
  ck_lag :: nat

definition clock_ld32 :: "u32 \<Rightarrow> clock_dev \<Rightarrow> u32 \<times> clock_dev" where
  "clock_ld32 a d =
     ((ck_regs d a AND NOT (rcu_ro a)) OR
      (if ck_lag d = 0 then rcu_status a (ck_regs d a AND NOT (rcu_ro a)) else 0), d\<lparr>ck_lag := ck_lag d - 1\<rparr>)"

text \<open>Every store restarts the wait: the next \<open>n\<close> loads see no status bit.\<close>

definition clock_bus :: "nat \<Rightarrow> clock_dev bus" where
  "clock_bus n =
     \<lparr>ld8 = (\<lambda>a d. (0, d)), ld16 = (\<lambda>a d. (0, d)), ld32 = clock_ld32, st8 = (\<lambda>a x d. d),
      st16 = (\<lambda>a w d. d), st32 = (\<lambda>a v d. d\<lparr>ck_regs := (ck_regs d)(a := v), ck_lag := n\<rparr>)\<rparr>"

lemma rcu_status_ro: "rcu_status a v AND NOT (rcu_ro a) = 0"
  by (simp add: rcu_status_def rcu_ro_def) (auto simp: bit_eq_iff bit_simps)

interpretation clock: clock_unit "clock_bus n" "\<lambda>d a. ck_regs d a AND NOT (rcu_ro a)" ck_lag UNIV for n
proof (unfold_locales, goal_cases)
  case (1 a h)
  show ?case using rcu_status_ro [of a "ck_regs h a AND NOT (rcu_ro a)"]
    by (auto simp: clock_bus_def clock_ld32_def bit_eq_iff bit_simps)
qed (auto simp: clock_bus_def clock_ld32_def fun_eq_iff)

end
