(* ===== verification/SysClock.thy ===== *)
theory SysClock
  imports ClockUnit "HOL-Library.Signed_Division"
begin

text \<open>
  \<open>esprit_mini/lnRCU_systemClock_arm_gd32fx.cpp\<close> and \<open>lnRCU_armgd32.cpp\<close>: the clock tree of the
  library, its setup, and the prescaler of the USB clock. \<open>None\<close> is a failed \<open>xAssert\<close>, a read past
  the end of the multiplier table, or a busy wait that does not end.
\<close>

section \<open>Static variables\<close>

record 'h sysclk_world = "'h cpu_world" +
  rcuClockApb1 :: u32
  rcuClockApb2 :: u32
  jtagId :: u32
  usb48M :: bool

section \<open>Clock rates\<close>

definition lnPeripherals_getClock :: "Peripherals \<Rightarrow> ('h, 'm) sysclk_world_scheme \<Rightarrow> u32" where
  "lnPeripherals_getClock periph s =
     (case periph of
        pTIMER5 \<Rightarrow> rcuClockApb1 s * 2
      | pTIMER6 \<Rightarrow> rcuClockApb1 s * 2
      | pUART0 \<Rightarrow> rcuClockApb2 s
      | pTIMER0 \<Rightarrow> rcuClockApb2 s
      | pSPI0 \<Rightarrow> rcuClockApb2 s
      | pAF \<Rightarrow> rcuClockApb2 s
      | pADC0 \<Rightarrow> rcuClockApb2 s
      | pADC1 \<Rightarrow> rcuClockApb2 s
      | pAPB1 \<Rightarrow> rcuClockApb1 s
      | pAPB2 \<Rightarrow> rcuClockApb2 s
      | pSYSCLOCK \<Rightarrow> SystemCoreClock s
      | _ \<Rightarrow> rcuClockApb1 s)"

section \<open>Busy waits\<close>

definition waitControlBit :: "'h bus \<Rightarrow> u32 \<Rightarrow> ('h, 'm) world_scheme \<Rightarrow> ('h, 'm) world_scheme option" where
  "waitControlBit b m = wait_set b (rcu_reg RCU_CTL) m"

definition waitCfg0Bit :: "'h bus \<Rightarrow> u32 \<Rightarrow> ('h, 'm) world_scheme \<Rightarrow> ('h, 'm) world_scheme option" where
  "waitCfg0Bit b m = wait_set b (rcu_reg RCU_CFG0) m"

abbreviation LN_RCU_CTL_HXTALEN :: u32 where "LN_RCU_CTL_HXTALEN \<equiv> 0x10000"
abbreviation LN_RCU_CTL_HXTASTB :: u32 where "LN_RCU_CTL_HXTASTB \<equiv> 0x20000"
abbreviation LN_RCU_CTL_PLLEN :: u32 where "LN_RCU_CTL_PLLEN \<equiv> 0x1000000"
abbreviation LN_RCU_CTL_PLLSTB :: u32 where "LN_RCU_CTL_PLLSTB \<equiv> 0x2000000"
abbreviation LN_RCU_CFG0_SYSCLOCK_MASK :: u32 where "LN_RCU_CFG0_SYSCLOCK_MASK \<equiv> 3"
abbreviation LN_RCU_CFG0_SYSCLOCK_PLL :: u32 where "LN_RCU_CFG0_SYSCLOCK_PLL \<equiv> 2"
abbreviation LN_RCU_CFG0_PLLSEL :: u32 where "LN_RCU_CFG0_PLLSEL \<equiv> 0x10000"
abbreviation CLOCK_XTAL_VALUE :: int where "CLOCK_XTAL_VALUE \<equiv> 8"
abbreviation CLOCK_TARGET_PREDIV :: int where "CLOCK_TARGET_PREDIV \<equiv> 1"

section \<open>The PLL\<close>

definition Multipliers :: "int list" where
  "Multipliers =
     [0, 0, 0, 1, 2, 3, 4, 5, 6, 7, 8, 9, 10, 11, 12, 12, 14, 16, 17, 18, 19, 20, 21, 22, 23]"

text \<open>\<open>Multipliers[multiplier]\<close> after the assertion, which compares with the number of entries,
  unsigned.\<close>

definition multiplier_code :: "int \<Rightarrow> int option" where
  "multiplier_code multiplier =
     (if (word_of_int multiplier :: u32) > of_nat (length Multipliers) then None
      else if 0 \<le> multiplier \<and> nat multiplier < length Multipliers then Some (Multipliers ! nat multiplier)
      else None)"

text \<open>The new value of CFG0.\<close>

definition pll_cfg0 :: "u32 \<Rightarrow> bool \<Rightarrow> u32 \<Rightarrow> u32" where
  "pll_cfg0 pllMultiplier ext c0 =
     (let c1 = c0 AND NOT (push_bit 18 0xf);
          c2 = c1 OR push_bit 18 (pllMultiplier AND 0x0f);
          c3 = (if pllMultiplier AND 0x10 \<noteq> 0 then c2 OR push_bit 27 1 else c2 AND NOT (push_bit 27 1))
      in if ext then c3 OR LN_RCU_CFG0_PLLSEL else c3 AND NOT LN_RCU_CFG0_PLLSEL)"

definition setPll ::
  "'h bus \<Rightarrow> int \<Rightarrow> int \<Rightarrow> int \<Rightarrow> bool \<Rightarrow> ('h, 'm) sysclk_world_scheme \<Rightarrow>
     ('h, 'm) sysclk_world_scheme option" where
  "setPll b inputClock multiplier predivider ext s = do {
     let (c0, s1) = rd32 b (rcu_reg RCU_CFG0) s;
     let s2 = wr32 b (rcu_reg RCU_CFG1) 0 s1;
     pllMultiplier \<leftarrow> multiplier_code multiplier;
     let clk = word_of_int ((inputClock * multiplier * 1000000) sdiv predivider);
     let s3 = s2\<lparr>SystemCoreClock := clk, rcuClockApb1 := clk div 2, rcuClockApb2 := clk\<rparr>;
     let s4 = wr32 b (rcu_reg RCU_CFG0) (pll_cfg0 (word_of_int pllMultiplier) ext c0) s3;
     let s5 = mod32 b (rcu_reg RCU_CTL) (\<lambda>v. v OR LN_RCU_CTL_PLLEN) s4;
     waitControlBit b LN_RCU_CTL_PLLSTB s5
   }"

abbreviation LN_CLOCK_IRC8 :: nat where "LN_CLOCK_IRC8 \<equiv> 0"
abbreviation LN_CLOCK_XTAL :: nat where "LN_CLOCK_XTAL \<equiv> 16"
abbreviation LN_CLOCK_PLL :: nat where "LN_CLOCK_PLL \<equiv> 24"

definition enableDisableClock ::
  "'h bus \<Rightarrow> nat \<Rightarrow> bool \<Rightarrow> ('h, 'm) world_scheme \<Rightarrow> ('h, 'm) world_scheme option" where
  "enableDisableClock b clock enabled s =
     (let setBit = push_bit clock 1; statusBit = push_bit (clock + 1) 1 in
      if enabled
      then waitControlBit b statusBit (mod32 b (rcu_reg RCU_CTL) (\<lambda>v. v OR setBit) s)
      else Some (mod32 b (rcu_reg RCU_CTL) (\<lambda>v. v AND NOT setBit) s))"

section \<open>The setup of the clock tree\<close>

text \<open>\<open>mcu_speed\<close> is \<open>LN_MCU_SPEED\<close> of the build and \<open>internal\<close> its \<open>LN_USE_INTERNAL_CLOCK\<close>.\<close>

definition CLOCK_TARGET_SYSCLOCK :: "int \<Rightarrow> int" where
  "CLOCK_TARGET_SYSCLOCK mcu_speed = mcu_speed sdiv (1000 * 1000)"

text \<open>Everything off but the internal oscillator.\<close>

definition clock_fallback ::
  "'h bus \<Rightarrow> ('h, 'm) world_scheme \<Rightarrow> ('h, 'm) world_scheme option" where
  "clock_fallback b s = do {
     s \<leftarrow> enableDisableClock b LN_CLOCK_IRC8 True s;
     let s = mod32 b (rcu_reg RCU_CFG0) (\<lambda>v. v AND NOT LN_RCU_CFG0_SYSCLOCK_MASK) s;
     s \<leftarrow> wait_clear b (rcu_reg RCU_CFG0) (push_bit 2 LN_RCU_CFG0_SYSCLOCK_MASK) s;
     s \<leftarrow> enableDisableClock b LN_CLOCK_XTAL False s;
     enableDisableClock b LN_CLOCK_PLL False s
   }"

text \<open>The input of the PLL: the crystal, or half the internal oscillator.\<close>

definition clock_input ::
  "bool \<Rightarrow> 'h bus \<Rightarrow> ('h, 'm) world_scheme \<Rightarrow> (int \<times> ('h, 'm) world_scheme) option" where
  "clock_input internal b s =
     (if \<not> internal
      then do {
        s \<leftarrow> waitControlBit b LN_RCU_CTL_HXTASTB (mod32 b (rcu_reg RCU_CTL) (\<lambda>v. v OR LN_RCU_CTL_HXTALEN) s);
        Some (CLOCK_XTAL_VALUE, s)
      }
      else Some (8 sdiv 2, s))"

definition flash_wait_states :: "int \<Rightarrow> u32" where
  "flash_wait_states target = 0x30 + (if target > 48 then 2 else if target > 24 then 1 else 0)"

text \<open>Prescalers, flash wait states, and the switch to the PLL.\<close>

definition clock_finish ::
  "int \<Rightarrow> 'h bus \<Rightarrow> ('h, 'm) sysclk_world_scheme \<Rightarrow> ('h, 'm) sysclk_world_scheme" where
  "clock_finish mcu_speed b s =
     (let (v, s1) = rd32 b (rcu_reg RCU_CFG0) s;
          a1 = ((v AND NOT (push_bit 4 0xf) OR push_bit 4 0) AND NOT (push_bit 11 3)) OR push_bit 11 0;
          s2 = wr32 b (rcu_reg RCU_CFG0) a1 s1;
          a2 = (a1 AND NOT (push_bit 8 7)) OR push_bit 8 4;
          s3 = wr32 b (rcu_reg RCU_CFG0) a2 s2;
          s4 = (if lnCpuID_vendor s3 \<noteq> LN_VENDOR_GD
                then wr32 b 0x40022000 (flash_wait_states (CLOCK_TARGET_SYSCLOCK mcu_speed)) s3 else s3);
          a3 = (a2 AND NOT LN_RCU_CFG0_SYSCLOCK_MASK) OR LN_RCU_CFG0_SYSCLOCK_PLL;
          s5 = wr32 b (rcu_reg RCU_CFG0) a3 s4;
          (id, s6) = rd32 b 0xE0042000 s5;
          s7 = s6\<lparr>jtagId := id\<rparr>
      in wr32 b 0xE0042004 (push_bit 10 0xf + push_bit 15 1 + push_bit 16 0x1f + push_bit 25 0x3f) s7)"

definition lnInitSystemClock ::
  "int \<Rightarrow> bool \<Rightarrow> 'h bus \<Rightarrow> ('h, 'm) sysclk_world_scheme \<Rightarrow> ('h, 'm) sysclk_world_scheme option" where
  "lnInitSystemClock mcu_speed internal b s = do {
     s \<leftarrow> clock_fallback b (lnCpuID_identify b s);
     (inputClock, s) \<leftarrow> clock_input internal b s;
     let multiplier = CLOCK_TARGET_SYSCLOCK mcu_speed sdiv inputClock;
     s \<leftarrow> setPll b inputClock multiplier CLOCK_TARGET_PREDIV (\<not> internal) s;
     Some (clock_finish mcu_speed b s)
   }"

section \<open>The USB clock\<close>

abbreviation LN_RCU_CFG0_USBPSC_MASK :: u32 where "LN_RCU_CFG0_USBPSC_MASK \<equiv> NOT 0xC00000"

definition LN_RCU_CFG0_USBPSC :: "u32 \<Rightarrow> u32" where
  "LN_RCU_CFG0_USBPSC x = push_bit 22 (x AND 3)"

text \<open>The switches on the vendor and on \<open>scaler\<close>, twice the divider.\<close>

definition usb_prescaler :: "LN_VENDOR \<Rightarrow> int \<Rightarrow> u32 option" where
  "usb_prescaler vendor scaler =
     (case vendor of
        LN_VENDOR_STM \<Rightarrow> (if scaler = 3 then Some 0 else if scaler = 2 then Some 1 else None)
      | LN_VENDOR_GD \<Rightarrow>
          (if scaler = 3 then Some 0 else if scaler = 2 then Some 1 else if scaler = 5 then Some 2
           else if scaler = 4 then Some 3 else None)
      | _ \<Rightarrow> None)"

text \<open>The branch under \<open>LN_USE_INTERNAL_CLOCK\<close> names an enumerator that does not exist and cannot be
  built; this is the rest.\<close>

definition enableUsb48Mhz ::
  "'h bus \<Rightarrow> ('h, 'm) sysclk_world_scheme \<Rightarrow> ('h, 'm) sysclk_world_scheme option" where
  "enableUsb48Mhz b s0 =
     (if usb48M s0 then Some s0
      else do {
        let s = s0\<lparr>usb48M := True\<rparr>;
        let scaler = uint ((2 * lnPeripherals_getClock pSYSCLOCK s) div 48000000);
        x \<leftarrow> usb_prescaler (lnCpuID_vendor s) scaler;
        Some (mod32 b (rcu_reg RCU_CFG0)
                (\<lambda>cfg0. (cfg0 AND LN_RCU_CFG0_USBPSC_MASK) OR LN_RCU_CFG0_USBPSC x) s)
      })"

section \<open>What CFG0 says\<close>

text \<open>The factor of the PLL (reference manual of the GD32F303): four bits and a fifth one elsewhere;
  both 14 and 15 mean 16.\<close>

definition pll_code :: "u32 \<Rightarrow> nat" where
  "pll_code c = unat (take_bit 4 (drop_bit 18 c)) + (if bit c 27 then 16 else 0)"

definition pll_factor :: "u32 \<Rightarrow> nat" where
  "pll_factor c = (let k = pll_code c in if k < 14 then k + 2 else if k < 16 then 16 else k + 1)"

lemma bit_4_iff: "pm AND 0x10 \<noteq> 0 \<longleftrightarrow> bit pm 4" for pm :: u32
  using and_exp_eq_0_iff_not_bit [of pm 4] by simp

lemma one_bit:
  "bit (0x10000 :: u32) n \<longleftrightarrow> n = 16" "bit (0x8000000 :: u32) n \<longleftrightarrow> n = 27"
  "bit (0x3C0000 :: u32) n \<longleftrightarrow> 18 \<le> n \<and> n < 22" "bit (0xF :: u32) n \<longleftrightarrow> n < 4"
proof -
  have "bit (push_bit k 1 :: u32) n \<longleftrightarrow> n = k" if "k < 32" for k
    using that by (auto simp: bit_simps)
  from this [of 16] this [of 27]
  show "bit (0x10000 :: u32) n \<longleftrightarrow> n = 16" "bit (0x8000000 :: u32) n \<longleftrightarrow> n = 27" by simp_all
  have m: "(0xF :: u32) = mask 4" "(0x3C0000 :: u32) = push_bit 18 (mask 4)"
    by (simp_all add: mask_eq_exp_minus_1)
  show "bit (0x3C0000 :: u32) n \<longleftrightarrow> 18 \<le> n \<and> n < 22" "bit (0xF :: u32) n \<longleftrightarrow> n < 4"
    unfolding m by (auto simp: bit_simps)
qed

lemma bit_pll_cfg0:
  "bit (pll_cfg0 pm ext c0) n \<longleftrightarrow> n < 32 \<and>
     (if n = 16 then ext else if n = 27 then bit pm 4 else if 18 \<le> n \<and> n < 22 then bit pm (n - 18) else bit c0 n)"
proof -
  have k: "push_bit 18 0xf = (0x3C0000 :: u32)" "push_bit 27 1 = (0x8000000 :: u32)" by simp_all
  show ?thesis
    unfolding pll_cfg0_def Let_def bit_4_iff k
    by (cases "bit pm 4"; cases ext; simp only: bit_and_iff bit_or_iff bit_not_iff bit_push_bit_iff
        one_bit possible_bit_word if_True if_False) (auto dest: bit_imp_le_length)
qed

lemma pll_code_of_bits:
  fixes c pm :: u32
  assumes "\<And>n. n < 4 \<Longrightarrow> bit c (18 + n) = bit pm n" "bit c 27 = bit pm 4" "pm < 32"
  shows "pll_code c = unat pm"
proof -
  have lt: "take_bit 5 pm = pm"
  proof (rule unsigned_word_eqI [where 'a = nat])
    have "unat pm < 2 ^ 5" using assms(3) by (simp add: word_less_nat_alt)
    then show "unat (take_bit 5 pm) = unat pm" by (simp add: unsigned_take_bit_eq take_bit_nat_eq_self)
  qed
  have "take_bit 4 (drop_bit 18 c) = take_bit 4 pm"
    by (rule bit_word_eqI) (use assms(1) in \<open>auto simp: bit_simps\<close>)
  moreover have "unat pm = unat (take_bit 4 pm) + (if bit pm 4 then 16 else 0)"
  proof -
    have "unat pm = take_bit (Suc 4) (unat pm)"
      using arg_cong [OF lt, of unat] by (simp add: unsigned_take_bit_eq eval_nat_numeral)
    also have "\<dots> = take_bit 4 (unat pm) + (if bit (unat pm) 4 then 16 else 0)"
      by (subst take_bit_Suc_from_most) simp
    finally show ?thesis by (simp add: unsigned_take_bit_eq bit_unsigned_iff)
  qed
  ultimately show ?thesis using assms(2) by (simp add: pll_code_def)
qed

lemma multiplier_code_cases:
  assumes "multiplier_code m = Some code"
  shows "0 \<le> m \<and> m < 25 \<and> code = Multipliers ! nat m"
  using assms by (auto simp: multiplier_code_def Multipliers_def split: if_splits)

definition pll_meaning :: "nat \<Rightarrow> nat" where
  "pll_meaning k = (if k < 14 then k + 2 else if k < 16 then 16 else k + 1)"

lemma multiplier_table:
  "list_all (\<lambda>k. 0 \<le> Multipliers ! k \<and> Multipliers ! k < 32 \<and>
    pll_meaning (nat (Multipliers ! k)) = (if k = 15 then 14 else k)) [2..<25]"
  by code_simp

lemma multiplier_factor:
  assumes "multiplier_code m = Some code" "2 \<le> m"
  shows "0 \<le> code \<and> code < 32 \<and> pll_meaning (nat code) = (if m = 15 then 14 else nat m)"
proof -
  have "nat m \<in> set [2..<25]" unfolding set_upt atLeastLessThan_iff
    using multiplier_code_cases [OF assms(1)] assms(2) by linarith
  then have "0 \<le> Multipliers ! nat m \<and> Multipliers ! nat m < 32 \<and>
    pll_meaning (nat (Multipliers ! nat m)) = (if nat m = 15 then 14 else nat m)"
    using multiplier_table unfolding list_all_iff by blast
  moreover have "nat m = 15 \<longleftrightarrow> m = 15" by auto
  ultimately show ?thesis using multiplier_code_cases [OF assms(1)] by simp
qed

lemma pll_cfg0_factor:
  assumes "multiplier_code m = Some code" "2 \<le> m"
    and "\<And>n. 16 \<le> n \<Longrightarrow> bit c n = bit (pll_cfg0 (word_of_int code) ext c0) n"
  shows "pll_factor c = (if m = 15 then 14 else nat m)" "bit c 16 = ext"
proof -
  have code: "0 \<le> code" "code < 32" and m: "pll_meaning (nat code) = (if m = 15 then 14 else nat m)"
    using multiplier_factor [OF assms(1, 2)] by auto
  have u: "uint (word_of_int code :: u32) = code"
    using code by (simp add: uint_word_of_int_eq take_bit_int_eq_self)
  then have "(word_of_int code :: u32) < 32" using code by (simp add: word_less_def)
  then have "pll_code c = unat (word_of_int code :: u32)"
    using assms(3) by (intro pll_code_of_bits) (simp_all add: bit_pll_cfg0)
  then have "pll_code c = nat code" using u by (simp add: unat_eq_nat_uint)
  then show "pll_factor c = (if m = 15 then 14 else nat m)"
    using m by (simp add: pll_factor_def pll_meaning_def Let_def)
  show "bit c 16 = ext" using assms(3) [of 16] by (simp add: bit_pll_cfg0)
qed

section \<open>The setup on a clock unit\<close>

lemma sysclk_more_eq:
  fixes s s' :: "('h, 'm) sysclk_world_scheme"
  assumes "world.more s' = world.more s"
  shows "rcuClockApb1 s' = rcuClockApb1 s" "rcuClockApb2 s' = rcuClockApb2 s"
    "SystemCoreClock s' = SystemCoreClock s" "cpu_vendor s' = cpu_vendor s"
  using assms by (cases s; cases s'; simp)+

definition sysclk_regs :: "u32 set" where
  "sysclk_regs = {0x40021000, 0x40021004, 0x4002102C, 0x40022000, 0xE0042004}"

lemma sysclk_regsD:
  assumes "sysclk_regs \<subseteq> R"
  shows "0x40021000 \<in> R" "0x40021004 \<in> R" "0x4002102C \<in> R" "0x40022000 \<in> R" "0xE0042004 \<in> R"
  using assms by (auto simp: sysclk_regs_def)

lemma cleared: "((x AND NOT a) AND NOT c) AND a = 0" "(x AND NOT c) AND c = 0" for x :: u32
  by (auto simp: bit_eq_iff bit_simps)

context clock_unit begin

lemma cregs_identify [simp]: "cregs (hw (lnCpuID_identify b s)) = cregs (hw s)"
  by (simp add: lnCpuID_identify_def Let_def case_prod_beta load_cregs)

lemma ready_bit:
  assumes "bit v n" "n \<in> {0, 16, 24}"
  shows "rcu_status 0x40021000 v AND push_bit (n + 1) 1 \<noteq> 0"
proof -
  have "bit (0x01010001 :: u32) n" using assms(2) by auto
  moreover have "rcu_status 0x40021000 v = push_bit 1 (v AND 0x01010001)" by (simp add: rcu_status_def)
  ultimately have "bit (rcu_status 0x40021000 v) (n + 1)"
    using assms by (auto simp only: bit_push_bit_iff bit_and_iff possible_bit_word) auto
  then show ?thesis
    using and_exp_eq_0_iff_not_bit [of "rcu_status 0x40021000 v" "n + 1"] by (simp add: push_bit_eq_mult)
qed

lemma ctl_bits: "bit (v AND NOT (rcu_ro 0x40021000)) n \<longleftrightarrow> bit v n \<and> n \<notin> {1, 17, 25}"
proof -
  have "rcu_ro 0x40021000 = push_bit 1 1 OR push_bit 17 1 OR push_bit 25 1" by (simp add: rcu_ro_def)
  then show ?thesis
    using bit_imp_le_length [of v n]
    by (auto simp only: bit_and_iff bit_not_iff bit_or_iff bit_push_bit_iff bit_1_iff possible_bit_word)
qed

lemma enable_ends:
  assumes "0x40021000 \<in> R" "n \<in> {0, 16, 24}"
  shows "\<exists>s'. waitControlBit b (push_bit (n + 1) 1) (mod32 b 0x40021000 (\<lambda>v. v OR push_bit n 1) s) = Some s' \<and>
    cregs (hw s') = (cregs (hw s))(0x40021000 := (cregs (hw s) 0x40021000 OR push_bit n 1) AND NOT (rcu_ro 0x40021000)) \<and>
    world.more s' = world.more s"
proof -
  let ?s = "mod32 b 0x40021000 (\<lambda>v. v OR push_bit n 1) s"
  have c: "cregs (hw ?s) = (cregs (hw s))(0x40021000 := (cregs (hw s) 0x40021000 OR push_bit n 1) AND NOT (rcu_ro 0x40021000))"
    by (rule or_cregs [OF assms(1)])
  have "bit (cregs (hw ?s) 0x40021000) n"
    unfolding c using assms(2) by (auto simp: ctl_bits bit_or_iff bit_push_bit_iff simp del: push_bit_numeral)
  from wait_set_ends [OF assms(1) ready_bit [OF this assms(2)]] show ?thesis
    using c by (auto simp: waitControlBit_def)
qed

lemma disable_clock:
  assumes "0x40021000 \<in> R"
  shows "cregs (hw (mod32 b 0x40021000 (\<lambda>v. v AND NOT m) s)) =
    (cregs (hw s))(0x40021000 := (cregs (hw s) 0x40021000 AND NOT m) AND NOT (rcu_ro 0x40021000))"
  by (rule mod32_cregs [OF assms]) (auto simp: bit_eq_iff bit_and_iff)

lemma fallback_ends:
  assumes R: "sysclk_regs \<subseteq> R"
  shows "\<exists>s'. clock_fallback b s = Some s' \<and> bit (cregs (hw s') 0x40021000) 0 \<and> world.more s' = world.more s"
proof -
  note r = sysclk_regsD [OF R]
  obtain s1 where s1: "waitControlBit b 2 (mod32 b 0x40021000 (\<lambda>v. v OR 1) s) = Some s1"
    "cregs (hw s1) = (cregs (hw s))(0x40021000 := (cregs (hw s) 0x40021000 OR 1) AND NOT (rcu_ro 0x40021000))"
    "world.more s1 = world.more s"
    using enable_ends [OF r(1), of 0 s] by auto
  define s2 where "s2 = mod32 b 0x40021004 (\<lambda>v. v AND NOT LN_RCU_CFG0_SYSCLOCK_MASK) s1"
  have s2: "cregs (hw s2) = (cregs (hw s1))(0x40021004 := (cregs (hw s1) 0x40021004 AND NOT 3) AND NOT (rcu_ro 0x40021004))"
    unfolding s2_def by (rule mod32_cregs [OF r(2)]) (auto simp: bit_eq_iff bit_and_iff)
  have ro: "rcu_ro 0x40021004 = 0xC" by (simp add: rcu_ro_def)
  have "cregs (hw s2) 0x40021004 AND 3 = 0" "cregs (hw s2) 0x40021004 AND 0xC = 0"
    unfolding s2 ro fun_upd_same by (rule cleared)+
  then have "(cregs (hw s2) 0x40021004 OR rcu_status 0x40021004 (cregs (hw s2) 0x40021004)) AND 0xC = 0"
    by (simp add: rcu_status_def)
  from wait_clear_ends [OF r(2) this] obtain s3 where s3: "wait_clear b 0x40021004 0xC s2 = Some s3"
    "cregs (hw s3) = cregs (hw s2)" "world.more s3 = world.more s2" by blast
  define s4 where "s4 = mod32 b 0x40021000 (\<lambda>v. v AND NOT 0x1000000) (mod32 b 0x40021000 (\<lambda>v. v AND NOT 0x10000) s3)"
  have "clock_fallback b s = Some s4"
    using s1(1) s3(1) by (simp add: clock_fallback_def enableDisableClock_def s2_def s4_def)
  moreover have "bit (cregs (hw s4) 0x40021000) 0"
    unfolding s4_def disable_clock [OF r(1)] s3(2) s2 s1(2)
    by (simp add: ctl_bits bit_and_iff bit_or_iff bit_not_iff rcu_ro_def del: and_not_numerals)
  moreover have "world.more s4 = world.more s" using s1 s3 by (simp add: s4_def s2_def)
  ultimately show ?thesis by blast
qed

lemma input_ends:
  assumes R: "sysclk_regs \<subseteq> R" and on: "bit (cregs (hw s) 0x40021000) 0"
  shows "\<exists>s'. clock_input internal b s = Some (if internal then 4 else 8, s') \<and>
    bit (cregs (hw s') 0x40021000) (if internal then 0 else 16) \<and> world.more s' = world.more s"
  using enable_ends [OF sysclk_regsD(1) [OF R], of 16 s] on
  by (cases internal) (auto simp: clock_input_def ctl_bits bit_or_iff one_bit)

lemma setPll_ends:
  assumes R: "sysclk_regs \<subseteq> R" and code: "multiplier_code m = Some code" and "n \<in> {0, 16}"
    and on: "bit (cregs (hw s) 0x40021000) n"
  shows "\<exists>s'. setPll b inp m 1 ext s = Some s' \<and>
    cregs (hw s') 0x40021004 = pll_cfg0 (word_of_int code) ext (cregs (hw s) 0x40021004) AND NOT (rcu_ro 0x40021004) \<and>
    bit (cregs (hw s') 0x40021000) n \<and> bit (cregs (hw s') 0x40021000) 24 \<and>
    cregs (hw s') 0x4002102C = 0 \<and>
    SystemCoreClock s' = word_of_int (inp * m * 1000000) \<and> cpu_vendor s' = cpu_vendor s"
proof -
  note r = sysclk_regsD [OF R]
  let ?clk = "word_of_int (inp * m * 1000000) :: u32"
  obtain c0 s1 where s1: "rd32 b 0x40021004 s = (c0, s1)" by fastforce
  have c0: "c0 AND NOT (rcu_ro 0x40021004) = cregs (hw s) 0x40021004"
    using load_written [OF r(2), of "hw s"] fst_rd(3) [of b "0x40021004" s] s1 by simp
  have h1: "cregs (hw s1) = cregs (hw s)" "world.more s1 = world.more s"
    using rd32_cregs [of "0x40021004" s] more_ops(6) [of b "0x40021004" s] s1 by simp_all
  define s3 where "s3 = (wr32 b 0x4002102C 0 s1)\<lparr>SystemCoreClock := ?clk, rcuClockApb1 := ?clk div 2, rcuClockApb2 := ?clk\<rparr>"
  define s4 where "s4 = wr32 b 0x40021004 (pll_cfg0 (word_of_int code) ext c0) s3"
  have "bit (pll_cfg0 (word_of_int code) ext c0 AND NOT (rcu_ro 0x40021004)) k =
      bit (pll_cfg0 (word_of_int code) ext (cregs (hw s) 0x40021004) AND NOT (rcu_ro 0x40021004)) k" for k
    unfolding c0 [symmetric] by (auto simp: bit_pll_cfg0 bit_and_iff)
  then have pll: "pll_cfg0 (word_of_int code) ext c0 AND NOT (rcu_ro 0x40021004) =
      pll_cfg0 (word_of_int code) ext (cregs (hw s) 0x40021004) AND NOT (rcu_ro 0x40021004)"
    by (simp add: bit_eq_iff)
  have h4: "cregs (hw s4) = (cregs (hw s))(0x4002102C := 0,
      0x40021004 := pll_cfg0 (word_of_int code) ext (cregs (hw s) 0x40021004) AND NOT (rcu_ro 0x40021004))"
    using r pll by (simp add: s4_def s3_def store_cregs h1)
  obtain s5 where s5: "waitControlBit b 0x2000000 (mod32 b 0x40021000 (\<lambda>v. v OR 0x1000000) s4) = Some s5"
    "cregs (hw s5) = (cregs (hw s4))(0x40021000 := (cregs (hw s4) 0x40021000 OR 0x1000000) AND NOT (rcu_ro 0x40021000))"
    "world.more s5 = world.more s4"
    using enable_ends [OF r(1), of 24 s4] by auto
  have "setPll b inp m 1 ext s = Some s5"
    using s1 s5(1) code by (simp add: setPll_def Let_def s4_def s3_def)
  moreover have "SystemCoreClock s5 = ?clk" "cpu_vendor s5 = cpu_vendor s"
  proof -
    have "SystemCoreClock s4 = SystemCoreClock s3" "cpu_vendor s4 = cpu_vendor s3"
      by (rule sysclk_more_eq; simp add: s4_def)+
    moreover have "cpu_vendor (wr32 b 0x4002102C 0 s1) = cpu_vendor s"
      by (rule sysclk_more_eq) (simp add: h1)
    ultimately show "SystemCoreClock s5 = ?clk" "cpu_vendor s5 = cpu_vendor s"
      using sysclk_more_eq(3, 4) [OF s5(3)] by (simp_all add: s3_def)
  qed
  moreover have "bit (cregs (hw s5) 0x40021000) n" "bit (cregs (hw s5) 0x40021000) 24"
    using on assms(3) by (auto simp: s5(2) h4 ctl_bits bit_or_iff)
  ultimately show ?thesis by (auto simp: s5(2) h4)
qed

end

text \<open>What the last part makes of CFG0.\<close>

definition finish_cfg0 :: "u32 \<Rightarrow> u32" where
  "finish_cfg0 v =
     (((((v AND NOT (push_bit 4 0xf) OR push_bit 4 0) AND NOT (push_bit 11 3)) OR push_bit 11 0)
        AND NOT (push_bit 8 7)) OR push_bit 8 4) AND NOT 3 OR 2"

lemma bit_field: "k + l \<le> 32 \<Longrightarrow> bit (push_bit k (mask l) :: u32) n \<longleftrightarrow> k \<le> n \<and> n < k + l"
  by (auto simp: bit_simps)

lemma field_bits:
  "bit (0xF0 :: u32) n \<longleftrightarrow> 4 \<le> n \<and> n < 8" "bit (0x1800 :: u32) n \<longleftrightarrow> 11 \<le> n \<and> n < 13"
  "bit (0x700 :: u32) n \<longleftrightarrow> 8 \<le> n \<and> n < 11" "bit (3 :: u32) n \<longleftrightarrow> n < 2"
  "bit (0x400 :: u32) n \<longleftrightarrow> 10 \<le> n \<and> n < 11" "bit (2 :: u32) n \<longleftrightarrow> 1 \<le> n \<and> n < 2"
  "bit (0xC :: u32) n \<longleftrightarrow> 2 \<le> n \<and> n < 4"
proof -
  note f = bit_field [of _ _ n]
  have m: "push_bit 4 (mask 4) = (0xF0 :: u32)" "push_bit 11 (mask 2) = (0x1800 :: u32)"
    "push_bit 8 (mask 3) = (0x700 :: u32)" "push_bit 0 (mask 2) = (3 :: u32)"
    "push_bit 10 (mask 1) = (0x400 :: u32)" "push_bit 1 (mask 1) = (2 :: u32)"
    "push_bit 2 (mask 2) = (0xC :: u32)"
    by (simp_all add: mask_eq_exp_minus_1)
  show "bit (0xF0 :: u32) n \<longleftrightarrow> 4 \<le> n \<and> n < 8" using f [of 4 4] unfolding m by simp
  show "bit (0x1800 :: u32) n \<longleftrightarrow> 11 \<le> n \<and> n < 13" using f [of 11 2] unfolding m by simp
  show "bit (0x700 :: u32) n \<longleftrightarrow> 8 \<le> n \<and> n < 11" using f [of 8 3] unfolding m by simp
  show "bit (3 :: u32) n \<longleftrightarrow> n < 2" using f [of 0 2] unfolding m by (simp add: numeral_2_eq_2)
  show "bit (0x400 :: u32) n \<longleftrightarrow> 10 \<le> n \<and> n < 11" using f [of 10 1] unfolding m by simp
  show "bit (2 :: u32) n \<longleftrightarrow> 1 \<le> n \<and> n < 2" using f [of 1 1] unfolding m by (simp add: numeral_2_eq_2)
  show "bit (0xC :: u32) n \<longleftrightarrow> 2 \<le> n \<and> n < 4" using f [of 2 2] unfolding m by simp
qed

lemma bit_ro_cfg0: "bit (rcu_ro 0x40021004) n \<longleftrightarrow> 2 \<le> n \<and> n < 4"
  by (simp add: rcu_ro_def field_bits del: bit_numeral_word_iff)

lemma bit_finish_cfg0:
  "bit (finish_cfg0 (v :: u32)) n \<longleftrightarrow> n < 32 \<and> (n = 1 \<or> n = 10 \<or> 13 \<le> n \<and> bit v n \<or> n \<in> {2, 3} \<and> bit v n)"
proof -
  have k: "push_bit 4 0xf = (0xF0 :: u32)" "push_bit 11 3 = (0x1800 :: u32)" "push_bit 8 7 = (0x700 :: u32)"
    "push_bit 8 4 = (0x400 :: u32)" "push_bit 4 0 = (0 :: u32)" "push_bit 11 0 = (0 :: u32)" by simp_all
  have "bit v n \<Longrightarrow> n < 32" using bit_imp_le_length [of v n] by simp
  then show ?thesis
    unfolding finish_cfg0_def k
    by (cases "bit v n"; simp only: bit_and_iff bit_or_iff bit_not_iff possible_bit_word field_bits
        bit_0_eq bot_apply bot_bool_def simp_thms insert_iff empty_iff len_num1 len_bit0 len_bit1)
      presburger+
qed

context clock_unit begin

lemma finish_regs:
  assumes R: "sysclk_regs \<subseteq> R"
  shows "cregs (hw (clock_finish speed b s)) = (cregs (hw s))
    (0x40021004 := finish_cfg0 (cregs (hw s) 0x40021004) AND NOT (rcu_ro 0x40021004),
     0x40022000 := if cpu_vendor s \<noteq> LN_VENDOR_GD
       then flash_wait_states (CLOCK_TARGET_SYSCLOCK speed) else cregs (hw s) 0x40022000,
     0xE0042004 := 0x7E1FBC00)"
proof -
  note r = sysclk_regsD [OF R]
  obtain v s1 where s1: "rd32 b 0x40021004 s = (v, s1)" by fastforce
  have v: "v AND NOT (rcu_ro 0x40021004) = cregs (hw s) 0x40021004"
    using load_written [OF r(2), of "hw s"] fst_rd(3) [of b "0x40021004" s] s1 by simp
  have h1: "cregs (hw s1) = cregs (hw s)" "world.more s1 = world.more s"
    using rd32_cregs [of "0x40021004" s] more_ops(6) [of b "0x40021004" s] s1 by simp_all
  have vendor: "cpu_vendor (wr32 b 0x40021004 y (wr32 b 0x40021004 x s1)) = cpu_vendor s" for x y
    by (rule sysclk_more_eq) (simp add: h1)
  have "bit (finish_cfg0 v AND NOT (rcu_ro 0x40021004)) k =
      bit (finish_cfg0 (cregs (hw s) 0x40021004) AND NOT (rcu_ro 0x40021004)) k" for k
    unfolding v [symmetric] by (auto simp: bit_finish_cfg0 bit_and_iff)
  then have fin: "finish_cfg0 v AND NOT (rcu_ro 0x40021004) =
      finish_cfg0 (cregs (hw s) 0x40021004) AND NOT (rcu_ro 0x40021004)"
    by (simp add: bit_eq_iff)
  have ro: "rcu_ro 0x40022000 = 0" "rcu_ro 0xE0042004 = 0" by (simp_all add: rcu_ro_def)
  show ?thesis
    unfolding clock_finish_def Let_def rcu_reg.simps s1 prod.case finish_cfg0_def [symmetric]
    by (simp add: case_prod_beta lnCpuID_vendor_def vendor store_cregs load_cregs r h1 fin ro fun_upd_twist
        split del: if_split) (auto simp: store_cregs r h1 ro fun_eq_iff)
qed

lemma init_clock_ends:
  assumes R: "sysclk_regs \<subseteq> R" and inp: "inp = (if internal then 4 else 8)"
    and m: "m = CLOCK_TARGET_SYSCLOCK speed sdiv inp" "2 \<le> m" "m < 25"
  shows "\<exists>s'. lnInitSystemClock speed internal b s = Some s' \<and>
    cregs (hw s') 0x40021004 AND 3 = 2 \<and> pll_factor (cregs (hw s') 0x40021004) = (if m = 15 then 14 else nat m) \<and>
    bit (cregs (hw s') 0x40021004) 16 = (\<not> internal) \<and>
    bit (cregs (hw s') 0x40021000) 24 \<and> bit (cregs (hw s') 0x40021000) (if internal then 0 else 16) \<and>
    SystemCoreClock s' = word_of_int (inp * m * 1000000)"
proof -
  obtain s1 where s1: "clock_fallback b (lnCpuID_identify b s) = Some s1" "bit (cregs (hw s1) 0x40021000) 0"
    using fallback_ends [OF R, of "lnCpuID_identify b s"] by blast
  obtain s2 where s2: "clock_input internal b s1 = Some (inp, s2)"
    "bit (cregs (hw s2) 0x40021000) (if internal then 0 else 16)"
    using input_ends [OF R s1(2), of internal] inp by auto
  obtain code where code: "multiplier_code m = Some code"
    using m(2, 3) by (auto simp: multiplier_code_def Multipliers_def word_less_def uint_word_of_int_eq
        take_bit_int_eq_self nat_less_iff)
  obtain s3 where s3: "setPll b inp m 1 (\<not> internal) s2 = Some s3"
    "cregs (hw s3) 0x40021004 = pll_cfg0 (word_of_int code) (\<not> internal) (cregs (hw s2) 0x40021004) AND NOT (rcu_ro 0x40021004)"
    "bit (cregs (hw s3) 0x40021000) (if internal then 0 else 16)" "bit (cregs (hw s3) 0x40021000) 24"
    "SystemCoreClock s3 = word_of_int (inp * m * 1000000)"
  proof -
    have "(if internal then 0 else 16) \<in> {0, 16 :: nat}" by simp
    from setPll_ends [OF R code this s2(2)] show ?thesis using that by blast
  qed
  let ?c = "finish_cfg0 (cregs (hw s3) 0x40021004) AND NOT (rcu_ro 0x40021004)"
  have high: "bit ?c n = bit (pll_cfg0 (word_of_int code) (\<not> internal) (cregs (hw s2) 0x40021004)) n" if "16 \<le> n" for n
    using that by (auto simp: s3(2) bit_and_iff bit_not_iff bit_finish_cfg0 bit_ro_cfg0 bit_pll_cfg0
        dest: bit_imp_le_length)
  have "?c AND 3 = 2"
  proof (rule bit_word_eqI)
    fix n
    show "bit (?c AND 3) n = bit (2 :: u32) n"
      by (auto simp: bit_and_iff bit_not_iff bit_finish_cfg0 bit_ro_cfg0 field_bits
          simp del: bit_numeral_word_iff)
  qed
  moreover have "SystemCoreClock (clock_finish speed b s3) = SystemCoreClock s3"
  proof -
    have rd: "SystemCoreClock (snd (rd32 b a t)) = SystemCoreClock t"
      "SystemCoreClock (wr32 b a w t) = SystemCoreClock t" for a w and t :: "('h, 'c) sysclk_world_scheme"
      by (rule sysclk_more_eq; simp)+
    show ?thesis by (simp add: clock_finish_def Let_def case_prod_beta rd)
  qed
  moreover have "lnInitSystemClock speed internal b s = Some (clock_finish speed b s3)"
    using s1(1) s2(1) s3(1) m(1) by (simp add: lnInitSystemClock_def)
  ultimately show ?thesis
    using pll_cfg0_factor [OF code m(2) high] s3(3-5) by (simp add: finish_regs [OF R])
qed

end

section \<open>Properties\<close>

text \<open>C30: on a clock unit whose oscillators start and whose switch follows, the clock setup ends: the
  system clock is the PLL, fed by the configured oscillator, and its factor is the requested
  multiplier, with one exception: the table has 12 where 15 needs 13, so that 14 is set for 15.
  The recorded clock rate is the requested one.\<close>

theorem clock_setup_correct:
  assumes "clock_unit b cregs lag R" "sysclk_regs \<subseteq> R" "inp = (if internal then 4 else 8)"
    and "m = CLOCK_TARGET_SYSCLOCK speed sdiv inp" "2 \<le> m" "m < 25"
  shows "\<exists>s'. lnInitSystemClock speed internal b s = Some s' \<and>
    cregs (hw s') 0x40021004 AND 3 = 2 \<and> pll_factor (cregs (hw s') 0x40021004) = (if m = 15 then 14 else nat m) \<and>
    bit (cregs (hw s') 0x40021004) 16 = (\<not> internal) \<and>
    bit (cregs (hw s') 0x40021000) 24 \<and> bit (cregs (hw s') 0x40021000) (if internal then 0 else 16) \<and>
    SystemCoreClock s' = word_of_int (inp * m * 1000000)"
  by (rule clock_unit.init_clock_ends) (rule assms)+

definition clock_demo :: "clock_dev sysclk_world" where
  "clock_demo =
     \<lparr>hw = \<lparr>ck_regs = (\<lambda>a. 0), ck_lag = 0\<rparr>, cpu_mcu = LN_MCU_UNKNOWN, cpu_vendor = LN_VENDOR_UNKOWN,
      cpu_cpuId = 0, cpu_flashSize = 0, cpu_ramSize = 0, SystemCoreClock = 0,
      rcuClockApb1 = 54000000, rcuClockApb2 = 108000000, jtagId = 0, usb48M = False\<rparr>"

text \<open>72 MHz from the crystal, and the 120 MHz of the exception.\<close>

lemma clock_setup_correct_witness:
  "(\<exists>s'. lnInitSystemClock 72000000 False (clock_bus 5) clock_demo = Some s' \<and>
     pll_factor (ck_regs (hw s') 0x40021004 AND NOT (rcu_ro 0x40021004)) = 9) \<and>
   (\<exists>s'. lnInitSystemClock 120000000 False (clock_bus 5) clock_demo = Some s' \<and>
     pll_factor (ck_regs (hw s') 0x40021004 AND NOT (rcu_ro 0x40021004)) = 14 \<and> SystemCoreClock s' = 120000000)"
  using clock_setup_correct [OF clock.clock_unit_axioms, of 8 False 9 72000000 5 clock_demo]
    clock_setup_correct [OF clock.clock_unit_axioms, of 8 False 15 120000000 5 clock_demo]
  by (auto simp: CLOCK_TARGET_SYSCLOCK_def)

text \<open>Twice the divider of the USB prescaler (reference manual of the GD32F303).\<close>

definition usb_divider :: "u32 \<Rightarrow> int" where
  "usb_divider cfg0 = [3, 2, 5, 4] ! unat (take_bit 2 (drop_bit 22 cfg0))"

lemma usb_divider_set:
  assumes "x < 4"
  shows "usb_divider ((c AND LN_RCU_CFG0_USBPSC_MASK) OR LN_RCU_CFG0_USBPSC x) = [3, 2, 5, 4] ! unat x"
proof -
  have x: "take_bit 2 x = x"
  proof (rule unsigned_word_eqI [where 'a = nat])
    have "unat x < 2 ^ 2" using assms by (simp add: word_less_nat_alt)
    then show "unat (take_bit 2 x) = unat x" by (simp add: unsigned_take_bit_eq take_bit_nat_eq_self)
  qed
  have k: "(0xC00000 :: u32) = push_bit 22 (mask 2)" "(3 :: u32) = mask 2" by (simp_all add: mask_eq_exp_minus_1)
  have "take_bit 2 (drop_bit 22 ((c AND LN_RCU_CFG0_USBPSC_MASK) OR LN_RCU_CFG0_USBPSC x)) = take_bit 2 x"
    unfolding LN_RCU_CFG0_USBPSC_def k by (rule bit_word_eqI) (auto simp: bit_simps)
  then show ?thesis by (simp add: usb_divider_def x)
qed

text \<open>C31: the USB clock is set up from the recorded system clock only when twice its rate is 2, 3, 4
  or 5 times 48 MHz up to rounding down, and the divider stored in CFG0 is that number: the clock of
  the peripheral is at least 48 MHz, and exact only when the division has no remainder. Everything
  else fails the assertion.\<close>

theorem usb_clock_bounds:
  assumes "clock_unit b cregs lag R" "0x40021004 \<in> R" "\<not> usb48M s" "enableUsb48Mhz b s = Some s'"
  shows "let k = usb_divider (cregs (hw s') 0x40021004); f = uint (2 * SystemCoreClock s)
    in k \<in> {2, 3, 4, 5} \<and> 48000000 * k \<le> f \<and> f < 48000000 * (k + 1) \<and>
       (cpu_vendor s = LN_VENDOR_STM \<longrightarrow> k \<in> {2, 3})"
proof -
  define f where "f = uint (2 * SystemCoreClock s)"
  obtain x where x: "usb_prescaler (cpu_vendor s) (f div 48000000) = Some x"
    and s': "s' = mod32 b 0x40021004 (\<lambda>c. (c AND LN_RCU_CFG0_USBPSC_MASK) OR LN_RCU_CFG0_USBPSC x) (s\<lparr>usb48M := True\<rparr>)"
    using assms(3, 4)
    by (auto simp: enableUsb48Mhz_def lnPeripherals_getClock_def lnCpuID_vendor_def uint_div f_def
        bind_eq_Some_conv Let_def)
  have x4: "x < 4" and k: "[3, 2, 5, 4] ! unat x = f div 48000000" "f div 48000000 \<in> {2, 3, 4, 5}"
    "cpu_vendor s = LN_VENDOR_STM \<Longrightarrow> f div 48000000 \<in> {2, 3}"
    using x by (auto simp: usb_prescaler_def split: LN_VENDOR.splits if_splits)
  have same: "usb_divider (c AND NOT (rcu_ro 0x40021004)) = usb_divider c" for c
  proof -
    have "take_bit 2 (drop_bit 22 (c AND NOT (rcu_ro 0x40021004))) = take_bit 2 (drop_bit 22 c)"
      by (rule bit_word_eqI)
        (auto simp: bit_take_bit_iff bit_drop_bit_eq bit_and_iff bit_not_iff bit_ro_cfg0 dest: bit_imp_le_length)
    then show ?thesis by (simp only: usb_divider_def)
  qed
  have "cregs (hw s') 0x40021004 =
      ((cregs (hw s) 0x40021004 AND LN_RCU_CFG0_USBPSC_MASK) OR LN_RCU_CFG0_USBPSC x) AND NOT (rcu_ro 0x40021004)"
    unfolding s' by (subst clock_unit.mod32_cregs [OF assms(1, 2)]) (auto simp: bit_eq_iff bit_and_iff bit_or_iff)
  then have "usb_divider (cregs (hw s') 0x40021004) = f div 48000000"
    using usb_divider_set [OF x4] k(1) same by simp
  moreover have "48000000 * (f div 48000000) \<le> f" "f < 48000000 * (f div 48000000 + 1)"
    by simp_all
  ultimately show ?thesis using k(2, 3) by (simp add: Let_def f_def [symmetric])
qed

text \<open>At 72 MHz the USB clock is exact; 80 MHz passes as well, and gives 53.3 MHz.\<close>

lemma usb_clock_bounds_witness:
  "(\<exists>s'. enableUsb48Mhz (clock_bus 0) (clock_demo\<lparr>cpu_vendor := LN_VENDOR_STM, SystemCoreClock := 80000000\<rparr>) = Some s' \<and>
     usb_divider (ck_regs (hw s') 0x40021004 AND NOT (rcu_ro 0x40021004)) \<in> {2, 3, 4, 5})"
proof -
  let ?s = "clock_demo\<lparr>cpu_vendor := LN_VENDOR_STM, SystemCoreClock := 80000000\<rparr>"
  obtain s' where s': "enableUsb48Mhz (clock_bus 0) ?s = Some s'"
    by (simp add: enableUsb48Mhz_def clock_demo_def lnPeripherals_getClock_def lnCpuID_vendor_def usb_prescaler_def)
  have "\<not> usb48M ?s" by (simp add: clock_demo_def)
  from usb_clock_bounds [OF clock.clock_unit_axioms _ this s'] s' show ?thesis by (auto simp: Let_def)
qed

end
