(* ===== verification/WordLoops.thy ===== *)
theory WordLoops
  imports Soc
begin

text \<open>
  The loops of the two start-up routines: words copied and words cleared, and what they do to the
  memories of a system as in \<open>Soc\<close>.
\<close>

section \<open>The loops\<close>

text \<open>\<open>while (p < lim) *p++ = 0\<close> and \<open>while (dst < lim) *dst++ = *src++\<close>.\<close>

partial_function (option) bss_loop ::
  "'h bus \<Rightarrow> u32 \<Rightarrow> u32 \<Rightarrow> ('h, 'm) world_scheme \<Rightarrow> ('h, 'm) world_scheme option" where
  "bss_loop b lim p s = (if p < lim then bss_loop b lim (p + 4) (wr32 b p 0 s) else Some s)"

partial_function (option) data_loop ::
  "'h bus \<Rightarrow> u32 \<Rightarrow> u32 \<Rightarrow> u32 \<Rightarrow> ('h, 'm) world_scheme \<Rightarrow> ('h, 'm) world_scheme option" where
  "data_loop b lim src dst s =
     (if dst < lim then
        (let (v, s1) = rd32 b src s in data_loop b lim (src + 4) (dst + 4) (wr32 b dst v s1))
      else Some s)"

lemma more_bss_loop:
  assumes "bss_loop b lim p s = Some s'"
  shows "world.more s' = world.more s"
  by (induction rule: bss_loop.raw_induct [OF _ assms, rotated]) (auto split: if_splits)

lemma bss_loop_ends:
  assumes "unat lim + 4 \<le> 2 ^ 32"
  shows "\<exists>s'. bss_loop b lim p s = Some s'"
proof (induction "unat lim - unat p" arbitrary: p s rule: less_induct)
  case less
  show ?case
  proof (cases "p < lim")
    case True
    then have "unat (p + 4) = unat p + 4" using assms by (simp add: word_less_nat_alt unat_word_ariths(1))
    then have "unat lim - unat (p + 4) < unat lim - unat p" using True by (simp add: word_less_nat_alt)
    then show ?thesis using less.hyps True by (subst bss_loop.simps) simp
  next
    case False
    then show ?thesis by (subst bss_loop.simps) simp
  qed
qed

section \<open>Words put into memory\<close>

fun put_words :: "(u32 \<Rightarrow> u8) \<Rightarrow> u32 \<Rightarrow> u32 list \<Rightarrow> u32 \<Rightarrow> u8" where
  "put_words m a [] = m"
| "put_words m a (w # ws) = put_words (put_word m a w) (a + 4) ws"

lemma put_word_other: "x \<notin> span a 4 \<Longrightarrow> put_word m a v x = m x"
  by (simp add: put_word_def span_word)

lemma span_4_Suc: "span a (4 * Suc n) = span a 4 \<union> span (a + 4) (4 * n)"
proof -
  have "{..< 4 * Suc n} = {..< 4} \<union> (\<lambda>k. 4 + k) ` {..< 4 * n}"
  proof (intro set_eqI iffI)
    fix x assume "x \<in> {..< 4 * Suc n}"
    then show "x \<in> {..< 4} \<union> (\<lambda>k. 4 + k) ` {..< 4 * n}"
      by (cases "x < 4") (auto intro!: image_eqI [of _ _ "x - 4"])
  qed auto
  then show ?thesis by (simp add: span_def image_Un image_image add.assoc)
qed

lemma put_words_other: "x \<notin> span a (4 * length ws) \<Longrightarrow> put_words m a ws x = m x"
proof (induction ws arbitrary: m a)
  case (Cons w ws)
  then have "x \<notin> span a 4" "x \<notin> span (a + 4) (4 * length ws)" by (simp_all add: span_4_Suc del: mult_Suc_right)
  then show ?case using Cons.IH by (simp add: put_word_other)
qed simp

lemma word_at_cong: "(\<And>x. x \<in> span a 4 \<Longrightarrow> m x = m' x) \<Longrightarrow> word_at m a = word_at m' a"
  by (simp add: word_at_def span_word)

lemma words_at_cong:
  assumes "\<And>x. x \<in> span a (4 * n) \<Longrightarrow> m x = m' x"
  shows "words_at m a n = words_at m' a n"
  using assms
proof (induction n arbitrary: a)
  case (Suc n)
  then show ?case
    using word_at_cong [of a m m'] by (simp add: words_at_Suc span_4_Suc del: mult_Suc_right)
qed (simp add: words_at_def)

lemma unat_plus_4n:
  fixes p :: u32
  assumes "unat p + 4 * n < 2 ^ 32"
  shows "unat (p + 4 * of_nat n) = unat p + 4 * n"
proof -
  have "unat (4 * of_nat n :: u32) = 4 * n"
    using assms unsigned_of_nat [of "4 * n", where 'b = 32 and 'a = nat] by (simp add: take_bit_nat_eq_self)
  then show ?thesis using assms by (simp add: unat_word_ariths(1))
qed

lemma next_word:
  fixes p :: u32
  assumes "unat p + 4 * Suc n < 2 ^ 32"
  shows "p < p + 4 * of_nat (Suc n)" "unat (p + 4) + 4 * n < 2 ^ 32"
    "p + 4 * of_nat (Suc n) = p + 4 + 4 * of_nat n"
proof -
  show "p < p + 4 * of_nat (Suc n)" unfolding word_less_nat_alt unat_plus_4n [OF assms] by simp
  have "unat (p + 4) = unat p + 4" using assms by (simp add: unat_word_ariths)
  then show "unat (p + 4) + 4 * n < 2 ^ 32" using assms by simp
qed (simp add: algebra_simps)

context soc begin

lemma bss_clears:
  assumes "unat p + 4 * n < 2 ^ 32" "span p (4 * n) \<subseteq> W"
  shows "\<exists>s'. bss_loop b (p + 4 * of_nat n) p s = Some s' \<and>
    mem (hw s') = put_words (mem (hw s)) p (replicate n 0) \<and> world.more s' = world.more s"
  using assms
proof (induction n arbitrary: p s)
  case 0
  then show ?case by (subst bss_loop.simps) simp
next
  case (Suc n)
  note nxt = next_word [OF Suc.prems(1)]
  have W: "span p 4 \<subseteq> W" "span (p + 4) (4 * n) \<subseteq> W" using Suc.prems(2) unfolding span_4_Suc by blast+
  obtain s' where "bss_loop b (p + 4 + 4 * of_nat n) (p + 4) (wr32 b p 0 s) = Some s'"
    "mem (hw s') = put_words (mem (hw (wr32 b p 0 s))) (p + 4) (replicate n 0)"
    "world.more s' = world.more (wr32 b p 0 s)"
    using Suc.IH [OF nxt(2) W(2), of "wr32 b p 0 s"] by blast
  moreover have "bss_loop b (p + 4 * of_nat (Suc n)) p s = bss_loop b (p + 4 + 4 * of_nat n) (p + 4) (wr32 b p 0 s)"
    using nxt(1) unfolding nxt(3) by (subst bss_loop.simps) (simp only: if_True)
  ultimately show ?case using store_ram [OF W(1)] by simp
qed

lemma data_copies:
  assumes "unat dst + 4 * n < 2 ^ 32" "span dst (4 * n) \<subseteq> W" "span src (4 * n) \<subseteq> M"
    and "span src (4 * n) \<inter> span dst (4 * n) = {}"
  shows "\<exists>s'. data_loop b (dst + 4 * of_nat n) src dst s = Some s' \<and>
    mem (hw s') = put_words (mem (hw s)) dst (words_at (mem (hw s)) src n) \<and> world.more s' = world.more s"
  using assms
proof (induction n arbitrary: src dst s)
  case 0
  then show ?case by (subst data_loop.simps) (simp add: words_at_def)
next
  case (Suc n)
  note nxt = next_word [OF Suc.prems(1)]
  have W: "span dst 4 \<subseteq> W" "span (dst + 4) (4 * n) \<subseteq> W" and M: "span src 4 \<subseteq> M" "span (src + 4) (4 * n) \<subseteq> M"
    and dis: "span (src + 4) (4 * n) \<inter> span (dst + 4) (4 * n) = {}" "span (src + 4) (4 * n) \<inter> span dst 4 = {}"
    using Suc.prems(2-4) unfolding span_4_Suc by blast+
  let ?s = "wr32 b dst (fst (rd32 b src s)) (snd (rd32 b src s))"
  obtain s' where s': "data_loop b (dst + 4 + 4 * of_nat n) (src + 4) (dst + 4) ?s = Some s'"
    "mem (hw s') = put_words (mem (hw ?s)) (dst + 4) (words_at (mem (hw ?s)) (src + 4) n)"
    "world.more s' = world.more ?s"
    using Suc.IH [OF nxt(2) W(2) M(2) dis(1), of ?s] by blast
  have m: "mem (hw ?s) = put_word (mem (hw s)) dst (word_at (mem (hw s)) src)"
    using store_ram [OF W(1)] mem_value [OF M(1)] by simp
  have "words_at (mem (hw ?s)) (src + 4) n = words_at (mem (hw s)) (src + 4) n"
    unfolding m using dis(2) by (intro words_at_cong) (auto intro: put_word_other)
  moreover have "data_loop b (dst + 4 * of_nat (Suc n)) src dst s =
      data_loop b (dst + 4 + 4 * of_nat n) (src + 4) (dst + 4) ?s"
    using nxt(1) unfolding nxt(3) by (subst data_loop.simps) (simp only: if_True Let_def case_prod_beta)
  ultimately show ?case using s' m by (simp add: words_at_Suc)
qed

end

end
