(* ===== verification/Stage2.thy ===== *)
theory Stage2
  imports DfuStates SysClock Gpio WordLoops
begin

text \<open>
  The second stage around the USB stack: \<open>src_stage2/clocking.h\<close>, \<open>usb_init\<close> of \<open>usb.cpp\<close>, and
  the setup and main loop of \<open>dfu.cpp\<close>. \<open>None\<close> is a computation that does not go on: a busy wait
  for a clock that never gets ready, or the operations of the USB stack that do not end.
\<close>

section \<open>Clocks\<close>

abbreviation FLASH_ACR :: u32 where "FLASH_ACR \<equiv> fmc_reg FMC_WS"
abbreviation RCC_CR :: u32 where "RCC_CR \<equiv> rcu_reg RCU_CTL"
abbreviation RCC_CFGR :: u32 where "RCC_CFGR \<equiv> rcu_reg RCU_CFG0"
abbreviation RCC_CFGR_HPRE_SYSCLK_NODIV :: u32 where "RCC_CFGR_HPRE_SYSCLK_NODIV \<equiv> 0"
abbreviation RCC_CFGR_PPRE1_HCLK_DIV2 :: u32 where "RCC_CFGR_PPRE1_HCLK_DIV2 \<equiv> 4"
abbreviation RCC_CFGR_PPRE2_HCLK_NODIV :: u32 where "RCC_CFGR_PPRE2_HCLK_NODIV \<equiv> 0"
abbreviation RCC_CFGR_ADCPRE_PCLK2_DIV8 :: u32 where "RCC_CFGR_ADCPRE_PCLK2_DIV8 \<equiv> 3"
abbreviation RCC_CFGR_PLLMUL_PLL_CLK_MUL9 :: u32 where "RCC_CFGR_PLLMUL_PLL_CLK_MUL9 \<equiv> 7"
abbreviation RCC_CFGR_PLLSRC_HSE_CLK :: u32 where "RCC_CFGR_PLLSRC_HSE_CLK \<equiv> 1"
abbreviation RCC_CFGR_PLLSRC_HSI_DIV2 :: u32 where "RCC_CFGR_PLLSRC_HSI_DIV2 \<equiv> 0"
abbreviation RCC_CFGR_PLLXTPRE_HSE_CLK :: u32 where "RCC_CFGR_PLLXTPRE_HSE_CLK \<equiv> 0"
abbreviation RCC_CFGR_SW :: u32 where "RCC_CFGR_SW \<equiv> 3"
abbreviation RCC_CFGR_SW_SYSCLKSEL_PLLCLK :: u32 where "RCC_CFGR_SW_SYSCLKSEL_PLLCLK \<equiv> 2"
abbreviation RCC_CR_HSEON :: u32 where "RCC_CR_HSEON \<equiv> 0x10000"
abbreviation RCC_CR_HSERDY :: u32 where "RCC_CR_HSERDY \<equiv> 0x20000"
abbreviation RCC_CR_PLLON :: u32 where "RCC_CR_PLLON \<equiv> 0x1000000"
abbreviation RCC_CR_PLLRDY :: u32 where "RCC_CR_PLLRDY \<equiv> 0x2000000"

text \<open>Prescalers, multiplier and source of the PLL in one value.\<close>

definition clock_cfgr :: "u32 \<Rightarrow> u32 \<Rightarrow> u32" where
  "clock_cfgr pllsrc cfgr =
     (cfgr AND 0xFF00000F) OR
     (push_bit 4 RCC_CFGR_HPRE_SYSCLK_NODIV OR push_bit 8 RCC_CFGR_PPRE1_HCLK_DIV2 OR
      push_bit 11 RCC_CFGR_PPRE2_HCLK_NODIV OR push_bit 14 RCC_CFGR_ADCPRE_PCLK2_DIV8 OR
      push_bit 18 RCC_CFGR_PLLMUL_PLL_CLK_MUL9 OR push_bit 16 pllsrc OR
      push_bit 17 RCC_CFGR_PLLXTPRE_HSE_CLK)"

text \<open>What the two clock setups share: prescalers, flash wait states, PLL on, and the switch.\<close>

definition clock_pll ::
  "'h bus \<Rightarrow> u32 \<Rightarrow> ('h, 'm) world_scheme \<Rightarrow> ('h, 'm) world_scheme option" where
  "clock_pll b pllsrc s = do {
     let s1 = mod32 b RCC_CFGR (clock_cfgr pllsrc) s;
     let s2 = mod32 b FLASH_ACR (\<lambda>v. (v AND NOT 7) OR 2) s1;
     let s3 = mod32 b RCC_CR (\<lambda>v. v OR RCC_CR_PLLON) s2;
     s4 \<leftarrow> wait_set b RCC_CR RCC_CR_PLLRDY s3;
     Some (mod32 b RCC_CFGR (\<lambda>v. (v AND NOT RCC_CFGR_SW) OR RCC_CFGR_SW_SYSCLKSEL_PLLCLK) s4)
   }"

definition clock_setup_in_hsi_48mhz ::
  "'h bus \<Rightarrow> ('h, 'm) world_scheme \<Rightarrow> ('h, 'm) world_scheme option" where
  "clock_setup_in_hsi_48mhz b s = do {
     s1 \<leftarrow> clock_pll b RCC_CFGR_PLLSRC_HSI_DIV2 s;
     s2 \<leftarrow> wait_set b RCU_ADDCTL 0x20000 (mod32 b RCU_ADDCTL (\<lambda>v. v OR 0x10000) s1);
     Some (mod32 b RCU_ADDCTL (\<lambda>v. v OR 1) s2)
   }"

definition clock_setup_in_hse_8mhz_out_72mhz ::
  "'h bus \<Rightarrow> ('h, 'm) world_scheme \<Rightarrow> ('h, 'm) world_scheme option" where
  "clock_setup_in_hse_8mhz_out_72mhz b s = do {
     s1 \<leftarrow> wait_set b RCC_CR RCC_CR_HSERDY (mod32 b RCC_CR (\<lambda>v. v OR RCC_CR_HSEON) s);
     clock_pll b RCC_CFGR_PLLSRC_HSE_CLK s1
   }"

section \<open>Start of the USB peripheral\<close>

text \<open>The short waits (\<open>WAIT_A_BIT\<close>, 100 nops) have no effect in the model.\<close>

definition usb_init :: "'h bus \<Rightarrow> ('h, 'm) world_scheme \<Rightarrow> ('h, 'm) world_scheme" where
  "usb_init b s =
     (let s1 = lnPeripherals_enable b pUSB s;
          s2 = lnPeripherals_reset b pUSB s1;
          s3 = mod32 b USB_CNTR_REG (\<lambda>v. v AND NOT 2) s2;
          s4 = mod32 b USB_CNTR_REG (\<lambda>v. v AND NOT 1) s3;
          s5 = SET_REG b USB_CNTR_REG 0 s4;
          s6 = SET_REG b USB_BTABLE_REG 0 s5;
          s7 = SET_REG b USB_ISTR_REG 0 s6
      in SET_REG b USB_CNTR_REG
           (USB_CNTR_RESETM OR USB_CNTR_CTRM OR USB_CNTR_SUSPM OR USB_CNTR_WKUPM) s7)"

section \<open>Setup\<close>

definition setupForUsb ::
  "build \<Rightarrow> 'h bus \<Rightarrow> ('h, 'm) dfu_world_scheme \<Rightarrow> ('h, 'm) dfu_world_scheme option" where
  "setupForUsb cfg b s = do {
     let s = (if is_gd32 s then s\<lparr>gd32 := True\<rparr> else s);
     s \<leftarrow> (if USE_GD32_CRYSTALLESS cfg then clock_setup_in_hsi_48mhz b s
          else clock_setup_in_hse_8mhz_out_72mhz b s);
     let s = lnPeripherals_enable b pAF (lnPeripherals_enable b pGPIOC
               (lnPeripherals_enable b pGPIOB (lnPeripherals_enable b pGPIOA s)));
     let s = s\<lparr>sysTick := 0\<rparr>;
     let s = wr32 b portNVIC_SYSTICK_CTRL_REG 0 s;
     let s = wr32 b portNVIC_SYSTICK_CURRENT_VALUE_REG 0 s;
     let s = wr32 b portNVIC_SYSTICK_LOAD_REG (configSYSTICK_CLOCK_HZ cfg div configTICK_RATE_HZ - 1) s;
     let s = wr32 b portNVIC_SYSTICK_CTRL_REG
               (portNVIC_SYSTICK_CLK_BIT OR portNVIC_SYSTICK_INT_BIT OR portNVIC_SYSTICK_ENABLE_BIT) s;
     let s = lnPeripherals_enable b pUSB s;
     Some (wr32 b USB_CNTR_REG USB_CNTR_PWDN s)
   }"

definition LED :: "build \<Rightarrow> int" where
  "LED cfg = (if USE_GD32_CRYSTALLESS cfg then lnPin PortA 0 else lnPin PortC 13)"

abbreviation LED2 :: int where "LED2 \<equiv> lnPin PortA 8"
abbreviation LED3 :: int where "LED3 \<equiv> lnPin PortB 13"

text \<open>\<open>speed0\<close> and \<open>value0\<close> are what \<open>lnPinMode\<close> finds in its uninitialised variables; \<open>ticks\<close> says
  how many tick interrupts come between two polls of the delay loop.\<close>

definition usb_reenumerate ::
  "u32 \<Rightarrow> u32 \<Rightarrow> (nat \<Rightarrow> nat) \<Rightarrow> 'h bus \<Rightarrow> ('h, 'm) dfu_world_scheme \<Rightarrow> ('h, 'm) dfu_world_scheme option" where
  "usb_reenumerate speed0 value0 ticks b s = do {
     s \<leftarrow> lnPinMode speed0 value0 b (lnPin PortA 12) lnOUTPUT 0 s;
     s \<leftarrow> lnDigitalWrite b (lnPin PortA 12) False s;
     (now, _) \<leftarrow> lnDelay ticks 300 (sysTick s);
     let s = s\<lparr>sysTick := now\<rparr>;
     s \<leftarrow> lnDigitalWrite b (lnPin PortA 12) True s;
     lnPinMode speed0 value0 b (lnPin PortA 12) lnINPUT_FLOATING 0 s
   }"

text \<open>\<open>runDfu\<close> up to its loop.\<close>

definition runDfu_setup ::
  "u32 \<Rightarrow> u32 \<Rightarrow> (nat \<Rightarrow> nat) \<Rightarrow> build \<Rightarrow> 'h bus \<Rightarrow> ('h, 'm) dfu_world_scheme \<Rightarrow>
     ('h, 'm) dfu_world_scheme option" where
  "runDfu_setup speed0 value0 ticks cfg b s = do {
     s \<leftarrow> usb_reenumerate speed0 value0 ticks b s;
     let (sn, s) = get_dev_unique_id b s;
     s \<leftarrow> prepare_memory_layout (s\<lparr>serial_no := sn\<rparr>);
     let s = usb_init b s;
     s \<leftarrow> lnPinMode speed0 value0 b (LED cfg) lnOUTPUT 0 s;
     s \<leftarrow> lnPinMode speed0 value0 b LED2 lnOUTPUT 0 s;
     s \<leftarrow> lnPinMode speed0 value0 b LED3 lnOUTPUT 0 s;
     Some (s\<lparr>nextTick := sysTick s + 100\<rparr>)
   }"

section \<open>The entry point\<close>

text \<open>The loop \<open>bss_loop\<close> zeroes the words between the two symbols of the linker. The static variables
  kept in the state record live in that range; \<open>clear_statics\<close> says what the loop makes of them:
  those without initial value, or with initial value 0, are zero. Only \<open>usbdfu_state\<close> starts with
  another value (\<open>STATE_DFU_IDLE\<close>) and is part of the copied image. The control buffer ends at the
  address \<open>buffer_end\<close>, which the linker chooses; what follows it is zeroed too, up to the end of the range.\<close>

definition cleared_beyond :: "u32 \<Rightarrow> u32 \<Rightarrow> (nat \<Rightarrow> u8) \<Rightarrow> nat \<Rightarrow> u8" where
  "cleared_beyond bss_end buffer_end m k = (if unat buffer_end + k < unat bss_end then 0 else m k)"

definition clear_statics :: "u32 \<Rightarrow> u32 \<Rightarrow> ('h, 'm) usb_world_scheme \<Rightarrow> ('h, 'm) usb_world_scheme" where
  "clear_statics bss_end buffer_end s =
     s\<lparr>cpu_mcu := LN_MCU_UNKNOWN, cpu_vendor := LN_VENDOR_UNKOWN, cpu_cpuId := 0, cpu_flashSize := 0,
       cpu_ramSize := 0, cached_size := 0, safe_erased := False,
       usbd_control_buffer := replicate DFU_TRANSFER_SIZE 0,
       ram_beyond := cleared_beyond bss_end buffer_end (ram_beyond s), prog_buf := replicate DFU_TRANSFER_SIZE 0,
       prog_len := 0, prog_addr := 0, prog_blocknum := 0, gd32 := False, sysTick := 0, nextTick := 0,
       serial_no := replicate 26 0, memory_layout := replicate 64 0,
       usb_fsm_state := IDLE, datasize := 0, dataoff := 0, usb_pm_top := 0, usb_needs_zlp := 0,
       usb_req := \<lparr>bmRequestType = 0, bRequest = 0, wValue = 0, wIndex = 0, wLength = 0\<rparr>,
       usb_force_nak := replicate 8 0, usb_complete_cb := None\<rparr>"

definition stage2_entry ::
  "u32 \<Rightarrow> u32 \<Rightarrow> (nat \<Rightarrow> nat) \<Rightarrow> u32 \<Rightarrow> u32 \<Rightarrow> u32 \<Rightarrow> build \<Rightarrow> 'h bus \<Rightarrow> ('h, 'm) usb_world_scheme \<Rightarrow>
     ('h, 'm) usb_world_scheme option" where
  "stage2_entry speed0 value0 ticks bss_start bss_end buffer_end cfg b s = do {
     s \<leftarrow> bss_loop b bss_end bss_start s;
     let s = lnCpuID_identify b (clear_statics bss_end buffer_end s);
     s \<leftarrow> setupForUsb cfg b s;
     runDfu_setup speed0 value0 ticks cfg b s
   }"

section \<open>The main loop\<close>

definition full_system_reset :: "'h bus \<Rightarrow> ('h, 'm) world_scheme \<Rightarrow> ('h, 'm) world_scheme" where
  "full_system_reset b s = wr32 b 0xE000ED0C (0x05FA0000 OR 0x4) s"

text \<open>An iteration either goes on, with the next LED level, or has asked for a reset and spins.\<close>

datatype 's main_outcome = Loops bool 's | Resets 's

definition blink ::
  "build \<Rightarrow> 'h bus \<Rightarrow> bool \<Rightarrow> ('h, 'm) usb_world_scheme \<Rightarrow> (bool \<times> ('h, 'm) usb_world_scheme) option" where
  "blink cfg b led s =
     (if sysTick s > nextTick s then do {
        let s = s\<lparr>nextTick := nextTick s + 100\<rparr>;
        s \<leftarrow> lnDigitalWrite b (LED cfg) led s;
        s \<leftarrow> lnDigitalWrite b LED2 led s;
        s \<leftarrow> lnDigitalWrite b LED3 led s;
        Some (\<not> led, s)
      } else Some (led, s))"

definition runDfu_iteration ::
  "build \<Rightarrow> 'h bus \<Rightarrow> bool \<Rightarrow> ('h, 'm) usb_world_scheme \<Rightarrow> ('h, 'm) usb_world_scheme main_outcome option" where
  "runDfu_iteration cfg b led s = do {
     s1 \<leftarrow> do_usb_poll cfg b s;
     if usbdfu_state s1 = STATE_DFU_MANIFEST then Some (Resets (full_system_reset b s1))
     else map_option (\<lambda>(led', s2). Loops led' s2) (blink cfg b led s1)
   }"

text \<open>The running system: between two iterations the tick interrupt may come and the hardware may
  do anything.\<close>

inductive main_step ::
  "build \<Rightarrow> 'h bus \<Rightarrow> bool \<times> ('h, 'm) usb_world_scheme \<Rightarrow> bool \<times> ('h, 'm) usb_world_scheme \<Rightarrow> bool"
  for cfg b where
  tick_irq: "main_step cfg b (led, s) (led, s\<lparr>sysTick := tick (sysTick s)\<rparr>)"
| hardware: "main_step cfg b (led, s) (led, s\<lparr>hw := h\<rparr>)"
| iteration: "runDfu_iteration cfg b led s = Some (Loops led' s') \<Longrightarrow> main_step cfg b (led, s) (led', s')"

inductive_cases main_stepE: "main_step cfg b (led, s) (led', s')"

section \<open>What the setup leaves alone\<close>

lemma more_clock_pll:
  "clock_pll b src s = Some s' \<Longrightarrow> world.more s' = world.more s"
  by (auto simp: clock_pll_def Let_def bind_eq_Some_conv dest!: more_wait_set)

lemma more_clock_setup:
  "clock_setup_in_hsi_48mhz b s = Some s' \<Longrightarrow> world.more s' = world.more s"
  "clock_setup_in_hse_8mhz_out_72mhz b s = Some s' \<Longrightarrow> world.more s' = world.more s"
  by (auto simp: clock_setup_in_hsi_48mhz_def clock_setup_in_hse_8mhz_out_72mhz_def bind_eq_Some_conv
      dest!: more_wait_set more_clock_pll)

lemma more_usb_init [simp]: "world.more (usb_init b s) = world.more s"
  by (simp add: usb_init_def Let_def)

lemma length_put: "put buf i v = Some buf' \<Longrightarrow> length buf' = length buf"
  by (auto simp: put_def split: if_splits)

lemma length_xstrcpy_from: "xstrcpy_from tgt i src = Some tgt' \<Longrightarrow> length tgt' = length tgt"
  by (induction src arbitrary: tgt i)
    (auto simp: bind_eq_Some_conv dest: length_put split: if_splits)

lemma length_xstr:
  "xstrcpy tgt src = Some tgt' \<Longrightarrow> length tgt' = length tgt"
  "xstrcat tgt src = Some tgt' \<Longrightarrow> length tgt' = length tgt"
  by (auto simp: xstrcpy_def xstrcat_def bind_eq_Some_conv dest: length_xstrcpy_from)

lemma prepare_memory_layout_only:
  assumes "prepare_memory_layout s = Some s'"
  shows "\<exists>m. length m = length (memory_layout s) \<and> s' = (snd (get_flash_page_size s))\<lparr>memory_layout := m\<rparr>"
proof -
  have "memory_layout (snd (get_flash_page_size s)) = memory_layout s"
    by (simp add: get_flash_page_size_def Let_def)
  then show ?thesis
    using assms
    by (auto simp: prepare_memory_layout_def Let_def bind_eq_Some_conv case_prod_beta dest!: length_xstr)
qed

lemma length_hex: "length (concat (map hex_of xs)) = 2 * length xs"
  by (induction xs) (simp_all add: hex_of_def)

lemma unique_id:
  "length (fst (get_dev_unique_id b s)) = 26" "world.more (snd (get_dev_unique_id b s)) = world.more s"
proof -
  obtain uid t where rd: "read_bytes b 0x1FFFF7E8 9 s = (uid, t)" by fastforce
  then have "length uid = 9" "world.more t = world.more s"
    using length_read_bytes [of b "0x1FFFF7E8" 9 s] more_read_bytes [of b "0x1FFFF7E8" 9 s] by simp_all
  then show "length (fst (get_dev_unique_id b s)) = 26" "world.more (snd (get_dev_unique_id b s)) = world.more s"
    using rd by (simp_all add: get_dev_unique_id_def length_hex)
qed

section \<open>The invariant of the second stage\<close>

text \<open>\<open>r\<close> is the RAM behind the control buffer, \<open>st\<close> the state of the DFU machine.\<close>

definition stage2_ok :: "(nat \<Rightarrow> u8) \<Rightarrow> dfu_state \<Rightarrow> ('h, 'm) usb_world_scheme \<Rightarrow> bool" where
  "stage2_ok r st s \<longleftrightarrow> usb_inv r s \<and> usbdfu_state s = st"

lemma stage2_ok_more: "world.more s' = world.more s \<Longrightarrow> stage2_ok r st s' = stage2_ok r st s"
  using usb_inv_more [of s' s r] usb_fields_eq(6) [of s' s] by (simp add: stage2_ok_def)

lemma stage2_ok_update [simp]:
  "stage2_ok r st (s\<lparr>gd32 := g\<rparr>) = stage2_ok r st s" "stage2_ok r st (s\<lparr>sysTick := t\<rparr>) = stage2_ok r st s"
  "stage2_ok r st (s\<lparr>nextTick := t\<rparr>) = stage2_ok r st s" "stage2_ok r st (s\<lparr>cached_size := c\<rparr>) = stage2_ok r st s"
  "stage2_ok r st (s\<lparr>cpu_vendor := v\<rparr>) = stage2_ok r st s" "stage2_ok r st (s\<lparr>cpu_cpuId := i\<rparr>) = stage2_ok r st s"
  "stage2_ok r st (s\<lparr>cpu_flashSize := z\<rparr>) = stage2_ok r st s" "stage2_ok r st (s\<lparr>hw := h\<rparr>) = stage2_ok r st s"
  by (cases "usb_fsm_state s"; simp add: stage2_ok_def usb_inv_def buf_ok_def out_ok_def)+

lemma stage2_ok_strings:
  "stage2_ok r st s \<Longrightarrow> length sn = 26 \<Longrightarrow> stage2_ok r st (s\<lparr>serial_no := sn\<rparr>)"
  "stage2_ok r st s \<Longrightarrow> length m = length (memory_layout s) \<Longrightarrow> stage2_ok r st (s\<lparr>memory_layout := m\<rparr>)"
  by (cases "usb_fsm_state s"; simp add: stage2_ok_def usb_inv_def buf_ok_def out_ok_def)+

lemma clear_statics_ok: "stage2_ok (cleared_beyond be bf (ram_beyond s)) (usbdfu_state s) (clear_statics be bf s)"
  by (simp add: clear_statics_def stage2_ok_def usb_inv_def buf_ok_def out_ok_def)

lemma identify_ok [simp]: "stage2_ok r st (lnCpuID_identify b s) = stage2_ok r st s"
proof -
  have rd: "stage2_ok r st (snd (rd32 b a t)) = stage2_ok r st t" for a and t :: "('a, 'b) usb_world_scheme"
    by (rule stage2_ok_more) simp
  show ?thesis by (simp add: lnCpuID_identify_def Let_def case_prod_beta rd)
qed

lemma setupForUsb_ok:
  assumes "setupForUsb cfg b s = Some s'" "stage2_ok r st s"
  shows "stage2_ok r st s'"
proof -
  let ?s1 = "if is_gd32 s then s\<lparr>gd32 := True\<rparr> else s"
  obtain s2 where s2: "(if USE_GD32_CRYSTALLESS cfg then clock_setup_in_hsi_48mhz b ?s1
      else clock_setup_in_hse_8mhz_out_72mhz b ?s1) = Some s2"
    and s': "world.more s' = world.more (lnPeripherals_enable b pAF (lnPeripherals_enable b pGPIOC
      (lnPeripherals_enable b pGPIOB (lnPeripherals_enable b pGPIOA s2)))\<lparr>sysTick := 0\<rparr>)"
    using assms(1) unfolding setupForUsb_def Let_def bind_eq_Some_conv 
    by (elim exE conjE, unfold option.inject, hypsubst) (simp split del: if_split)
  let ?s3 = "lnPeripherals_enable b pAF (lnPeripherals_enable b pGPIOC
    (lnPeripherals_enable b pGPIOB (lnPeripherals_enable b pGPIOA s2)))"
  have "stage2_ok r st ?s1" using assms(2) by simp
  moreover have "world.more s2 = world.more ?s1"
    using s2 more_clock_setup [of b ?s1 s2] by (cases "USE_GD32_CRYSTALLESS cfg") (simp_all split del: if_split)
  ultimately have "stage2_ok r st s2" using stage2_ok_more [of s2 ?s1] by blast
  then have "stage2_ok r st ?s3" using stage2_ok_more [of ?s3 s2] by simp
  then have "stage2_ok r st (?s3\<lparr>sysTick := 0\<rparr>)" by simp
  then show ?thesis using stage2_ok_more [OF s'] by blast
qed

lemma reenumerate_ok:
  assumes "usb_reenumerate sp v0 ticks b s = Some s'" "stage2_ok r st s"
  shows "stage2_ok r st s'"
proof -
  obtain s1 s2 now k s3 where s: "lnPinMode sp v0 b (lnPin PortA 12) lnOUTPUT 0 s = Some s1"
    "lnDigitalWrite b (lnPin PortA 12) False s1 = Some s2" "lnDelay ticks 300 (sysTick s2) = Some (now, k)"
    "lnDigitalWrite b (lnPin PortA 12) True (s2\<lparr>sysTick := now\<rparr>) = Some s3"
    "lnPinMode sp v0 b (lnPin PortA 12) lnINPUT_FLOATING 0 s3 = Some s'"
    using assms(1) unfolding usb_reenumerate_def Let_def by (auto simp: bind_eq_Some_conv)
  then show ?thesis
    using assms(2) more_lnPinMode [THEN stage2_ok_more] more_lnDigitalWrite [THEN stage2_ok_more]
    by (metis stage2_ok_update(2))
qed

lemma runDfu_setup_ok:
  assumes "runDfu_setup sp v0 ticks cfg b s = Some s'" "stage2_ok r st s"
  shows "stage2_ok r st s'"
proof -
  obtain s1 where s1: "usb_reenumerate sp v0 ticks b s = Some s1"
    using assms(1) by (auto simp: runDfu_setup_def bind_eq_Some_conv)
  obtain sn s2 where sn: "get_dev_unique_id b s1 = (sn, s2)" by fastforce
  obtain s3 where s3: "prepare_memory_layout (s2\<lparr>serial_no := sn\<rparr>) = Some s3"
    using assms(1) s1 sn by (auto simp: runDfu_setup_def bind_eq_Some_conv)
  obtain s4 s5 s6 where s: "lnPinMode sp v0 b (LED cfg) lnOUTPUT 0 (usb_init b s3) = Some s4"
    "lnPinMode sp v0 b LED2 lnOUTPUT 0 s4 = Some s5" "lnPinMode sp v0 b LED3 lnOUTPUT 0 s5 = Some s6"
    "s' = s6\<lparr>nextTick := sysTick s6 + 100\<rparr>"
    using assms(1) s1 sn s3 by (auto simp: runDfu_setup_def Let_def bind_eq_Some_conv)
  have "stage2_ok r st s1" by (rule reenumerate_ok [OF s1 assms(2)])
  then have "stage2_ok r st s2"
    using stage2_ok_more [of s2 s1 r st] unique_id(2) [of b s1] sn by simp
  then have sn_ok: "stage2_ok r st (s2\<lparr>serial_no := sn\<rparr>)"
    using stage2_ok_strings(1) unique_id(1) [of b s1] sn by auto
  obtain m where m: "length m = length (memory_layout (s2\<lparr>serial_no := sn\<rparr>))"
    "s3 = (snd (get_flash_page_size (s2\<lparr>serial_no := sn\<rparr>)))\<lparr>memory_layout := m\<rparr>"
    using prepare_memory_layout_only [OF s3] by blast
  have "stage2_ok r st (snd (get_flash_page_size (s2\<lparr>serial_no := sn\<rparr>)))"
    "memory_layout (snd (get_flash_page_size (s2\<lparr>serial_no := sn\<rparr>))) = memory_layout s2"
    using sn_ok by (simp_all add: get_flash_page_size_def Let_def)
  then have "stage2_ok r st s3" unfolding m(2) using m(1) by (intro stage2_ok_strings(2)) simp_all
  then have "stage2_ok r st (usb_init b s3)" using stage2_ok_more [OF more_usb_init] by blast
  then have "stage2_ok r st s6" using s(1-3) more_lnPinMode [THEN stage2_ok_more] by metis
  then show ?thesis by (simp add: s(4))
qed

lemma stage2_entry_ok:
  assumes "stage2_entry sp v0 ticks bs be bf cfg b s = Some s'"
  shows "stage2_ok (cleared_beyond be bf (ram_beyond s)) (usbdfu_state s) s'"
proof -
  obtain s1 s2 where s: "bss_loop b be bs s = Some s1"
    "setupForUsb cfg b (lnCpuID_identify b (clear_statics be bf s1)) = Some s2"
    "runDfu_setup sp v0 ticks cfg b s2 = Some s'"
    using assms by (auto simp: stage2_entry_def Let_def bind_eq_Some_conv)
  have "ram_beyond s1 = ram_beyond s" "usbdfu_state s1 = usbdfu_state s"
    using usb_fields_eq(4, 6) [OF more_bss_loop [OF s(1)]] by blast+
  then have "stage2_ok (cleared_beyond be bf (ram_beyond s)) (usbdfu_state s) (lnCpuID_identify b (clear_statics be bf s1))"
    using clear_statics_ok [of be bf s1] by simp
  then show ?thesis using setupForUsb_ok [OF s(2)] runDfu_setup_ok [OF s(3)] by blast
qed

section \<open>The main loop keeps it\<close>

lemma blink_ok:
  assumes "blink cfg b led s = Some (led', s')" "stage2_ok r st s"
  shows "stage2_ok r st s'"
proof (cases "sysTick s > nextTick s")
  case True
  let ?s = "s\<lparr>nextTick := nextTick s + 100\<rparr>"
  obtain s1 s2 where s: "lnDigitalWrite b (LED cfg) led ?s = Some s1" "lnDigitalWrite b LED2 led s1 = Some s2"
    "lnDigitalWrite b LED3 led s2 = Some s'"
    using assms(1) True by (auto simp: blink_def Let_def bind_eq_Some_conv)
  have "stage2_ok r st ?s" using assms(2) by simp
  then show ?thesis using s more_lnDigitalWrite [THEN stage2_ok_more] by metis
next
  case False
  then show ?thesis using assms by (simp add: blink_def)
qed

lemma iteration_goes_on:
  assumes "runDfu_iteration cfg b led s = Some (Loops led' s')"
  obtains s1 where "do_usb_poll cfg b s = Some s1" "usbdfu_state s1 \<noteq> STATE_DFU_MANIFEST"
    "blink cfg b led s1 = Some (led', s')"
  using assms by (auto simp: runDfu_iteration_def bind_eq_Some_conv split: if_splits)

lemma iteration_resets:
  assumes "runDfu_iteration cfg b led s = Some (Resets s')"
  obtains s1 where "do_usb_poll cfg b s = Some s1" "usbdfu_state s1 = STATE_DFU_MANIFEST"
    "s' = full_system_reset b s1"
  using assms by (auto simp: runDfu_iteration_def bind_eq_Some_conv split: if_splits)

text \<open>The states the DFU machine can be in between two iterations.\<close>

definition loop_states :: "dfu_state set" where
  "loop_states = {STATE_DFU_IDLE, STATE_DFU_DNLOAD_SYNC, STATE_DFU_DNBUSY, STATE_DFU_DNLOAD_IDLE,
     STATE_DFU_MANIFEST_SYNC, STATE_DFU_UPLOAD_IDLE, STATE_DFU_ERROR}"

lemma dfu_trans_target: "dfu_trans ev st st' \<Longrightarrow> st' \<in> insert STATE_DFU_MANIFEST loop_states"
  by (auto elim!: dfu_transE simp: loop_states_def)

lemma main_step_ok:
  assumes "main_step cfg b x y" "rx_held b held" "usb_inv r (snd x)" "usbdfu_state (snd x) \<in> loop_states"
  shows "usb_inv r (snd y)" "usbdfu_state (snd y) \<in> loop_states"
proof -
  have "usb_inv r (snd y) \<and> usbdfu_state (snd y) \<in> loop_states"
    using assms
  proof (cases rule: main_step.cases)
    case (tick_irq led s)
    have "stage2_ok r (usbdfu_state s) (s\<lparr>sysTick := tick (sysTick s)\<rparr>) = stage2_ok r (usbdfu_state s) s" by simp
    then show ?thesis using tick_irq assms(3, 4) by (simp add: stage2_ok_def)
  next
    case (hardware led s h)
    have "stage2_ok r (usbdfu_state s) (s\<lparr>hw := h\<rparr>) = stage2_ok r (usbdfu_state s) s" by simp
    then show ?thesis using hardware assms(3, 4) by (simp add: stage2_ok_def)
  next
    case (iteration led s led' s')
    obtain s1 where s1: "do_usb_poll cfg b s = Some s1" "usbdfu_state s1 \<noteq> STATE_DFU_MANIFEST"
      "blink cfg b led s1 = Some (led', s')"
      by (rule iteration_goes_on [OF iteration(3)])
    have inv: "usb_inv r s1" using poll_ok [OF s1(1) _ assms(2)] assms(3) iteration(1) by simp
    have "usbdfu_state s1 \<in> loop_states"
      using poll_steps [OF s1(1)] s1(2) assms(4) iteration(1) dfu_trans_target by (fastforce simp: dfu_step_ok_def dfu_steps_def)
    then show ?thesis
      using blink_ok [OF s1(3), of r "usbdfu_state s1"] inv iteration(2) by (simp add: stage2_ok_def)
  qed
  then show "usb_inv r (snd y)" "usbdfu_state (snd y) \<in> loop_states" by blast+
qed

lemma main_steps_ok:
  assumes "(main_step cfg b)\<^sup>*\<^sup>* x y" "rx_held b held" "usb_inv r (snd x)" "usbdfu_state (snd x) \<in> loop_states"
  shows "usb_inv r (snd y) \<and> usbdfu_state (snd y) \<in> loop_states"
  using assms by (induction rule: rtranclp_induct) (auto dest: main_step_ok)

end
