(* ===== verification/DfuText.thy ===== *)
theory DfuText
  imports UsbSafe
begin

text \<open>
  The strings the boot loader builds: the memory layout for DfuSe hosts and the serial number.
\<close>

section \<open>Decimal numbers\<close>

fun decimal :: "nat \<Rightarrow> u8 list" where
  "decimal n = (if n < 10 then [of_nat (48 + n)] else decimal (n div 10) @ [of_nat (48 + n mod 10)])"

declare decimal.simps [simp del]

lemma decimal_length:
  assumes "n < 10 ^ k" "0 < k"
  shows "length (decimal n) \<le> k"
  using assms
proof (induction k arbitrary: n)
  case (Suc k)
  show ?case
  proof (cases "n < 10")
    case False
    then have "0 < k" using Suc.prems by (cases k) auto
    moreover have "n div 10 < 10 ^ k" using Suc.prems(1) by (simp add: less_mult_imp_div_less mult.commute)
    ultimately have "length (decimal (n div 10)) \<le> k" by (rule Suc.IH [rotated])
    then show ?thesis using False by (simp add: decimal.simps [of n])
  qed (simp add: decimal.simps [of n])
qed simp

lemma digit_value: "d < 10 \<Longrightarrow> unat (of_nat (48 + d) :: u8) = 48 + d"
  by (simp add: unsigned_of_nat take_bit_nat_eq_self del: of_nat_add)

lemma digit_not_zero: "d < 10 \<Longrightarrow> (of_nat (48 + d) :: u8) \<noteq> 0"
  using digit_value [of d] by auto

lemma decimal_no_zero: "0 \<notin> set (decimal n)"
proof (induction n rule: decimal.induct)
  case (1 n)
  show ?case
  proof (cases "n < 10")
    case True
    then show ?thesis using digit_not_zero [of n] by (simp add: decimal.simps [of n] del: of_nat_add)
  next
    case False
    then show ?thesis using 1 digit_not_zero [of "n mod 10"] by (simp add: decimal.simps [of n] del: of_nat_add)
  qed
qed

text \<open>Reading the digits back.\<close>

definition read_decimal :: "u8 list \<Rightarrow> nat" where
  "read_decimal ds = foldl (\<lambda>v d. 10 * v + (unat d - 48)) 0 ds"

lemma read_decimal: "read_decimal (decimal n) = n"
proof (induction n rule: decimal.induct)
  case (1 n)
  show ?case
  proof (cases "n < 10")
    case True
    then show ?thesis
      by (simp add: decimal.simps [of n] read_decimal_def digit_value del: of_nat_add)
  next
    case False
    then show ?thesis
      using 1 by (simp add: decimal.simps [of n] read_decimal_def digit_value del: of_nat_add)
  qed
qed

lemma digits_decimal:
  assumes "length (decimal n) + length acc \<le> 7"
  shows "digits (int n) acc = Some (decimal n @ acc)"
  using assms
proof (induction n arbitrary: acc rule: decimal.induct)
  case (1 n)
  have sm: "int n smod 10 = int (n mod 10)" "int n sdiv 10 = int (n div 10)"
    by (simp_all add: signed_modulo_int_def signed_divide_int_def sgn_if of_nat_mod of_nat_div)
  have d: "(0x30 + word_of_int (int (n mod 10)) :: u8) = of_nat (48 + n mod 10)" by simp
  show ?case
  proof (cases "n < 10")
    case True
    then show ?thesis using 1(2) d
      by (subst digits.simps) (simp add: Let_def sm decimal.simps [of n])
  next
    case False
    then have "decimal n = decimal (n div 10) @ [of_nat (48 + n mod 10)]" by (simp add: decimal.simps [of n])
    moreover have "int (n div 10) \<noteq> 0" using False by simp
    ultimately show ?thesis using False 1 d
      by (subst digits.simps) (simp add: Let_def sm del: of_nat_add)
  qed
qed

section \<open>The memory layout\<close>

definition page_kb :: "('h, 'm) flash_world_scheme \<Rightarrow> nat" where
  "page_kb s = (if page_size s = 2048 then 2 else 1)"

text \<open>What a DfuSe host reads: the boot loader's pages, read only, then those of the application.\<close>

definition layout_text :: "nat \<Rightarrow> nat \<Rightarrow> u8 list" where
  "layout_text kb flash_kb =
     map of_char ''@Internal Flash /0x08000000/'' @ decimal (8 div kb) @
     map of_char (if kb = 2 then ''*002Ka,'' else ''*001Ka,'') @ decimal ((flash_kb - 8) div kb) @
     map of_char (if kb = 2 then ''*002Kg'' else ''*001Kg'')"

lemma text_no_zero:
  "0 \<notin> set (map of_char ''@Internal Flash /0x08000000/'' :: u8 list)"
  "0 \<notin> set (map of_char (if kb = (2 :: nat) then ''*002Ka,'' else ''*001Ka,'') :: u8 list)"
  "0 \<notin> set (map of_char (if kb = (2 :: nat) then ''*002Kg'' else ''*001Kg'') :: u8 list)"
  by (simp_all add: of_char_def)

lemma page_kb_value:
  assumes "cached_size s \<in> {0, 1024, 2048}"
  shows "uint (page_size s div 1024) = int (page_kb s)" "page_kb s \<in> {1, 2}"
  using page_size_cases [OF assms] by (auto simp: page_kb_def)

lemma layout_built:
  assumes "length (memory_layout s) = 64" "cached_size s \<in> {0, 1024, 2048}"
    and "8 \<le> cpu_flashSize s" "cpu_flashSize s < 0x10000"
  shows "\<exists>s'. prepare_memory_layout s = Some s' \<and>
    holds (memory_layout s') (layout_text (page_kb s) (nat (cpu_flashSize s)))"
proof -
  obtain n where n: "cpu_flashSize s = int n" "8 \<le> n" "n < 0x10000"
    using assms(3, 4) by (metis nonneg_int_cases of_nat_le_iff of_nat_less_iff of_nat_numeral
        order_trans zero_le_numeral)
  obtain ps s1 where ps: "get_flash_page_size s = (ps, s1)" by fastforce
  have kb: "uint (ps div 1024) = int (page_kb s)" "page_kb s \<in> {1, 2}"
    using page_kb_value [OF assms(2)] ps by (simp_all add: page_size_def)
  have s1: "memory_layout s1 = memory_layout s"
    using ps by (auto simp: get_flash_page_size_def Let_def)
  let ?kb = "page_kb s"
  have pages: "8 sdiv int ?kb = int (8 div ?kb)" "(int n - 8) sdiv int ?kb = int ((n - 8) div ?kb)"
    using kb(2) n(2) by (auto simp: signed_divide_int_def sgn_if of_nat_diff)
  have "8 div ?kb < 10" "(n - 8) div ?kb < 10 ^ 5" using kb(2) n(3) by auto
  then have len: "length (decimal (8 div ?kb)) \<le> 1" "length (decimal ((n - 8) div ?kb)) \<le> 5"
    using decimal_length [of "8 div ?kb" 1] decimal_length [of "(n - 8) div ?kb" 5] by auto
  have d: "digits (int (8 div ?kb)) [] = Some (decimal (8 div ?kb))"
    "digits (int ((n - 8) div ?kb)) [] = Some (decimal ((n - 8) div ?kb))"
    using digits_decimal [of "8 div ?kb" "[]"] digits_decimal [of "(n - 8) div ?kb" "[]"] len by simp_all
  let ?t1 = "map of_char ''@Internal Flash /0x08000000/'' :: u8 list"
  let ?t2 = "map of_char (if ?kb = 2 then ''*002Ka,'' else ''*001Ka,'') :: u8 list"
  let ?t3 = "map of_char (if ?kb = 2 then ''*002Kg'' else ''*001Kg'') :: u8 list"
  have tl: "length ?t1 = 28" "length ?t2 = 7" "length ?t3 = 6" by simp_all
  obtain m1 where m1: "xstrcpy (memory_layout s1) (?t1 @ [0]) = Some m1" "holds m1 ?t1" "length m1 = 64"
    using holds_cpy [OF text_no_zero(1), of "memory_layout s1"] assms(1) s1 tl(1) by auto
  obtain m2 where m2: "xstrcat m1 (decimal (8 div ?kb) @ [0]) = Some m2" "length m2 = 64"
    "holds m2 (?t1 @ decimal (8 div ?kb))"
    using holds_cat [OF m1(2) decimal_no_zero, of "8 div ?kb"] m1(3) len tl by auto
  obtain m3 where m3: "xstrcat m2 (?t2 @ [0]) = Some m3" "length m3 = 64"
    "holds m3 ((?t1 @ decimal (8 div ?kb)) @ ?t2)"
    using holds_cat [OF m2(3) text_no_zero(2), of ?kb] m2(2) len tl by auto
  obtain m4 where m4: "xstrcat m3 (decimal ((n - 8) div ?kb) @ [0]) = Some m4" "length m4 = 64"
    "holds m4 (((?t1 @ decimal (8 div ?kb)) @ ?t2) @ decimal ((n - 8) div ?kb))"
    using holds_cat [OF m3(3) decimal_no_zero, of "(n - 8) div ?kb"] m3(2) len tl by auto
  obtain m5 where m5: "xstrcat m4 (?t3 @ [0]) = Some m5"
    "holds m5 ((((?t1 @ decimal (8 div ?kb)) @ ?t2) @ decimal ((n - 8) div ?kb)) @ ?t3)"
    using holds_cat [OF m4(3) text_no_zero(3), of ?kb] m4(2) len tl by auto
  have c: "c_str ''@Internal Flash /0x08000000/'' = ?t1 @ [0]"
    "(if int ?kb = 2 then c_str ''*002Ka,'' else c_str ''*001Ka,'') = ?t2 @ [0]"
    "(if int ?kb = 2 then c_str ''*002Kg'' else c_str ''*001Kg'') = ?t3 @ [0]"
    by (simp_all only: c_str_def) simp_all
  have "prepare_memory_layout s = Some (s1\<lparr>memory_layout := m5\<rparr>)"
    unfolding prepare_memory_layout_def Let_def lnCpuID_flashSize_def n(1) ps prod.case kb(1) pages d c
      m1(1) m2(1) m3(1) m4(1) m5(1) bind.bind_lunit ..
  then show ?thesis using m5(2) n by (simp add: layout_text_def)
qed

section \<open>Hexadecimal digits\<close>

definition nibble :: "u8 \<Rightarrow> u8" where
  "nibble c = (if 97 \<le> c then c - 87 else c - 48)"

fun read_hex :: "u8 list \<Rightarrow> u8 list" where
  "read_hex (a # c # cs) = (push_bit 4 (nibble a) OR nibble c) # read_hex cs"
| "read_hex _ = []"

lemma hcharset_nibbles:
  "list_all (\<lambda>k. nibble (hcharset ! k) = of_nat k \<and> hcharset ! k \<noteq> 0) [0..<16]"
  by code_simp

lemma hex_digit:
  "unat (v AND 0xF) < 16" "nibble (hcharset ! unat (v AND 0xF)) = v AND 0xF" "hcharset ! unat (v AND 0xF) \<noteq> 0"
  for v :: u8
proof -
  have m: "(0xF :: u8) = mask 4" by (simp add: mask_eq_exp_minus_1)
  have "v AND 0xF = take_bit 4 v" unfolding m by (simp only: take_bit_eq_mask)
  then show lt: "unat (v AND 0xF) < 16"
    using take_bit_nat_less_exp [of 4 "unat v"] by (simp add: unsigned_take_bit_eq)
  then have "nibble (hcharset ! unat (v AND 0xF)) = of_nat (unat (v AND 0xF))"
    "hcharset ! unat (v AND 0xF) \<noteq> 0"
    using hcharset_nibbles unfolding list_all_iff set_upt by auto
  then show "nibble (hcharset ! unat (v AND 0xF)) = v AND 0xF" "hcharset ! unat (v AND 0xF) \<noteq> 0" by simp_all
qed

lemma two_nibbles: "push_bit 4 (drop_bit 4 v AND 0xF) OR (v AND 0xF) = v" for v :: u8
proof -
  have m: "(0xF :: u8) = mask 4" by (simp add: mask_eq_exp_minus_1)
  show ?thesis
    unfolding m by (rule bit_word_eqI) (auto simp: bit_and_iff bit_or_iff bit_push_bit_iff bit_drop_bit_eq bit_mask_iff)
qed

lemma read_hex_hex: "read_hex (concat (map hex_of vs)) = vs"
proof (induction vs)
  case (Cons v vs)
  have "read_hex (concat (map hex_of (v # vs))) =
      (push_bit 4 (drop_bit 4 v AND 0xF) OR (v AND 0xF)) # read_hex (concat (map hex_of vs))"
    by (simp only: hex_of_def list.map concat.simps append.simps read_hex.simps hex_digit)
  then show ?case by (simp only: two_nibbles Cons)
qed simp

lemma hex_no_zero: "0 \<notin> set (concat (map hex_of vs))"
  using hex_digit(3) by (induction vs) (auto simp: hex_of_def dest: sym)

section \<open>Properties\<close>

text \<open>C36: for every flash of at least 8 kB the memory layout fits its buffer and is what a DfuSe host
  expects: the pages of the boot loader, then the pages of the application, in decimal.\<close>

theorem memory_layout_text:
  assumes "length (memory_layout s) = 64" "cached_size s \<in> {0, 1024, 2048}"
    and "8 \<le> cpu_flashSize s" "cpu_flashSize s < 0x10000"
  shows "\<exists>s'. prepare_memory_layout s = Some s' \<and>
    holds (memory_layout s') (layout_text (page_kb s) (nat (cpu_flashSize s))) \<and>
    read_decimal (decimal ((nat (cpu_flashSize s) - 8) div page_kb s)) = (nat (cpu_flashSize s) - 8) div page_kb s"
  using layout_built [OF assms] read_decimal by blast

lemma memory_layout_text_witness:
  "\<exists>s'. prepare_memory_layout (usb_boot () (\<lambda>_. 0)) = Some s' \<and>
    holds (memory_layout s') (map of_char ''@Internal Flash /0x08000000/8*001Ka,56*001Kg'')"
proof -
  let ?s = "usb_boot () (\<lambda>_. 0)"
  have "decimal 8 = map of_char ''8''" "decimal 56 = map of_char ''56''"
    by (simp_all add: decimal.simps of_char_def)
  then have "layout_text (page_kb ?s) (nat (cpu_flashSize ?s)) =
      map of_char ''@Internal Flash /0x08000000/8*001Ka,56*001Kg''"
    by (simp add: layout_text_def page_kb_def page_size_def get_flash_page_size_def usb_boot_def lnCpuID_vendor_def)
  then show ?thesis
    using memory_layout_text [of ?s] by (auto simp: usb_boot_def)
qed

text \<open>The serial number is \<open>SWIND_\<close> and eighteen hexadecimal digits, from which the nine bytes read
  from the chip can be read back; it has no zero before its end and fills its 26 bytes.\<close>

theorem serial_number_roundtrip:
  "\<exists>uid s' hx. read_bytes b 0x1FFFF7E8 9 s = (uid, s') \<and>
    get_dev_unique_id b s = (map of_char ''SWIND_'' @ hx @ [0, 0], s') \<and>
    read_hex hx = uid \<and> length uid = 9 \<and> length hx = 18 \<and> 0 \<notin> set hx"
proof -
  obtain uid s' where rd: "read_bytes b 0x1FFFF7E8 9 s = (uid, s')" by fastforce
  then have "length uid = 9" using length_read_bytes [of b "0x1FFFF7E8" 9 s] by simp
  moreover have "length (concat (map hex_of uid)) = 2 * length uid"
    by (induction uid) (simp_all add: hex_of_def)
  ultimately show ?thesis
    using rd read_hex_hex [of uid] hex_no_zero [of uid]
    by (intro exI [of _ uid] exI [of _ s'] exI [of _ "concat (map hex_of uid)"]) (simp add: get_dev_unique_id_def)
qed

end
