(* ===== verification/Stage2Run.thy ===== *)
theory Stage2Run
  imports Stage2 DfuText
begin

text \<open>
  The second stage runs: its clock setup on a clock unit, its way to the main loop, and what holds
  in the main loop whatever the host and the hardware do.
\<close>

section \<open>The clock setup on a clock unit\<close>

definition stage2_regs :: "u32 set" where
  "stage2_regs = {0x40021000, 0x40021004, 0x40022000, 0x400210C0}"

lemma stage2_regsD:
  assumes "stage2_regs \<subseteq> R"
  shows "0x40021000 \<in> R" "0x40021004 \<in> R" "0x40022000 \<in> R" "0x400210C0 \<in> R"
  using assms by (auto simp: stage2_regs_def)

lemma bit_clock_cfgr:
  assumes "src \<in> {0, 1}"
  shows "bit (clock_cfgr src v) n \<longleftrightarrow> n < 32 \<and>
    (if n = 16 then src = 1 else n \<in> {10, 14, 15, 18, 19, 20} \<or> \<not> (4 \<le> n \<and> n < 24) \<and> bit v n)"
proof -
  have k: "(0xFF00000F :: u32) = NOT (push_bit 4 (mask 20))"
    "push_bit 4 RCC_CFGR_HPRE_SYSCLK_NODIV OR push_bit 8 RCC_CFGR_PPRE1_HCLK_DIV2 OR
      push_bit 11 RCC_CFGR_PPRE2_HCLK_NODIV OR push_bit 14 RCC_CFGR_ADCPRE_PCLK2_DIV8 OR
      push_bit 18 RCC_CFGR_PLLMUL_PLL_CLK_MUL9 OR push_bit 16 src OR
      push_bit 17 RCC_CFGR_PLLXTPRE_HSE_CLK =
     push_bit 10 (mask 1) OR push_bit 14 (mask 2) OR push_bit 18 (mask 3) OR push_bit 16 src"
    by (simp_all add: mask_eq_exp_minus_1)
  have src: "bit (push_bit 16 src) n \<longleftrightarrow> n = 16 \<and> src = 1"
    using assms by (auto simp: bit_push_bit_iff bit_1_iff)
  have v: "bit v n \<Longrightarrow> n < 32" using bit_imp_le_length [of v n] by simp
  show ?thesis
    unfolding clock_cfgr_def k
    by (simp only: bit_and_iff bit_or_iff bit_not_iff bit_field src possible_bit_word) (use v in auto)
qed

lemma set_field: "((x AND NOT m) OR k) AND m = k AND m" for x :: u32
  by (auto simp: bit_eq_iff bit_simps)

context clock_unit begin

lemma clock_pll_ends:
  assumes R: "stage2_regs \<subseteq> R" and src: "src \<in> {0, 1}"
  shows "\<exists>s'. clock_pll b src s = Some s' \<and>
    cregs (hw s') 0x40021004 AND 3 = 2 \<and> bit (cregs (hw s') 0x40021004) 16 = (src = 1) \<and>
    (\<not> bit (cregs (hw s) 0x40021004) 27 \<longrightarrow> pll_factor (cregs (hw s') 0x40021004) = 9) \<and>
    cregs (hw s') 0x40022000 AND 7 = 2 \<and> bit (cregs (hw s') 0x40021000) 24 \<and>
    (bit (cregs (hw s) 0x40021000) 16 \<longrightarrow> bit (cregs (hw s') 0x40021000) 16) \<and>
    world.more s' = world.more s"
proof -
  note r = stage2_regsD [OF R]
  let ?c = "cregs (hw s)"
  define s1 where "s1 = mod32 b 0x40021004 (clock_cfgr src) s"
  have c1: "cregs (hw s1) = ?c(0x40021004 := clock_cfgr src (?c 0x40021004) AND NOT (rcu_ro 0x40021004))"
    unfolding s1_def by (rule mod32_cregs [OF r(2)]) (auto simp: bit_eq_iff bit_and_iff bit_clock_cfgr [OF src])
  define s2 where "s2 = mod32 b 0x40022000 (\<lambda>v. (v AND NOT 7) OR 2) s1"
  have c2: "cregs (hw s2) = (cregs (hw s1))(0x40022000 :=
      ((cregs (hw s1) 0x40022000 AND NOT 7) OR 2) AND NOT (rcu_ro 0x40022000))"
    unfolding s2_def by (rule mod32_cregs [OF r(3)]) (auto simp: bit_eq_iff bit_and_iff bit_or_iff)
  obtain s4 where s4: "wait_set b 0x40021000 0x2000000 (mod32 b 0x40021000 (\<lambda>v. v OR 0x1000000) s2) = Some s4"
    "cregs (hw s4) = (cregs (hw s2))(0x40021000 := (cregs (hw s2) 0x40021000 OR 0x1000000) AND NOT (rcu_ro 0x40021000))"
    "world.more s4 = world.more s2"
    using enable_ends [OF r(1), of 24 s2] by (auto simp: waitControlBit_def)
  define s5 where "s5 = mod32 b 0x40021004 (\<lambda>v. (v AND NOT 3) OR 2) s4"
  have c5: "cregs (hw s5) = (cregs (hw s4))(0x40021004 :=
      ((cregs (hw s4) 0x40021004 AND NOT 3) OR 2) AND NOT (rcu_ro 0x40021004))"
    unfolding s5_def by (rule mod32_cregs [OF r(2)]) (auto simp: bit_eq_iff bit_and_iff bit_or_iff)
  have "clock_pll b src s = Some s5"
    using s4(1) by (simp add: clock_pll_def s5_def s2_def s1_def)
  moreover have x: "cregs (hw s4) 0x40021004 = clock_cfgr src (?c 0x40021004) AND NOT (rcu_ro 0x40021004)"
    by (simp add: s4(2) c2 c1)
  have b5: "bit (cregs (hw s5) 0x40021004) n \<longleftrightarrow>
      n < 32 \<and> (n = 1 \<or> 4 \<le> n \<and> bit (clock_cfgr src (?c 0x40021004)) n)" for n
    unfolding c5 fun_upd_same x
    by (simp only: bit_and_iff bit_or_iff bit_not_iff bit_ro_cfg0 field_bits possible_bit_word)
      (auto dest: bit_imp_le_length)
  have "cregs (hw s5) 0x40021004 AND 3 = 2"
    by (rule bit_word_eqI) (auto simp: b5 bit_and_iff field_bits simp del: bit_numeral_word_iff)
  moreover have "bit (cregs (hw s5) 0x40021004) 16 = (src = 1)" by (simp add: b5 bit_clock_cfgr [OF src])
  moreover have "pll_factor (cregs (hw s5) 0x40021004) = 9" if "\<not> bit (?c 0x40021004) 27"
  proof -
    have "pll_code (cregs (hw s5) 0x40021004) = unat (7 :: u32)"
    proof (rule pll_code_of_bits)
      show "bit (cregs (hw s5) 0x40021004) (18 + n) = bit (7 :: u32) n" if "n < 4" for n
      proof -
        have "n = 0 \<or> n = 1 \<or> n = 2 \<or> n = 3" using that by linarith
        then show ?thesis by (elim disjE) (simp_all add: b5 bit_clock_cfgr [OF src])
      qed
      show "bit (cregs (hw s5) 0x40021004) 27 = bit (7 :: u32) 4"
        using that by (simp add: b5 bit_clock_cfgr [OF src])
    qed simp
    then show ?thesis by (simp add: pll_factor_def)
  qed
  moreover have "cregs (hw s5) 0x40022000 AND 7 = 2"
  proof -
    have "cregs (hw s5) 0x40022000 = cregs (hw s2) 0x40022000" by (simp add: c5 s4(2))
    then have "cregs (hw s5) 0x40022000 = ((cregs (hw s1) 0x40022000 AND NOT 7) OR 2) AND NOT 0"
      unfolding c2 fun_upd_same by (simp only: rcu_ro_def) simp
    then have "cregs (hw s5) 0x40022000 AND 7 = ((cregs (hw s1) 0x40022000 AND NOT 7) OR 2) AND 7"
      by (simp only: bit.compl_zero and.right_neutral bit.conj_one_right)
    then show ?thesis unfolding set_field by simp
  qed
  moreover have "bit (cregs (hw s5) 0x40021000) 24" "bit (?c 0x40021000) 16 \<longrightarrow> bit (cregs (hw s5) 0x40021000) 16"
    unfolding c5 s4(2) c2 c1 by (auto simp: ctl_bits bit_or_iff)
  moreover have "world.more s5 = world.more s"
    using s4(3) by (simp add: s5_def s2_def s1_def)
  ultimately show ?thesis by blast
qed

lemma hse_ends:
  assumes R: "stage2_regs \<subseteq> R"
  shows "\<exists>s'. clock_setup_in_hse_8mhz_out_72mhz b s = Some s' \<and>
    cregs (hw s') 0x40021004 AND 3 = 2 \<and> bit (cregs (hw s') 0x40021004) 16 \<and>
    (\<not> bit (cregs (hw s) 0x40021004) 27 \<longrightarrow> pll_factor (cregs (hw s') 0x40021004) = 9) \<and>
    cregs (hw s') 0x40022000 AND 7 = 2 \<and> bit (cregs (hw s') 0x40021000) 24 \<and>
    bit (cregs (hw s') 0x40021000) 16"
proof -
  obtain s1 where s1: "wait_set b 0x40021000 0x20000 (mod32 b 0x40021000 (\<lambda>v. v OR 0x10000) s) = Some s1"
    "cregs (hw s1) = (cregs (hw s))(0x40021000 := (cregs (hw s) 0x40021000 OR 0x10000) AND NOT (rcu_ro 0x40021000))"
    using enable_ends [OF stage2_regsD(1) [OF R], of 16 s] by (auto simp: waitControlBit_def)
  have "bit (cregs (hw s1) 0x40021000) 16" "cregs (hw s1) 0x40021004 = cregs (hw s) 0x40021004"
    by (auto simp: s1(2) ctl_bits bit_or_iff one_bit)
  moreover have "clock_setup_in_hse_8mhz_out_72mhz b s = clock_pll b 1 s1"
    using s1(1) by (simp add: clock_setup_in_hse_8mhz_out_72mhz_def)
  ultimately show ?thesis using clock_pll_ends [OF R, of 1 s1] by auto
qed

lemma hsi_ends:
  assumes R: "stage2_regs \<subseteq> R"
  shows "\<exists>s'. clock_setup_in_hsi_48mhz b s = Some s' \<and>
    cregs (hw s') 0x40021004 AND 3 = 2 \<and> \<not> bit (cregs (hw s') 0x40021004) 16 \<and>
    (\<not> bit (cregs (hw s) 0x40021004) 27 \<longrightarrow> pll_factor (cregs (hw s') 0x40021004) = 9) \<and>
    cregs (hw s') 0x40022000 AND 7 = 2 \<and> bit (cregs (hw s') 0x40021000) 24 \<and>
    bit (cregs (hw s') 0x400210C0) 16 \<and> bit (cregs (hw s') 0x400210C0) 0"
proof -
  note r = stage2_regsD [OF R]
  obtain s1 where s1: "clock_pll b 0 s = Some s1"
    "cregs (hw s1) 0x40021004 AND 3 = 2" "\<not> bit (cregs (hw s1) 0x40021004) 16"
    "\<not> bit (cregs (hw s) 0x40021004) 27 \<longrightarrow> pll_factor (cregs (hw s1) 0x40021004) = 9"
    "cregs (hw s1) 0x40022000 AND 7 = 2" "bit (cregs (hw s1) 0x40021000) 24"
    using clock_pll_ends [OF R, of 0 s] by auto
  have ro: "rcu_ro 0x400210C0 = push_bit 17 1" by (simp add: rcu_ro_def)
  let ?s2 = "mod32 b 0x400210C0 (\<lambda>v. v OR 0x10000) s1"
  have c2: "cregs (hw ?s2) = (cregs (hw s1))(0x400210C0 := (cregs (hw s1) 0x400210C0 OR 0x10000) AND NOT (rcu_ro 0x400210C0))"
    by (rule or_cregs [OF r(4)])
  have b16: "bit (cregs (hw ?s2) 0x400210C0) 16"
    unfolding c2 fun_upd_same ro by (simp only: bit_and_iff bit_or_iff bit_not_iff one_bit bit_push_bit_iff) simp
  have "rcu_status 0x400210C0 v = push_bit 1 (v AND 0x10000)" for v by (simp add: rcu_status_def)
  then have "bit (rcu_status 0x400210C0 (cregs (hw ?s2) 0x400210C0)) 17"
    using b16 by (simp only: bit_push_bit_iff bit_and_iff one_bit) simp
  then have "rcu_status 0x400210C0 (cregs (hw ?s2) 0x400210C0) AND 0x20000 \<noteq> 0"
    using and_exp_eq_0_iff_not_bit [of "rcu_status 0x400210C0 (cregs (hw ?s2) 0x400210C0)" 17] by simp
  from wait_set_ends [OF r(4) this] obtain s3 where s3: "wait_set b 0x400210C0 0x20000 ?s2 = Some s3"
    "cregs (hw s3) = cregs (hw ?s2)" by blast
  let ?s4 = "mod32 b 0x400210C0 (\<lambda>v. v OR 1) s3"
  have c4: "cregs (hw ?s4) = (cregs (hw ?s2))(0x400210C0 := (cregs (hw ?s2) 0x400210C0 OR 1) AND NOT (rcu_ro 0x400210C0))"
    using or_cregs [OF r(4), of 1 s3] unfolding s3(2) .
  have "bit (cregs (hw ?s4) 0x400210C0) 16" "bit (cregs (hw ?s4) 0x400210C0) 0"
    unfolding c4 fun_upd_same ro using b16
    by (simp_all only: bit_and_iff bit_or_iff bit_not_iff bit_push_bit_iff) simp_all
  moreover have "cregs (hw ?s4) a = cregs (hw s1) a" if "a \<noteq> 0x400210C0" for a
    unfolding c4 c2 using that by simp
  moreover have "clock_setup_in_hsi_48mhz b s = Some ?s4"
    using s1(1) s3(1) by (simp add: clock_setup_in_hsi_48mhz_def)
  ultimately show ?thesis using s1(2-6) by auto
qed

end

section \<open>The way to the main loop\<close>

lemma pins_work:
  assumes "xpin \<in> {lnPin PortA 0, lnPin PortA 8, lnPin PortA 12, lnPin PortB 13, lnPin PortC 13}"
    and "md \<in> {lnOUTPUT, lnINPUT_FLOATING}"
  obtains s' where "lnPinMode sp v0 b xpin md mhz s = Some s'"
  using assms by (auto simp: lnPinMode_def port_of_def Let_def case_prod_beta)

lemma digital_write_works:
  assumes "xpin \<in> {lnPin PortA 0, lnPin PortA 8, lnPin PortA 12, lnPin PortB 13, lnPin PortC 13}"
  obtains s' where "lnDigitalWrite b xpin v s = Some s'"
  using assms by (auto simp: lnDigitalWrite_def port_of_def Let_def)

lemma LED_pin: "LED cfg \<in> {lnPin PortA 0, lnPin PortA 8, lnPin PortA 12, lnPin PortB 13, lnPin PortC 13}"
  by (simp add: LED_def)

lemma dfu_more_tick:
  "world.more s' = world.more s \<Longrightarrow> sysTick s' = sysTick (s :: ('h, 'm) dfu_world_scheme)"
  by (rule dfu_fields_eq(9) [OF flash_more])

text \<open>What the layout string needs.\<close>

definition layout_ready :: "('h, 'm) dfu_world_scheme \<Rightarrow> bool" where
  "layout_ready s \<longleftrightarrow> length (memory_layout s) = 64 \<and> cached_size s = 0 \<and>
     8 \<le> cpu_flashSize s \<and> cpu_flashSize s < 0x10000"

lemma layout_ready_more:
  fixes s s' :: "('h, 'm) dfu_world_scheme"
  assumes "world.more s' = world.more s"
  shows "layout_ready s' = layout_ready s"
  using assms by (cases s; cases s'; simp add: layout_ready_def)

lemma layout_ready_update [simp]:
  "layout_ready (s\<lparr>sysTick := t\<rparr>) = layout_ready s" "layout_ready (s\<lparr>serial_no := n\<rparr>) = layout_ready s"
  "layout_ready (s\<lparr>gd32 := g\<rparr>) = layout_ready s"
  by (simp_all add: layout_ready_def)

lemma identify_ready:
  assumes "\<And>h. 8 \<le> uint (fst (ld32 b DENSITY_REG h) AND 0xffff)" "cpu_flashSize s = 0"
    and "length (memory_layout s) = 64" "cached_size s = 0"
  shows "layout_ready (lnCpuID_identify b s)"
  using assms density_low
  by (simp add: lnCpuID_identify_def Let_def case_prod_beta layout_ready_def rd32_def)

lemma reenumerate_ends:
  fixes s :: "('h, 'm) dfu_world_scheme"
  assumes "steady ticks" "sysTick s = 0" "layout_ready s"
  shows "\<exists>s'. usb_reenumerate sp v0 ticks b s = Some s' \<and> layout_ready s'"
proof -
  obtain s1 where s1: "lnPinMode sp v0 b (lnPin PortA 12) lnOUTPUT 0 s = Some s1"
    by (rule pins_work [of "lnPin PortA 12" lnOUTPUT]) auto
  obtain s2 where s2: "lnDigitalWrite b (lnPin PortA 12) False s1 = Some s2"
    by (rule digital_write_works [of "lnPin PortA 12"]) auto
  have m: "world.more s2 = world.more s" using more_lnPinMode [OF s1] more_lnDigitalWrite [OF s2] by simp
  have t2: "sysTick s2 = 0" using dfu_more_tick [OF m] assms(2) by simp
  obtain now k where d: "lnDelay ticks 300 (sysTick s2) = Some (now, k)"
    using xDelay_ends [OF assms(1), of 300 0] by (auto simp: lnDelay_def t2)
  obtain s3 where s3: "lnDigitalWrite b (lnPin PortA 12) True (s2\<lparr>sysTick := now\<rparr>) = Some s3"
    by (rule digital_write_works [of "lnPin PortA 12"]) auto
  obtain s4 where s4: "lnPinMode sp v0 b (lnPin PortA 12) lnINPUT_FLOATING 0 s3 = Some s4"
    by (rule pins_work [of "lnPin PortA 12" lnINPUT_FLOATING]) auto
  have "layout_ready (s2\<lparr>sysTick := now\<rparr>)" using assms(3) layout_ready_more [OF m] by simp
  then have "layout_ready s4"
    using layout_ready_more [OF more_lnDigitalWrite [OF s3]] layout_ready_more [OF more_lnPinMode [OF s4]] by simp
  moreover have "usb_reenumerate sp v0 ticks b s = Some s4"
    using s1 s2 d s3 s4 by (simp add: usb_reenumerate_def)
  ultimately show ?thesis by blast
qed

lemma runDfu_setup_ends:
  fixes s :: "('h, 'm) dfu_world_scheme"
  assumes "steady ticks" "sysTick s = 0" "layout_ready s"
  shows "\<exists>s'. runDfu_setup sp v0 ticks cfg b s = Some s'"
proof -
  obtain s1 where s1: "usb_reenumerate sp v0 ticks b s = Some s1" "layout_ready s1"
    using reenumerate_ends [OF assms] by blast
  obtain sn s2 where sn: "get_dev_unique_id b s1 = (sn, s2)" by fastforce
  have "layout_ready s2" using layout_ready_more [of s2 s1] unique_id(2) [of b s1] sn s1(2) by simp
  then have "layout_ready (s2\<lparr>serial_no := sn\<rparr>)" by simp
  then obtain s3 where s3: "prepare_memory_layout (s2\<lparr>serial_no := sn\<rparr>) = Some s3"
    using layout_built [of "s2\<lparr>serial_no := sn\<rparr>"] by (auto simp: layout_ready_def)
  obtain s4 where s4: "lnPinMode sp v0 b (LED cfg) lnOUTPUT 0 (usb_init b s3) = Some s4"
    using LED_pin by (rule pins_work) auto
  obtain s5 where s5: "lnPinMode sp v0 b LED2 lnOUTPUT 0 s4 = Some s5"
    by (rule pins_work [of LED2 lnOUTPUT]) auto
  obtain s6 where s6: "lnPinMode sp v0 b LED3 lnOUTPUT 0 s5 = Some s6"
    by (rule pins_work [of LED3 lnOUTPUT]) auto
  show ?thesis using s1(1) sn s3 s4 s5 s6 by (simp add: runDfu_setup_def)
qed

context clock_unit begin

lemma setupForUsb_ends:
  fixes s :: "('h, 'm) dfu_world_scheme"
  assumes R: "stage2_regs \<subseteq> R" and ready: "layout_ready s"
  shows "\<exists>s'. setupForUsb cfg b s = Some s' \<and> layout_ready s' \<and> sysTick s' = 0"
proof -
  let ?s1 = "if is_gd32 s then s\<lparr>gd32 := True\<rparr> else s"
  obtain s2 where s2: "(if USE_GD32_CRYSTALLESS cfg then clock_setup_in_hsi_48mhz b ?s1
      else clock_setup_in_hse_8mhz_out_72mhz b ?s1) = Some s2"
    using hsi_ends [OF R, of ?s1] hse_ends [OF R, of ?s1] by (cases "USE_GD32_CRYSTALLESS cfg") auto
  let ?s3 = "lnPeripherals_enable b pAF (lnPeripherals_enable b pGPIOC
    (lnPeripherals_enable b pGPIOB (lnPeripherals_enable b pGPIOA s2)))"
  have "world.more s2 = world.more ?s1"
    using s2 more_clock_setup [of b ?s1 s2] by (cases "USE_GD32_CRYSTALLESS cfg") (simp_all split del: if_split)
  then have "layout_ready s2 = layout_ready ?s1" by (rule layout_ready_more)
  then have "layout_ready ?s3" using ready layout_ready_more [of ?s3 s2] by simp
  then have "layout_ready (?s3\<lparr>sysTick := 0\<rparr>)" by simp
  moreover obtain s' where s': "setupForUsb cfg b s = Some s'" "world.more s' = world.more (?s3\<lparr>sysTick := 0\<rparr>)"
    using s2 by (simp add: setupForUsb_def Let_def split del: if_split)
  ultimately show ?thesis
    using layout_ready_more [OF s'(2)] dfu_more_tick [OF s'(2)] by auto
qed

lemma entry_ends:
  fixes s :: "('h, 'm) usb_world_scheme"
  assumes R: "stage2_regs \<subseteq> R" and "steady ticks" "unat bss_end + 4 \<le> 2 ^ 32"
    and "\<And>h. 8 \<le> uint (fst (ld32 b DENSITY_REG h) AND 0xffff)"
  shows "\<exists>s'. stage2_entry sp v0 ticks bss_start bss_end buffer_end cfg b s = Some s'"
proof -
  obtain s1 where s1: "bss_loop b bss_end bss_start s = Some s1" using bss_loop_ends [OF assms(3)] by blast
  have "layout_ready (lnCpuID_identify b (clear_statics bss_end buffer_end s1))"
    by (rule identify_ready [OF assms(4)]) (simp_all add: clear_statics_def)
  then obtain s2 where s2: "setupForUsb cfg b (lnCpuID_identify b (clear_statics bss_end buffer_end s1)) = Some s2"
    "layout_ready s2" "sysTick s2 = 0"
    using setupForUsb_ends [OF R] by blast
  from runDfu_setup_ends [OF assms(2) s2(3, 2)] show ?thesis
    using s1 s2(1) by (simp add: stage2_entry_def)
qed

end

section \<open>Properties\<close>

text \<open>C29: on a clock unit whose oscillators start, both clock setups of the second stage end with
  the PLL as the system clock, two flash wait states, and the PLL fed by the crystal, resp. by the
  internal oscillator, whose 48 MHz sibling then feeds the USB clock. The factor is nine if the fifth
  bit of the factor, which the code keeps, was clear.\<close>

theorem stage2_clock:
  assumes "clock_unit b cregs lag R" "stage2_regs \<subseteq> R" "\<not> bit (cregs (hw s) 0x40021004) 27"
  shows "\<exists>s' s''. clock_setup_in_hse_8mhz_out_72mhz b s = Some s' \<and>
    cregs (hw s') 0x40021004 AND 3 = 2 \<and> bit (cregs (hw s') 0x40021004) 16 \<and>
    pll_factor (cregs (hw s') 0x40021004) = 9 \<and> cregs (hw s') 0x40022000 AND 7 = 2 \<and>
    bit (cregs (hw s') 0x40021000) 24 \<and> bit (cregs (hw s') 0x40021000) 16 \<and>
    clock_setup_in_hsi_48mhz b s = Some s'' \<and>
    cregs (hw s'') 0x40021004 AND 3 = 2 \<and> \<not> bit (cregs (hw s'') 0x40021004) 16 \<and>
    pll_factor (cregs (hw s'') 0x40021004) = 9 \<and> cregs (hw s'') 0x40022000 AND 7 = 2 \<and>
    bit (cregs (hw s'') 0x40021000) 24 \<and>
    bit (cregs (hw s'') 0x400210C0) 16 \<and> bit (cregs (hw s'') 0x400210C0) 0"
  using clock_unit.hse_ends [OF assms(1, 2), of s] clock_unit.hsi_ends [OF assms(1, 2), of s] assms(3)
  by blast

lemma stage2_clock_witness:
  "\<exists>s'. clock_setup_in_hse_8mhz_out_72mhz (clock_bus 7) clock_demo = Some s' \<and>
    pll_factor (ck_regs (hw s') 0x40021004 AND NOT (rcu_ro 0x40021004)) = 9"
  using stage2_clock [OF clock.clock_unit_axioms, of clock_demo 7] by (auto simp: clock_demo_def)

text \<open>C12: with such a clock unit, a tick interrupt that does not stop, and a chip of at least 8 kB, the
  second stage gets from its entry point to its main loop.\<close>

theorem stage2_starts:
  assumes "clock_unit b cregs lag R" "stage2_regs \<subseteq> R" "steady ticks"
    and "unat bss_end + 4 \<le> 2 ^ 32" "\<And>h. 8 \<le> uint (fst (ld32 b DENSITY_REG h) AND 0xffff)"
  shows "\<exists>s'. stage2_entry sp v0 ticks bss_start bss_end buffer_end cfg b s = Some s'"
  by (rule clock_unit.entry_ends) (rule assms)+

text \<open>A chip of 64 kB, its buffer table at offset 0.\<close>

definition chip_bus :: "nat \<Rightarrow> clock_dev bus" where
  "chip_bus n = (clock_bus n)\<lparr>ld32 := (\<lambda>a d. if a = DENSITY_REG then (0x00140040, snd (clock_ld32 a d))
     else if a = USB_BTABLE_REG then (0, snd (clock_ld32 a d)) else clock_ld32 a d)\<rparr>"

interpretation chip: clock_unit "chip_bus n" "\<lambda>d a. ck_regs d a AND NOT (rcu_ro a)" ck_lag "- {DENSITY_REG, USB_BTABLE_REG}" for n
proof (unfold_locales, goal_cases)
  case (1 a h)
  then show ?case using rcu_status_ro [of a "ck_regs h a AND NOT (rcu_ro a)"]
    by (auto simp: chip_bus_def clock_bus_def clock_ld32_def bit_eq_iff bit_simps)
qed (auto simp: chip_bus_def clock_bus_def clock_ld32_def fun_eq_iff)

lemma chip_ends:
  "\<exists>s'. stage2_entry 0 0 (\<lambda>k. k mod 2) 0x20000000 0x20002000 0x20001800 cfg (chip_bus 3) s = Some s'"
  by (rule clock_unit.entry_ends [OF chip.clock_unit_axioms _ steady_mod_2])
    (simp_all add: stage2_regs_def chip_bus_def)

interpretation chip: rx_held "chip_bus n" "\<lambda>_. True" for n
  by unfold_locales (auto simp: btable_entry_def chip_bus_def clock_bus_def clock_ld32_def rcu_ro_def rcu_status_def)

lemma stage2_starts_witness:
  "\<exists>s'. stage2_entry 0 0 (\<lambda>k. k mod 2) 0x20000000 0x20002000 0x20001800 (cmake_build True) (chip_bus 3)
     (usb_boot \<lparr>ck_regs = (\<lambda>a. 0), ck_lag = 0\<rparr> (\<lambda>_. 0)) = Some s'"
  by (rule stage2_starts [OF chip.clock_unit_axioms _ steady_mod_2])
    (simp_all add: stage2_regs_def chip_bus_def)



text \<open>C18: the loop resets the chip only after the host's DFU_DETACH, or after a status request that
  follows the zero-length download; the reset is the store of the key and SYSRESETREQ to AIRCR.\<close>

theorem reset_cause:
  assumes "runDfu_iteration cfg b led s = Some (Resets s')" "usbdfu_state s \<in> loop_states"
  shows "\<exists>s1. do_usb_poll cfg b s = Some s1 \<and> s' = wr32 b 0xE000ED0C 0x05FA0004 s1 \<and>
    class_request (usb_req s1) \<and>
    (dfu_req_of (bRequest (usb_req s1)) = Some DFU_DETACH \<or>
     usbdfu_state s = STATE_DFU_MANIFEST_SYNC \<and> dfu_req_of (bRequest (usb_req s1)) = Some DFU_GETSTATUS)"
proof -
  obtain s1 where s1: "do_usb_poll cfg b s = Some s1" "usbdfu_state s1 = STATE_DFU_MANIFEST"
    "s' = full_system_reset b s1"
    by (rule iteration_resets [OF assms(1)])
  have "usbdfu_state s \<noteq> STATE_DFU_MANIFEST" using assms(2) by (auto simp: loop_states_def)
  then obtain ev where ev: "class_request (usb_req s1)" "event_of (usb_req s1) = Some ev"
    "dfu_trans ev (usbdfu_state s) STATE_DFU_MANIFEST"
    using poll_steps [OF s1(1)] s1(2) by (auto simp: dfu_step_ok_def dfu_steps_def elim: dfu_transE)
  then have "ev = Detach \<or> ev = Get_status \<and> usbdfu_state s = STATE_DFU_MANIFEST_SYNC"
    by (auto elim: dfu_transE)
  with ev(1, 2) s1 show ?thesis
    by (auto simp: event_of_def full_system_reset_def split: option.splits dfu_req.splits)
qed

lemma reset_cause_witness:
  "\<exists>s1 :: unit usb_world. do_usb_poll (cmake_build False) (const_bus detach_regs) (usb_boot () (\<lambda>_. 0)) = Some s1 \<and>
    dfu_req_of (bRequest (usb_req s1)) = Some DFU_DETACH"
proof -
  let ?s = "usb_boot () (\<lambda>_. 0)"
  obtain s1 where s1: "do_usb_poll (cmake_build False) (const_bus detach_regs) ?s = Some s1"
    "usbdfu_state s1 = STATE_DFU_MANIFEST"
    by (rule detach_poll)
  then have "runDfu_iteration (cmake_build False) (const_bus detach_regs) False ?s =
      Some (Resets (full_system_reset (const_bus detach_regs) s1))"
    by (simp add: runDfu_iteration_def)
  from reset_cause [OF this] s1(1) show ?thesis by (auto simp: usb_boot_def loop_states_def)
qed

end
