(* ===== verification/RingBuffer.thy ===== *)
theory RingBuffer
  imports BootPrelude
begin

text \<open>
  The byte queue of \<open>lnRingBuffer.h\<close>. A pointer into the buffer is its offset; a \<open>memcpy\<close> beyond
  the end of an array is \<open>None\<close>. The interface of a bounded byte queue is the locale \<open>fifo\<close>; any queue
  that keeps its laws answers every sequence of calls as the abstract queue \<open>queue_run\<close> does.
\<close>

section \<open>The class\<close>

record ring =
  ring_head :: u32
  ring_tail :: u32
  ring_mask :: u32
  ring_size :: u32
  ring_buffer :: "u8 list"

text \<open>The constructor; \<open>None\<close> is the failed assertion. \<open>new\<close> never fails and returns zeroed memory
  (\<open>systemAlloc.cpp\<close>).\<close>

definition ring_new :: "u32 \<Rightarrow> ring option" where
  "ring_new sz =
     (if sz = sz AND NOT (sz - 1) then
        Some \<lparr>ring_head = 0, ring_tail = 0, ring_mask = sz - 1, ring_size = sz,
              ring_buffer = replicate (unat sz) 0\<rparr>
      else None)"

definition ring_empty :: "ring \<Rightarrow> bool" where
  "ring_empty r \<longleftrightarrow> ring_head r = ring_tail r"

definition ring_full :: "ring \<Rightarrow> bool" where
  "ring_full r \<longleftrightarrow> ring_head r = (ring_tail r + ring_size r - 1) AND ring_mask r"

definition ring_count :: "ring \<Rightarrow> u32" where
  "ring_count r = (ring_size r + ring_head r - ring_tail r) AND ring_mask r"

definition ring_free :: "ring \<Rightarrow> u32" where
  "ring_free r = ring_size r - ring_count r - 1"

definition CMIN :: "u32 \<Rightarrow> u32 \<Rightarrow> u32" where
  "CMIN a b = (if a \<le> b then a else b)"

definition ring_flush :: "ring \<Rightarrow> ring" where
  "ring_flush r = r\<lparr>ring_head := 0, ring_tail := 0\<rparr>"

definition ring_consume :: "u32 \<Rightarrow> ring \<Rightarrow> ring" where
  "ring_consume n r = r\<lparr>ring_tail := (ring_tail r + n) AND ring_mask r\<rparr>"

definition ring_add :: "u32 \<Rightarrow> ring \<Rightarrow> ring" where
  "ring_add n r = r\<lparr>ring_head := (ring_head r + n) AND ring_mask r\<rparr>"

text \<open>Offset and length of the next contiguous piece.\<close>

definition getReadPointer :: "ring \<Rightarrow> u32 \<times> u32" where
  "getReadPointer r =
     (ring_tail r,
      if ring_head r < ring_tail r then ring_size r - ring_tail r else ring_head r - ring_tail r)"

definition getWritePointer :: "ring \<Rightarrow> u32 \<times> u32" where
  "getWritePointer r =
     (ring_head r,
      if ring_head r < ring_tail r then ring_tail r - ring_head r - 1
      else let res = ring_size r - ring_head r in if ring_tail r = 0 then res - 1 else res)"

text \<open>\<open>memcpy(to, data, n)\<close> and \<open>memcpy(data, from, n)\<close>.\<close>

definition copy_in :: "u32 \<Rightarrow> u8 list \<Rightarrow> u32 \<Rightarrow> ring \<Rightarrow> ring option" where
  "copy_in off xs n r =
     (let o' = unat off; m = unat n; buf = ring_buffer r in
      if o' + m \<le> length buf \<and> m \<le> length xs
      then Some (r\<lparr>ring_buffer := take o' buf @ take m xs @ drop (o' + m) buf\<rparr>) else None)"

definition copy_out :: "u32 \<Rightarrow> u32 \<Rightarrow> ring \<Rightarrow> u8 list option" where
  "copy_out off n r =
     (let o' = unat off; m = unat n; buf = ring_buffer r in
      if o' + m \<le> length buf then Some (take m (drop o' buf)) else None)"

definition ring_put :: "u32 \<Rightarrow> u8 list \<Rightarrow> ring \<Rightarrow> (u32 \<times> ring) option" where
  "ring_put insize data r =
     (let (to, n) = getWritePointer r in
      if n = 0 then Some (0, r)
      else do {
        let n = (if insize < n then insize else n);
        r \<leftarrow> copy_in to data n r;
        let r = ring_add n r;
        if insize - n = 0 then Some (n, r)
        else
          let (to, m) = getWritePointer r in
          if m = 0 then Some (n, r)
          else do {
            let m = (if insize - n < m then insize - n else m);
            r \<leftarrow> copy_in to (drop (unat n) data) m r;
            Some (n + m, ring_add m r)
          }
      })"

definition ring_get :: "u32 \<Rightarrow> ring \<Rightarrow> (u8 list \<times> ring) option" where
  "ring_get sz r =
     (let sz = CMIN sz (ring_count r); (from, n) = getReadPointer r in
      if n = 0 then Some ([], r)
      else do {
        let n = (if sz < n then sz else n);
        xs \<leftarrow> copy_out from n r;
        let r = ring_consume n r;
        if sz - n = 0 then Some (xs, r)
        else
          let (from, m) = getReadPointer r in
          if m = 0 then Some (xs, r)
          else do {
            let m = (if sz - n < m then sz - n else m);
            ys \<leftarrow> copy_out from m r;
            Some (xs @ ys, ring_consume m r)
          }
      })"

section \<open>What the state means\<close>

definition ring_ok :: "ring \<Rightarrow> bool" where
  "ring_ok r \<longleftrightarrow> (\<exists>k<32. ring_size r = 2 ^ k) \<and> ring_mask r = ring_size r - 1 \<and>
     ring_head r < ring_size r \<and> ring_tail r < ring_size r \<and>
     length (ring_buffer r) = unat (ring_size r)"

definition ring_used :: "ring \<Rightarrow> nat" where
  "ring_used r =
     (if unat (ring_head r) < unat (ring_tail r) then unat (ring_size r) + unat (ring_head r) - unat (ring_tail r)
      else unat (ring_head r) - unat (ring_tail r))"

definition ring_items :: "ring \<Rightarrow> u8 list" where
  "ring_items r =
     map (\<lambda>i. ring_buffer r ! ((unat (ring_tail r) + i) mod unat (ring_size r))) [0..<ring_used r]"

definition ring_capacity :: "ring \<Rightarrow> nat" where
  "ring_capacity r = unat (ring_size r) - 1"

lemma length_items [simp]: "length (ring_items r) = ring_used r"
  by (simp add: ring_items_def)

lemma and_pow_minus_1: "x AND (2 ^ k - 1) = take_bit k x" for x :: u32
  by (simp add: take_bit_eq_mask mask_eq_exp_minus_1)

text \<open>Everything over natural numbers: \<open>N\<close> the size, \<open>h\<close> and \<open>t\<close> the two indices.\<close>

lemma ring_nat:
  assumes "ring_ok r"
  obtains k N h t where "k < 32" "N = 2 ^ k" "unat (ring_size r) = N" "unat (ring_head r) = h"
    "unat (ring_tail r) = t" "h < N" "t < N" "length (ring_buffer r) = N" "N < 2 ^ 32"
    "\<And>x. unat (x AND ring_mask r) = unat x mod N" "ring_size r = of_nat N" "ring_head r = of_nat h"
    "ring_tail r = of_nat t"
proof -
  from assms obtain k where k: "k < 32" "ring_size r = 2 ^ k" by (auto simp: ring_ok_def)
  have "(2 :: nat) ^ k < 2 ^ 32" using k(1) by (intro power_strict_increasing) simp_all
  then have "unat (of_nat (2 ^ k) :: u32) = 2 ^ k" using k(1) unfolding unsigned_of_nat by (simp add: take_bit_nat_eq_self)
  then have N: "unat (ring_size r) = 2 ^ k" by (simp add: k(2))
  have msk: "unat (x AND ring_mask r) = unat x mod 2 ^ k" for x
  proof -
    have "ring_mask r = 2 ^ k - 1" using assms k by (simp add: ring_ok_def)
    then show ?thesis by (simp only: and_pow_minus_1 unsigned_take_bit_eq take_bit_nat_def)
  qed
  show ?thesis
    using assms k N msk \<open>(2 :: nat) ^ k < 2 ^ 32\<close>
    by (intro that [of k "2 ^ k" "unat (ring_head r)" "unat (ring_tail r)"])
      (simp_all add: ring_ok_def word_less_nat_alt)
qed

text \<open>Putting \<open>n\<close> bytes in front of the free part, and taking \<open>n\<close> bytes off the used part.\<close>

lemma unat_add32: "unat a + unat b < 2 ^ 32 \<Longrightarrow> unat (a + b) = unat a + unat b" for a b :: u32
  by (simp add: unat_word_ariths)

lemma push_chunk:
  assumes ok: "ring_ok r" and xs: "unat n \<le> length xs"
    and fit: "unat (ring_head r) + unat n \<le> unat (ring_size r)" "ring_used r + unat n < unat (ring_size r)"
  shows "\<exists>r'. copy_in (ring_head r) xs n r = Some r' \<and> ring_ok (ring_add n r') \<and>
    ring_items (ring_add n r') = ring_items r @ take (unat n) xs \<and> ring_size r' = ring_size r \<and>
    unat (ring_head (ring_add n r')) = (unat (ring_head r) + unat n) mod unat (ring_size r) \<and>
    ring_tail r' = ring_tail r"
proof -
  from ok obtain k N h t where k: "k < 32" "N = 2 ^ k" "unat (ring_size r) = N" "unat (ring_head r) = h"
    "unat (ring_tail r) = t" "h < N" "t < N" "length (ring_buffer r) = N" "N < 2 ^ 32"
    "\<And>x. unat (x AND ring_mask r) = unat x mod N" by (rule ring_nat) blast
  define m where "m = unat n"
  let ?buf = "take h (ring_buffer r) @ take m xs @ drop (h + m) (ring_buffer r)"
  let ?r = "r\<lparr>ring_buffer := ?buf\<rparr>"
  have fit': "h + m \<le> N" "ring_used r + m < N" "m \<le> length xs" using fit xs k m_def by simp_all
  have copy: "copy_in (ring_head r) xs n r = Some ?r"
    using fit' k by (simp add: copy_in_def Let_def m_def)
  have head: "unat (ring_head (ring_add n ?r)) = (h + m) mod N"
    using k fit' unat_add32 [of "ring_head r" n] by (simp add: ring_add_def m_def)
  have len: "length ?buf = N" using k fit' by simp
  have ok': "ring_ok (ring_add n ?r)"
    using ok head k len mod_less_divisor [of N "h + m"] unfolding ring_ok_def word_less_nat_alt
    by (simp add: ring_add_def m_def)
  have used: "ring_used (ring_add n ?r) = ring_used r + m"
    using head fit' k by (auto simp: ring_used_def ring_add_def m_def le_less)
  have "ring_items (ring_add n ?r) = ring_items r @ take m xs"
  proof (rule nth_equalityI)
    show "length (ring_items (ring_add n ?r)) = length (ring_items r @ take m xs)"
      using used fit' by simp
    fix i assume "i < length (ring_items (ring_add n ?r))"
    then have i: "i < ring_used r + m" using used by simp
    have at: "ring_items (ring_add n ?r) ! i = ?buf ! ((t + i) mod N)"
      using i used k by (simp add: ring_items_def ring_add_def del: append.simps)
    show "ring_items (ring_add n ?r) ! i = (ring_items r @ take m xs) ! i"
    proof (cases "i < ring_used r")
      case True
      then have "(t + i) mod N < h \<or> h + m \<le> (t + i) mod N \<and> (t + i) mod N < N"
        using k(3-7) fit' by (auto simp: ring_used_def mod_if split: if_splits)
      then have "?buf ! ((t + i) mod N) = ring_buffer r ! ((t + i) mod N)"
        using k(8) fit' by (auto simp: nth_append)
      then show ?thesis using at True k by (simp add: nth_append ring_items_def)
    next
      case False
      then have "(t + i) mod N = h + (i - ring_used r)"
        using k(3-7) fit' i by (auto simp: ring_used_def mod_if split: if_splits)
      then show ?thesis using at False i k fit' by (auto simp: nth_append)
    qed
  qed
  then show ?thesis using copy ok' head k by (intro exI [of _ ?r]) (simp add: m_def ring_add_def)
qed

lemma pull_chunk:
  assumes ok: "ring_ok r"
    and fit: "unat (ring_tail r) + unat n \<le> unat (ring_size r)" "unat n \<le> ring_used r"
  shows "copy_out (ring_tail r) n r = Some (take (unat n) (ring_items r)) \<and> ring_ok (ring_consume n r) \<and>
    ring_items (ring_consume n r) = drop (unat n) (ring_items r) \<and> ring_size (ring_consume n r) = ring_size r \<and>
    unat (ring_tail (ring_consume n r)) = (unat (ring_tail r) + unat n) mod unat (ring_size r) \<and>
    ring_head (ring_consume n r) = ring_head r"
proof -
  from ok obtain k N h t where k: "k < 32" "N = 2 ^ k" "unat (ring_size r) = N" "unat (ring_head r) = h"
    "unat (ring_tail r) = t" "h < N" "t < N" "length (ring_buffer r) = N" "N < 2 ^ 32"
    "\<And>x. unat (x AND ring_mask r) = unat x mod N" by (rule ring_nat) blast
  define m where "m = unat n"
  have fit': "t + m \<le> N" "m \<le> ring_used r" using fit k m_def by simp_all
  have tail: "unat (ring_tail (ring_consume n r)) = (t + m) mod N"
    using k fit' unat_add32 [of "ring_tail r" n] by (simp add: ring_consume_def m_def)
  have ok': "ring_ok (ring_consume n r)"
    using ok tail k mod_less_divisor [of N "t + m"] unfolding ring_ok_def word_less_nat_alt
    by (simp add: ring_consume_def)
  have used: "ring_used (ring_consume n r) = ring_used r - m"
    using tail fit' k by (auto simp: ring_used_def ring_consume_def le_less split: if_splits)
  have le: "ring_used r < N" using k by (auto simp: ring_used_def)
  have "ring_items (ring_consume n r) = drop m (ring_items r)"
  proof (rule nth_equalityI)
    show "length (ring_items (ring_consume n r)) = length (drop m (ring_items r))" by (simp add: used)
    fix i assume "i < length (ring_items (ring_consume n r))"
    then have i: "i < ring_used r - m" by (simp add: used)
    have "((t + m) mod N + i) mod N = (t + (m + i)) mod N" by (simp add: mod_add_left_eq add.assoc)
    moreover have "m + i < ring_used r" using i by simp
    ultimately show "ring_items (ring_consume n r) ! i = drop m (ring_items r) ! i"
      using i used k tail by (simp add: ring_items_def ring_consume_def)
  qed
  moreover have "copy_out (ring_tail r) n r = Some (take m (ring_items r))"
  proof -
    have "take m (drop t (ring_buffer r)) = take m (ring_items r)"
      using fit' k le by (intro nth_equalityI) (auto simp: ring_items_def)
    then show ?thesis using fit' k by (simp add: copy_out_def Let_def m_def)
  qed
  ultimately show ?thesis using ok' tail k by (simp add: m_def ring_consume_def)
qed

section \<open>The operations\<close>

text \<open>The bytes that fit into the next contiguous piece, against all that fit.\<close>

lemma write_room:
  assumes ok: "ring_ok r"
  shows "unat (snd (getWritePointer r)) =
      (if unat (ring_head r) < unat (ring_tail r) then unat (ring_tail r) - unat (ring_head r) - 1
       else unat (ring_size r) - unat (ring_head r) - (if ring_tail r = 0 then 1 else 0))"
    "unat (ring_head r) + unat (snd (getWritePointer r)) \<le> unat (ring_size r)"
    "ring_used r + unat (snd (getWritePointer r)) < unat (ring_size r)"
proof -
  from ok have lt: "ring_head r < ring_size r" "ring_tail r < ring_size r" by (simp_all add: ring_ok_def)
  have sub: "unat (a - b) = unat a - unat b" if "b \<le> a" for a b :: u32 using that by (rule unat_sub)
  have sub1: "unat (a - b - 1) = unat a - unat b - 1" if "b < a" for a b :: u32
  proof -
    have "unat (a - b) \<noteq> 0" using that sub [of b a] by (simp add: word_less_nat_alt word_le_nat_alt)
    then have "1 \<le> a - b" by (simp add: word_le_nat_alt)
    then show ?thesis using that sub [of 1 "a - b"] sub [of b a] by simp
  qed
  show room: "unat (snd (getWritePointer r)) =
      (if unat (ring_head r) < unat (ring_tail r) then unat (ring_tail r) - unat (ring_head r) - 1
       else unat (ring_size r) - unat (ring_head r) - (if ring_tail r = 0 then 1 else 0))"
    using lt sub [of "ring_head r" "ring_size r"] sub1
    by (simp add: getWritePointer_def Let_def word_less_nat_alt [symmetric] less_imp_le)
  show "unat (ring_head r) + unat (snd (getWritePointer r)) \<le> unat (ring_size r)"
    "ring_used r + unat (snd (getWritePointer r)) < unat (ring_size r)"
    unfolding room ring_used_def using lt
      unat_gt_0 [of "ring_tail r"]
    by (auto simp: word_less_nat_alt unat_eq_zero)
qed

lemma read_avail:
  assumes ok: "ring_ok r"
  shows "unat (snd (getReadPointer r)) =
      (if unat (ring_head r) < unat (ring_tail r) then unat (ring_size r) - unat (ring_tail r)
       else unat (ring_head r) - unat (ring_tail r))"
    "unat (ring_tail r) + unat (snd (getReadPointer r)) \<le> unat (ring_size r)"
    "unat (snd (getReadPointer r)) \<le> ring_used r"
proof -
  from ok have lt: "ring_head r < ring_size r" "ring_tail r < ring_size r" by (simp_all add: ring_ok_def)
  have sub: "unat (a - b) = unat a - unat b" if "b \<le> a" for a b :: u32 using that by (rule unat_sub)
  show avail: "unat (snd (getReadPointer r)) =
      (if unat (ring_head r) < unat (ring_tail r) then unat (ring_size r) - unat (ring_tail r)
       else unat (ring_head r) - unat (ring_tail r))"
    using lt sub by (simp add: getReadPointer_def word_less_nat_alt [symmetric] less_imp_le)
  show "unat (ring_tail r) + unat (snd (getReadPointer r)) \<le> unat (ring_size r)"
    "unat (snd (getReadPointer r)) \<le> ring_used r"
    unfolding avail ring_used_def using lt by (auto simp: word_less_nat_alt)
qed

lemma ring_masked:
  assumes "ring_ok r"
  shows "unat (of_nat x AND ring_mask r) = x mod unat (ring_size r)"
proof -
  from assms obtain k N where k: "k < 32" "N = 2 ^ k" "unat (ring_size r) = N"
    "\<And>x. unat (x AND ring_mask r) = unat x mod N"
    by (rule ring_nat) blast
  have "N dvd 2 ^ 32" unfolding k(2) using k(1) by (intro le_imp_power_dvd) simp
  then show ?thesis unfolding k(3, 4) unsigned_of_nat take_bit_nat_def by (simp add: mod_mod_cancel)
qed

lemma ring_count_used:
  assumes ok: "ring_ok r"
  shows "unat (ring_count r) = ring_used r" "unat (ring_free r) = ring_capacity r - ring_used r"
    "ring_full r \<longleftrightarrow> ring_used r = ring_capacity r"
proof -
  from ok obtain N h t where k: "unat (ring_size r) = N" "unat (ring_head r) = h"
    "unat (ring_tail r) = t" "h < N" "t < N" "N < 2 ^ 32"
    "ring_size r = of_nat N" "ring_head r = of_nat h" "ring_tail r = of_nat t"
    by (rule ring_nat) blast
  have used: "ring_used r < N" using k by (auto simp: ring_used_def)
  have "ring_size r + ring_head r - ring_tail r = of_nat (N + h - t)"
    using k(4-9) by (simp add: of_nat_diff)
  then have "unat (ring_count r) = (N + h - t) mod N"
    using ring_masked [OF ok] k(1) by (simp add: ring_count_def)
  also have "\<dots> = ring_used r" using k by (auto simp: ring_used_def mod_if)
  finally show count: "unat (ring_count r) = ring_used r" .
  have free: "ring_free r = of_nat (N - ring_used r - 1)"
  proof -
    have "ring_count r = of_nat (ring_used r)" by (simp flip: count)
    moreover have "(of_nat (N - (ring_used r + 1)) :: u32) = of_nat N - of_nat (ring_used r + 1)"
      using used by (intro of_nat_diff) simp
    ultimately show ?thesis using k(7) by (simp add: ring_free_def algebra_simps)
  qed
  have "unat (ring_free r) = take_bit 32 (N - ring_used r - 1)" unfolding free unsigned_of_nat by simp
  also have "\<dots> = N - ring_used r - 1" using k(6) by (intro take_bit_nat_eq_self) simp
  finally show "unat (ring_free r) = ring_capacity r - ring_used r"
    using k(1) by (simp add: ring_capacity_def)
  have "ring_tail r + ring_size r - 1 = of_nat (t + N - 1)"
    using k(4-9) by (simp add: of_nat_diff)
  then have "unat ((ring_tail r + ring_size r - 1) AND ring_mask r) = (t + N - 1) mod N"
    using ring_masked [OF ok] k(1) by simp
  then have "ring_full r \<longleftrightarrow> h = (t + N - 1) mod N"
    using k(2) by (simp add: ring_full_def word_unat_eq_iff)
  also have "\<dots> \<longleftrightarrow> ring_used r = ring_capacity r"
    using k by (cases "t = 0") (auto simp: ring_used_def ring_capacity_def mod_if)
  finally show "ring_full r \<longleftrightarrow> ring_used r = ring_capacity r" .
qed

lemma ring_bounds:
  assumes "ring_ok r"
  shows "unat (ring_head r) < unat (ring_size r)" "unat (ring_tail r) < unat (ring_size r)"
  using assms by (simp_all add: ring_ok_def word_less_nat_alt)

lemma no_room:
  assumes "ring_ok r" "snd (getWritePointer r) = 0"
  shows "ring_used r = ring_capacity r"
proof -
  have "unat (snd (getWritePointer r)) = 0" using assms(2) by simp
  then show ?thesis
    using write_room(1) [OF assms(1)] ring_bounds [OF assms(1)]
    by (auto simp: ring_capacity_def ring_used_def unat_eq_zero split: if_splits)
qed

lemma no_avail:
  assumes "ring_ok r" "snd (getReadPointer r) = 0"
  shows "ring_used r = 0"
proof -
  have "unat (snd (getReadPointer r)) = 0" using assms(2) by simp
  then show ?thesis
    using read_avail(1) [OF assms(1)] ring_bounds [OF assms(1)]
    by (auto simp: ring_used_def split: if_splits)
qed

text \<open>One piece of a \<open>put\<close>, and the room it leaves when it used up all of its own.\<close>

lemma put_piece:
  assumes ok: "ring_ok r" and n: "unat n \<le> length xs" "n \<le> snd (getWritePointer r)"
  obtains r' where "copy_in (fst (getWritePointer r)) xs n r = Some r'" "ring_ok (ring_add n r')"
    "ring_items (ring_add n r') = ring_items r @ take (unat n) xs"
    "ring_size (ring_add n r') = ring_size r" "ring_used (ring_add n r') = ring_used r + unat n"
    "n = snd (getWritePointer r) \<Longrightarrow>
      unat (snd (getWritePointer (ring_add n r'))) = ring_capacity r - ring_used r - unat n"
proof -
  have le: "unat n \<le> unat (snd (getWritePointer r))" using n(2) by (simp add: word_le_nat_alt)
  have to: "fst (getWritePointer r) = ring_head r" by (simp add: getWritePointer_def)
  obtain r' where r': "copy_in (ring_head r) xs n r = Some r'" "ring_ok (ring_add n r')"
    "ring_items (ring_add n r') = ring_items r @ take (unat n) xs" "ring_size r' = ring_size r"
    "unat (ring_head (ring_add n r')) = (unat (ring_head r) + unat n) mod unat (ring_size r)"
    "ring_tail r' = ring_tail r"
    using push_chunk [OF ok n(1)] write_room(2, 3) [OF ok] le by auto
  have same: "ring_size (ring_add n r') = ring_size r" "ring_tail (ring_add n r') = ring_tail r"
    using r' by (simp_all add: ring_add_def)
  have used: "ring_used (ring_add n r') = ring_used r + unat n"
    using arg_cong [OF r'(3), of length] n(1) by simp
  have "unat (snd (getWritePointer (ring_add n r'))) = ring_capacity r - ring_used r - unat n"
    if "n = snd (getWritePointer r)"
  proof -
    have "unat n = unat (snd (getWritePointer r))" using that by simp
    note n' = this [unfolded write_room(1) [OF ok]]
    show ?thesis
      unfolding write_room(1) [OF r'(2)] same r'(5)
      using ring_bounds [OF ok] unat_gt_0 [of "ring_tail r"] n'
      by (cases "ring_tail r = 0"; cases "unat (ring_head r) < unat (ring_tail r)")
        (auto simp: ring_capacity_def ring_used_def)
  qed
  then show ?thesis using r' to same used by (intro that) simp_all
qed

lemma get_piece:
  assumes ok: "ring_ok r" and n: "n \<le> snd (getReadPointer r)"
  shows "copy_out (fst (getReadPointer r)) n r = Some (take (unat n) (ring_items r))"
    "ring_ok (ring_consume n r)" "ring_items (ring_consume n r) = drop (unat n) (ring_items r)"
    "ring_size (ring_consume n r) = ring_size r" "ring_used (ring_consume n r) = ring_used r - unat n"
    "n = snd (getReadPointer r) \<Longrightarrow> unat (snd (getReadPointer (ring_consume n r))) = ring_used r - unat n"
proof -
  have le: "unat n \<le> unat (snd (getReadPointer r))" using n by (simp add: word_le_nat_alt)
  have from_: "fst (getReadPointer r) = ring_tail r" by (simp add: getReadPointer_def)
  have fit: "unat (ring_tail r) + unat n \<le> unat (ring_size r)" "unat n \<le> ring_used r"
    using read_avail(2, 3) [OF ok] le by linarith+
  note p = pull_chunk [OF ok fit]
  show "copy_out (fst (getReadPointer r)) n r = Some (take (unat n) (ring_items r))" using p from_ by simp
  show ok': "ring_ok (ring_consume n r)" using p by simp
  show items: "ring_items (ring_consume n r) = drop (unat n) (ring_items r)" using p by simp
  show "ring_size (ring_consume n r) = ring_size r" using p by simp
  show "ring_used (ring_consume n r) = ring_used r - unat n"
    using arg_cong [OF items, of length] by simp
  show "unat (snd (getReadPointer (ring_consume n r))) = ring_used r - unat n"
    if "n = snd (getReadPointer r)"
  proof -
    have p': "ring_size (ring_consume n r) = ring_size r" "ring_head (ring_consume n r) = ring_head r"
      "unat (ring_tail (ring_consume n r)) = (unat (ring_tail r) + unat n) mod unat (ring_size r)"
      using p by simp_all
    have "unat n = unat (snd (getReadPointer r))" using that by simp
    note n' = this [unfolded read_avail(1) [OF ok]]
    show ?thesis
      unfolding read_avail(1) [OF ok'] p'
      using ring_bounds [OF ok] n'
      by (cases "unat (ring_head r) < unat (ring_tail r)") (auto simp: ring_used_def)
  qed
qed

lemma put_accepts:
  assumes ok: "ring_ok r" and sz: "length xs = unat insize"
  shows "\<exists>n r'. ring_put insize xs r = Some (n, r') \<and> ring_ok r' \<and> ring_size r' = ring_size r \<and>
    unat n = min (length xs) (ring_capacity r - ring_used r) \<and>
    ring_items r' = ring_items r @ take (unat n) xs"
proof -
  obtain to n where wp: "getWritePointer r = (to, n)" by fastforce
  define n1 where "n1 = (if insize < n then insize else n)"
  have n1: "n1 \<le> n" "unat n1 \<le> length xs" by (auto simp: n1_def sz word_less_nat_alt word_le_nat_alt)
  obtain r1 where r1: "copy_in to xs n1 r = Some r1" "ring_ok (ring_add n1 r1)"
    "ring_items (ring_add n1 r1) = ring_items r @ take (unat n1) xs" "ring_size (ring_add n1 r1) = ring_size r"
    "ring_used (ring_add n1 r1) = ring_used r + unat n1"
    "n1 = n \<Longrightarrow> unat (snd (getWritePointer (ring_add n1 r1))) = ring_capacity r - ring_used r - unat n1"
    by (rule put_piece [OF ok n1(2)]) (use n1 wp in auto)
  let ?r1 = "ring_add n1 r1"
  have cap: "ring_capacity ?r1 = ring_capacity r" by (simp add: ring_capacity_def r1(4))
  consider "n = 0" | "n \<noteq> 0" "n1 = insize" | "n \<noteq> 0" "n1 = n" "insize - n1 \<noteq> 0" "unat n < unat insize"
    using n1_def by (auto simp: word_less_nat_alt split: if_splits) (metis le_neq_implies_less not_less word_unat_eq_iff)
  then show ?thesis
  proof cases
    case 1
    then show ?thesis using ok no_room [OF ok] wp by (simp add: ring_put_def)
  next
    case 2
    have "unat n1 \<le> ring_capacity r - ring_used r"
      using write_room(3) [OF ok] wp n1(1) by (simp add: ring_capacity_def word_le_nat_alt)
    moreover have "ring_put insize xs r = Some (n1, ?r1)"
      using 2 r1(1) by (simp add: ring_put_def wp n1_def [symmetric] Let_def)
    ultimately show ?thesis using r1 2 sz by (intro exI [of _ n1] exI [of _ ?r1]) simp
  next
    case 3
    obtain to2 m where wp2: "getWritePointer ?r1 = (to2, m)" by fastforce
    have m: "unat m = ring_capacity r - ring_used r - unat n1" using r1(6) 3(2) wp2 by simp
    have rest: "unat (insize - n1) = length xs - unat n1"
      using 3 by (simp add: unat_sub sz word_le_nat_alt)
    define m1 where "m1 = (if insize - n1 < m then insize - n1 else m)"
    have m1: "m1 \<le> m" "unat m1 \<le> length (drop (unat n1) xs)"
      by (auto simp: m1_def rest [symmetric] word_less_nat_alt word_le_nat_alt)
    obtain r2 where r2: "copy_in to2 (drop (unat n1) xs) m1 ?r1 = Some r2" "ring_ok (ring_add m1 r2)"
      "ring_items (ring_add m1 r2) = ring_items ?r1 @ take (unat m1) (drop (unat n1) xs)"
      "ring_size (ring_add m1 r2) = ring_size ?r1"
      by (rule put_piece [OF r1(2) m1(2)]) (use m1 wp2 in auto)
    have m1_min: "unat m1 = min (length xs - unat n1) (unat m)"
      by (auto simp: m1_def rest [symmetric] word_less_nat_alt min_def)
    have le: "unat n1 \<le> ring_capacity r - ring_used r"
      using write_room(3) [OF ok] wp 3(2) by (simp add: ring_capacity_def)
    show ?thesis
    proof (cases "m = 0")
      case True
      then have "ring_put insize xs r = Some (n1, ?r1)"
        using 3 r1(1) wp2 by (simp add: ring_put_def wp n1_def [symmetric] Let_def)
      moreover have "unat n1 = min (length xs) (ring_capacity r - ring_used r)"
        using True m le n1(2) by simp
      ultimately show ?thesis using r1 by blast
    next
      case False
      have put: "ring_put insize xs r = Some (n1 + m1, ring_add m1 r2)"
        using 3 r1(1) wp2 r2(1) False
        by (cases "insize - n < m") (simp_all add: ring_put_def wp n1_def [symmetric] m1_def Let_def)
      have "unat n1 + unat m1 \<le> unat insize" using m1_min n1(2) sz by simp
      then have sum: "unat (n1 + m1) = unat n1 + unat m1"
        using unsigned_less [where 'a = nat, of insize] by (intro unat_add32) simp
      then have "unat (n1 + m1) = min (length xs) (ring_capacity r - ring_used r)"
        using le n1(2) unfolding sum m1_min m by arith
      moreover have "ring_items (ring_add m1 r2) = ring_items r @ take (unat (n1 + m1)) xs"
        unfolding sum using r2(3) r1(3) by (simp add: take_add)
      ultimately show ?thesis using put r2(2, 4) r1(4) by simp
    qed
  qed
qed

lemma get_delivers:
  assumes ok: "ring_ok r"
  shows "\<exists>r'. ring_get sz r = Some (take (unat sz) (ring_items r), r') \<and> ring_ok r' \<and>
    ring_size r' = ring_size r \<and> ring_items r' = drop (unat sz) (ring_items r)"
proof -
  define s1 where "s1 = CMIN sz (ring_count r)"
  have s1: "unat s1 = min (unat sz) (ring_used r)"
    by (simp add: s1_def CMIN_def word_le_nat_alt ring_count_used(1) [OF ok] min_def)
  have items: "take (unat sz) (ring_items r) = take (unat s1) (ring_items r)"
    "drop (unat sz) (ring_items r) = drop (unat s1) (ring_items r)"
    unfolding s1 by (simp_all add: min_def)
  obtain from1 n where rp: "getReadPointer r = (from1, n)" by fastforce
  define n1 where "n1 = (if s1 < n then s1 else n)"
  have n1: "n1 \<le> n" by (auto simp: n1_def)
  note p = get_piece [OF ok, of n1, unfolded rp fst_conv snd_conv, OF n1]
  let ?r1 = "ring_consume n1 r"
  consider "n = 0" | "n \<noteq> 0" "n1 = s1" | "n \<noteq> 0" "n1 = n" "s1 - n1 \<noteq> 0" "unat n < unat s1"
    using n1_def by (auto simp: word_less_nat_alt split: if_splits) (metis le_neq_implies_less not_less word_unat_eq_iff)
  then show ?thesis
  proof cases
    case 1
    then have "ring_items r = []" using no_avail [OF ok] rp by (simp add: ring_items_def)
    then show ?thesis using 1 ok rp by (simp add: ring_get_def)
  next
    case 2
    then have "ring_get sz r = Some (take (unat s1) (ring_items r), ?r1)"
      using p(1) by (simp add: ring_get_def rp s1_def [symmetric] n1_def [symmetric] Let_def)
    then show ?thesis using p(2-4) items 2 by simp
  next
    case 3
    obtain from2 m where rp2: "getReadPointer ?r1 = (from2, m)" by fastforce
    have m: "unat m = ring_used r - unat n1" using p(6) 3(2) rp2 by simp
    have rest: "unat (s1 - n1) = unat s1 - unat n1"
      using 3 by (simp add: unat_sub word_le_nat_alt)
    define m1 where "m1 = (if s1 - n1 < m then s1 - n1 else m)"
    have m1: "m1 \<le> m" by (auto simp: m1_def)
    have "unat m1 = unat s1 - unat n1"
      using s1 m rest by (auto simp: m1_def word_less_nat_alt min_def split: if_splits)
    then have split: "unat s1 = unat n1 + unat m1" using 3 by simp
    note q = get_piece [OF p(2), of m1, unfolded rp2 fst_conv snd_conv, OF m1]
    have "m \<noteq> 0" using m s1 3 by auto
    then have "ring_get sz r =
        Some (take (unat n1) (ring_items r) @ take (unat m1) (ring_items ?r1), ring_consume m1 ?r1)"
      using 3 p(1) rp2 q(1)
      by (cases "s1 - n1 < m")
        (simp_all add: ring_get_def rp s1_def [symmetric] n1_def [symmetric] m1_def Let_def)
    moreover have "take (unat sz) (ring_items r) = take (unat n1) (ring_items r) @ take (unat m1) (drop (unat n1) (ring_items r))"
      unfolding items(1) split by (rule take_add)
    moreover have "drop (unat sz) (ring_items r) = drop (unat m1) (drop (unat n1) (ring_items r))"
      unfolding items(2) split by (simp add: add.commute)
    ultimately show ?thesis using q(2-4) p(3, 4) by (simp del: drop_drop)
  qed
qed

section \<open>The interface\<close>

text \<open>A bounded byte queue: \<open>push\<close> accepts as many bytes as fit, in order; \<open>pull\<close> delivers the
  oldest ones. Requests are shorter than \<open>lim\<close>.\<close>

locale fifo =
  fixes ok :: "'q \<Rightarrow> bool" and items :: "'q \<Rightarrow> 'a list" and cap :: "'q \<Rightarrow> nat" and lim :: nat
    and push :: "'a list \<Rightarrow> 'q \<Rightarrow> (nat \<times> 'q) option" and pull :: "nat \<Rightarrow> 'q \<Rightarrow> ('a list \<times> 'q) option"
  assumes push_law: "ok q \<Longrightarrow> length xs < lim \<Longrightarrow>
      \<exists>n q'. push xs q = Some (n, q') \<and> ok q' \<and> cap q' = cap q \<and>
        n = min (length xs) (cap q - length (items q)) \<and> items q' = items q @ take n xs"
    and pull_law: "ok q \<Longrightarrow> n < lim \<Longrightarrow>
      \<exists>q'. pull n q = Some (take n (items q), q') \<and> ok q' \<and> cap q' = cap q \<and> items q' = drop n (items q)"
    and bounded: "ok q \<Longrightarrow> length (items q) \<le> cap q"

datatype 'a fifo_op = Push "'a list" | Pull nat

fun op_size :: "'a fifo_op \<Rightarrow> nat" where
  "op_size (Push xs) = length xs"
| "op_size (Pull n) = n"

text \<open>A run of a queue: the reply to each call, and the final state; \<open>None\<close> when a call fails.\<close>

datatype 'a fifo_reply = Accepted nat | Delivered "'a list"

fun fifo_run ::
  "('a list \<Rightarrow> 'q \<Rightarrow> (nat \<times> 'q) option) \<Rightarrow> (nat \<Rightarrow> 'q \<Rightarrow> ('a list \<times> 'q) option) \<Rightarrow>
     'a fifo_op list \<Rightarrow> 'q \<Rightarrow> ('a fifo_reply list \<times> 'q) option" where
  "fifo_run push pull [] q = Some ([], q)"
| "fifo_run push pull (Push xs # ops) q = do {
     (n, q) \<leftarrow> push xs q;
     (replies, q) \<leftarrow> fifo_run push pull ops q;
     Some (Accepted n # replies, q)
   }"
| "fifo_run push pull (Pull n # ops) q = do {
     (ys, q) \<leftarrow> pull n q;
     (replies, q) \<leftarrow> fifo_run push pull ops q;
     Some (Delivered ys # replies, q)
   }"

text \<open>The abstract queue: a list of at most \<open>cap\<close> items. A push takes the items that still fit, a pull
  the oldest ones.\<close>

fun queue_run :: "nat \<Rightarrow> 'a fifo_op list \<Rightarrow> 'a list \<Rightarrow> 'a fifo_reply list \<times> 'a list" where
  "queue_run cap [] q = ([], q)"
| "queue_run cap (Push xs # ops) q =
     (let n = min (length xs) (cap - length q); (replies, q') = queue_run cap ops (q @ take n xs)
      in (Accepted n # replies, q'))"
| "queue_run cap (Pull n # ops) q =
     (let (replies, q') = queue_run cap ops (drop n q) in (Delivered (take n q) # replies, q'))"

context fifo begin

lemma run_refines:
  assumes "ok q" "\<forall>x\<in>set ops. op_size x < lim"
  shows "\<exists>replies q'. fifo_run push pull ops q = Some (replies, q') \<and> ok q' \<and>
    queue_run (cap q) ops (items q) = (replies, items q')"
  using assms
proof (induction ops arbitrary: q)
  case (Cons x ops)
  have small: "op_size x < lim" and rest: "\<forall>x\<in>set ops. op_size x < lim" using Cons.prems(2) by simp_all
  show ?case
  proof (cases x)
    case (Push xs)
    then obtain n q1 where q1: "push xs q = Some (n, q1)" "ok q1" "cap q1 = cap q"
      "n = min (length xs) (cap q - length (items q))" "items q1 = items q @ take n xs"
      using push_law [OF Cons.prems(1), of xs] small by auto
    show ?thesis using Cons.IH [OF q1(2) rest] q1 Push by (auto simp: Let_def)
  next
    case (Pull n)
    then obtain q1 where q1: "pull n q = Some (take n (items q), q1)" "ok q1" "cap q1 = cap q"
      "items q1 = drop n (items q)"
      using pull_law [OF Cons.prems(1), of n] small by auto
    show ?thesis using Cons.IH [OF q1(2) rest] q1 Pull by auto
  qed
qed simp

end

text \<open>The class as such a queue, with the calls as a C++ program makes them.\<close>

definition ring_push :: "u8 list \<Rightarrow> ring \<Rightarrow> (nat \<times> ring) option" where
  "ring_push xs r = map_option (\<lambda>(n, r'). (unat n, r')) (ring_put (of_nat (length xs)) xs r)"

definition ring_pull :: "nat \<Rightarrow> ring \<Rightarrow> (u8 list \<times> ring) option" where
  "ring_pull n r = ring_get (of_nat n) r"

lemma unat_of_nat32: "n < 2 ^ 32 \<Longrightarrow> unat (of_nat n :: u32) = n"
  by (simp add: unsigned_of_nat take_bit_nat_eq_self)

interpretation ringq: fifo ring_ok ring_items ring_capacity "2 ^ 32" ring_push ring_pull
proof (unfold_locales, goal_cases)
  case (1 q xs)
  have "length xs = unat (of_nat (length xs) :: u32)" by (rule unat_of_nat32 [OF 1(2), symmetric])
  from put_accepts [OF 1(1) this] show ?case
    by (auto simp: ring_push_def ring_capacity_def)
next
  case (2 q n)
  then show ?case
    using get_delivers [OF 2(1), of "of_nat n"] unat_of_nat32 [OF 2(2)]
    by (auto simp: ring_pull_def ring_capacity_def)
next
  case (3 q)
  then show ?case using write_room(3) [OF 3] by (simp add: ring_capacity_def)
qed

section \<open>Properties\<close>

lemma new_ok:
  assumes "k < 32"
  shows "\<exists>r. ring_new (2 ^ k) = Some r \<and> ring_ok r \<and> ring_items r = [] \<and> ring_capacity r = 2 ^ k - 1"
proof -
  have "(2 :: u32) ^ k AND NOT (2 ^ k - 1) = 2 ^ k"
    unfolding mask_eq_exp_minus_1 [symmetric]
    by (rule bit_word_eqI) (auto simp: bit_exp_iff bit_and_iff bit_not_iff bit_mask_iff)
  moreover have N: "unat ((2 :: u32) ^ k) = 2 ^ k"
    using unat_of_nat32 [of "2 ^ k"] power_strict_increasing [OF assms, of "2 :: nat"] by simp
  moreover have "(0 :: u32) < 2 ^ k" using N by (simp add: word_less_nat_alt)
  ultimately show ?thesis
    using assms by (auto simp: ring_new_def ring_ok_def ring_items_def ring_used_def ring_capacity_def)
qed

text \<open>C32: a queue whose size is a power of two behaves, over any sequence of calls from its
  construction, exactly as the abstract queue with one place less than its size: every call succeeds,
  each \<open>put\<close> accepts as many bytes as the abstract queue has room for, each \<open>get\<close> returns the oldest
  bytes, as many as were asked for and are there, and the bytes left at the end are those of the
  abstract queue. So none is lost, repeated or overtaken, and no room is wasted when the indices wrap.\<close>

theorem ring_streams:
  assumes "k < 32" "\<forall>x\<in>set ops. op_size x < 2 ^ 32" "ring_new (2 ^ k) = Some r"
  shows "\<exists>replies r'. fifo_run ring_push ring_pull ops r = Some (replies, r') \<and>
    queue_run (2 ^ k - 1) ops [] = (replies, ring_items r')"
proof -
  have r: "ring_ok r" "ring_items r = []" "ring_capacity r = 2 ^ k - 1"
    using new_ok [OF assms(1)] assms(3) by auto
  from ringq.run_refines [OF r(1) assms(2)] r(2, 3) show ?thesis by auto
qed

text \<open>A queue of four places: the third call wraps around the end of the buffer and finds room for two
  of its three bytes; the fourth reads across the end.\<close>

lemma ring_streams_witness:
  "\<exists>r r'. ring_new 4 = Some r \<and>
    fifo_run ring_push ring_pull [Push [1, 2], Pull 1, Push [3, 4, 5], Pull 7] r =
      Some ([Accepted 2, Delivered [1], Accepted 2, Delivered [2, 3, 4]], r') \<and> ring_items r' = []"
proof -
  let ?ops = "[Push [1, 2], Pull 1, Push [3, 4, 5], Pull 7] :: u8 fifo_op list"
  obtain r where r: "ring_new (2 ^ 2) = Some r" using new_ok [of 2] by auto
  have "\<forall>x\<in>set ?ops. op_size x < 2 ^ 32" by simp
  from ring_streams [OF _ this r] obtain replies r' where "fifo_run ring_push ring_pull ?ops r = Some (replies, r')"
    "queue_run (2 ^ 2 - 1) ?ops [] = (replies, ring_items r')" by auto
  moreover from this(2) have "replies = [Accepted 2, Delivered [1], Accepted 2, Delivered [2, 3, 4]]" "ring_items r' = []"
    by (simp_all add: eval_nat_numeral)
  ultimately show ?thesis using r by auto
qed

text \<open>C33: \<open>count\<close>, \<open>free\<close>, \<open>empty\<close> and \<open>full\<close> tell the number of stored bytes, the number that can still
  be stored, and when these are zero; all arithmetic stays correct when the indices wrap.\<close>

theorem ring_counts:
  assumes "ring_ok r"
  shows "unat (ring_count r) = length (ring_items r) \<and>
    unat (ring_free r) = ring_capacity r - length (ring_items r) \<and>
    ring_empty r = (ring_items r = []) \<and> ring_full r = (length (ring_items r) = ring_capacity r)"
proof -
  have "ring_empty r \<longleftrightarrow> ring_used r = 0"
    by (auto simp: ring_empty_def ring_used_def word_unat_eq_iff split: if_splits)
      (use ring_bounds [OF assms] in linarith)+
  then show ?thesis
    using ring_count_used [OF assms] length_items [of r] by (metis length_0_conv)
qed

lemma ring_counts_witness:
  "\<exists>r. ring_new 8 = Some r \<and> unat (ring_free r) = 7 \<and> ring_empty r"
proof -
  obtain r where "ring_new (2 ^ 3) = Some r" "ring_ok r" "ring_items r = []" "ring_capacity r = 2 ^ 3 - 1"
    using new_ok [of 3] by auto
  with ring_counts [of r] show ?thesis by auto
qed

text \<open>The assertion of the constructor lets the size 0 pass, and with it the first \<open>put\<close> writes
  outside the buffer.\<close>

theorem ring_size_zero:
  "\<exists>r. ring_new 0 = Some r \<and> ring_put 1 [x] r = None"
proof -
  have "unat (- 1 :: u32) = 2 ^ 32 - 1" by (simp add: unsigned_minus_1_eq_mask mask_eq_exp_minus_1)
  then have "(1 :: u32) < - 1" by (simp add: word_less_nat_alt)
  then show ?thesis by (simp add: ring_new_def ring_put_def getWritePointer_def copy_in_def Let_def)
qed

end
