(* ===== verification/Irq.thy ===== *)
theory Irq
  imports BootPrelude
begin

text \<open>
  Interrupts: the numbers of \<open>lnIRQ_arm.h\<close>, the vector table, and the operations of
  \<open>lnIRQ_arm_gd32fx.cpp\<close> on the interrupt controller and the system control block. A failed
  assertion is \<open>None\<close> in operations, and the action \<open>Crash\<close> in handlers.
\<close>

section \<open>Interrupt numbers\<close>

datatype LnIRQ =
    LN_IRQ_MSIP | LN_IRQ_RESET | LN_IRQ_NMI | LN_IRQ_HARDFAULT | LN_IRQ_MEMMANAGE |
    LN_IRQ_BUSFAULT | LN_IRQ_USAGEFAULT | LN_IRQ_RESERVED | LN_IRQ_SVCALL | LN_IRQ_DEBUGMON |
    LN_IRQ_RESERVED2 | LN_IRQ_PENDSV | LN_IRQ_SYSTICK | LN_IRQ_WWDG | LN_IRQ_LVD | LN_IRQ_TAMPER |
    LN_IRQ_RTC | LN_IRQ_FMC | LN_IRQ_RCU_RCC | LN_IRQ_EXTI0 | LN_IRQ_EXTI1 | LN_IRQ_EXTI2 |
    LN_IRQ_EXTI3 | LN_IRQ_EXTI4 | LN_IRQ_DMA0_Channel0 | LN_IRQ_DMA0_Channel1 |
    LN_IRQ_DMA0_Channel2 | LN_IRQ_DMA0_Channel3 | LN_IRQ_DMA0_Channel4 | LN_IRQ_DMA0_Channel5 |
    LN_IRQ_DMA0_Channel6 | LN_IRQ_ADC0_1 | LN_IRQ_USB_HP_CAN_TX | LN_IRQ_USB_LP_CAN_RX0 |
    LN_IRQ_CAN_RX1 | LN_IRQ_CAN_SCE | LN_IRQ_EXTI5_9 | LN_IRQ_TIMER0_BRK | LN_IRQ_TIMER0_UP |
    LN_IRQ_TIMER0_TRG_CMT | LN_IRQ_TIMER0_Channel | LN_IRQ_TIMER1 | LN_IRQ_TIMER2 | LN_IRQ_TIMER3 |
    LN_IRQ_I2C0_EV | LN_IRQ_I2C0_ER | LN_IRQ_I2C1_EV | LN_IRQ_I2C1_ER | LN_IRQ_SPI0 | LN_IRQ_SPI1 |
    LN_IRQ_USART0 | LN_IRQ_USART1 | LN_IRQ_USART2 | LN_IRQ_EXTI10_15 | LN_IRQ_RTCALARM |
    LN_IRQ_USBWAKEUP | LN_IRQ_TIMER7_BRK_TIMER12 | LN_IRQ_TIMER7_UP_TIMER13 |
    LN_IRQ_TIMER7_TRG_COM_TIMER14 | LN_IRQ_TIMER7_CC | LN_IRQ_ADC2 | LN_IRQ_FSMC | LN_IRQ_SDIO |
    LN_IRQ_TIMER4 | LN_IRQ_SPI2 | LN_IRQ_UART3 | LN_IRQ_UART4 | LN_IRQ_TIMER5 | LN_IRQ_TIMER6 |
    LN_IRQ_DMA1_Channel0 | LN_IRQ_DMA1_Channel1 | LN_IRQ_DMA1_Channel2 | LN_IRQ_DMA1_Channel3 |
    LN_IRQ_DMA1_Channel4 | LN_IRQ_ARM_LAST

primrec lnirq_code :: "LnIRQ \<Rightarrow> int" where
  "lnirq_code LN_IRQ_MSIP = -13"
| "lnirq_code LN_IRQ_RESET = -12"
| "lnirq_code LN_IRQ_NMI = -11"
| "lnirq_code LN_IRQ_HARDFAULT = -10"
| "lnirq_code LN_IRQ_MEMMANAGE = -9"
| "lnirq_code LN_IRQ_BUSFAULT = -8"
| "lnirq_code LN_IRQ_USAGEFAULT = -7"
| "lnirq_code LN_IRQ_RESERVED = -6"
| "lnirq_code LN_IRQ_SVCALL = -5"
| "lnirq_code LN_IRQ_DEBUGMON = -4"
| "lnirq_code LN_IRQ_RESERVED2 = -3"
| "lnirq_code LN_IRQ_PENDSV = -2"
| "lnirq_code LN_IRQ_SYSTICK = -1"
| "lnirq_code LN_IRQ_WWDG = 0"
| "lnirq_code LN_IRQ_LVD = 1"
| "lnirq_code LN_IRQ_TAMPER = 2"
| "lnirq_code LN_IRQ_RTC = 3"
| "lnirq_code LN_IRQ_FMC = 4"
| "lnirq_code LN_IRQ_RCU_RCC = 5"
| "lnirq_code LN_IRQ_EXTI0 = 6"
| "lnirq_code LN_IRQ_EXTI1 = 7"
| "lnirq_code LN_IRQ_EXTI2 = 8"
| "lnirq_code LN_IRQ_EXTI3 = 9"
| "lnirq_code LN_IRQ_EXTI4 = 10"
| "lnirq_code LN_IRQ_DMA0_Channel0 = 11"
| "lnirq_code LN_IRQ_DMA0_Channel1 = 12"
| "lnirq_code LN_IRQ_DMA0_Channel2 = 13"
| "lnirq_code LN_IRQ_DMA0_Channel3 = 14"
| "lnirq_code LN_IRQ_DMA0_Channel4 = 15"
| "lnirq_code LN_IRQ_DMA0_Channel5 = 16"
| "lnirq_code LN_IRQ_DMA0_Channel6 = 17"
| "lnirq_code LN_IRQ_ADC0_1 = 18"
| "lnirq_code LN_IRQ_USB_HP_CAN_TX = 19"
| "lnirq_code LN_IRQ_USB_LP_CAN_RX0 = 20"
| "lnirq_code LN_IRQ_CAN_RX1 = 21"
| "lnirq_code LN_IRQ_CAN_SCE = 22"
| "lnirq_code LN_IRQ_EXTI5_9 = 23"
| "lnirq_code LN_IRQ_TIMER0_BRK = 24"
| "lnirq_code LN_IRQ_TIMER0_UP = 25"
| "lnirq_code LN_IRQ_TIMER0_TRG_CMT = 26"
| "lnirq_code LN_IRQ_TIMER0_Channel = 27"
| "lnirq_code LN_IRQ_TIMER1 = 28"
| "lnirq_code LN_IRQ_TIMER2 = 29"
| "lnirq_code LN_IRQ_TIMER3 = 30"
| "lnirq_code LN_IRQ_I2C0_EV = 31"
| "lnirq_code LN_IRQ_I2C0_ER = 32"
| "lnirq_code LN_IRQ_I2C1_EV = 33"
| "lnirq_code LN_IRQ_I2C1_ER = 34"
| "lnirq_code LN_IRQ_SPI0 = 35"
| "lnirq_code LN_IRQ_SPI1 = 36"
| "lnirq_code LN_IRQ_USART0 = 37"
| "lnirq_code LN_IRQ_USART1 = 38"
| "lnirq_code LN_IRQ_USART2 = 39"
| "lnirq_code LN_IRQ_EXTI10_15 = 40"
| "lnirq_code LN_IRQ_RTCALARM = 41"
| "lnirq_code LN_IRQ_USBWAKEUP = 42"
| "lnirq_code LN_IRQ_TIMER7_BRK_TIMER12 = 43"
| "lnirq_code LN_IRQ_TIMER7_UP_TIMER13 = 44"
| "lnirq_code LN_IRQ_TIMER7_TRG_COM_TIMER14 = 45"
| "lnirq_code LN_IRQ_TIMER7_CC = 46"
| "lnirq_code LN_IRQ_ADC2 = 47"
| "lnirq_code LN_IRQ_FSMC = 48"
| "lnirq_code LN_IRQ_SDIO = 49"
| "lnirq_code LN_IRQ_TIMER4 = 50"
| "lnirq_code LN_IRQ_SPI2 = 51"
| "lnirq_code LN_IRQ_UART3 = 52"
| "lnirq_code LN_IRQ_UART4 = 53"
| "lnirq_code LN_IRQ_TIMER5 = 54"
| "lnirq_code LN_IRQ_TIMER6 = 55"
| "lnirq_code LN_IRQ_DMA1_Channel0 = 56"
| "lnirq_code LN_IRQ_DMA1_Channel1 = 57"
| "lnirq_code LN_IRQ_DMA1_Channel2 = 58"
| "lnirq_code LN_IRQ_DMA1_Channel3 = 59"
| "lnirq_code LN_IRQ_DMA1_Channel4 = 60"
| "lnirq_code LN_IRQ_ARM_LAST = 61"

text \<open>The enumeration compares by its numbers.\<close>

definition LnIRQ_list :: "LnIRQ list" where
  "LnIRQ_list =
    [LN_IRQ_MSIP, LN_IRQ_RESET, LN_IRQ_NMI, LN_IRQ_HARDFAULT, LN_IRQ_MEMMANAGE, LN_IRQ_BUSFAULT,
     LN_IRQ_USAGEFAULT, LN_IRQ_RESERVED, LN_IRQ_SVCALL, LN_IRQ_DEBUGMON, LN_IRQ_RESERVED2,
     LN_IRQ_PENDSV, LN_IRQ_SYSTICK, LN_IRQ_WWDG, LN_IRQ_LVD, LN_IRQ_TAMPER, LN_IRQ_RTC,
     LN_IRQ_FMC, LN_IRQ_RCU_RCC, LN_IRQ_EXTI0, LN_IRQ_EXTI1, LN_IRQ_EXTI2, LN_IRQ_EXTI3,
     LN_IRQ_EXTI4, LN_IRQ_DMA0_Channel0, LN_IRQ_DMA0_Channel1, LN_IRQ_DMA0_Channel2,
     LN_IRQ_DMA0_Channel3, LN_IRQ_DMA0_Channel4, LN_IRQ_DMA0_Channel5, LN_IRQ_DMA0_Channel6,
     LN_IRQ_ADC0_1, LN_IRQ_USB_HP_CAN_TX, LN_IRQ_USB_LP_CAN_RX0, LN_IRQ_CAN_RX1, LN_IRQ_CAN_SCE,
     LN_IRQ_EXTI5_9, LN_IRQ_TIMER0_BRK, LN_IRQ_TIMER0_UP, LN_IRQ_TIMER0_TRG_CMT,
     LN_IRQ_TIMER0_Channel, LN_IRQ_TIMER1, LN_IRQ_TIMER2, LN_IRQ_TIMER3, LN_IRQ_I2C0_EV,
     LN_IRQ_I2C0_ER, LN_IRQ_I2C1_EV, LN_IRQ_I2C1_ER, LN_IRQ_SPI0, LN_IRQ_SPI1, LN_IRQ_USART0,
     LN_IRQ_USART1, LN_IRQ_USART2, LN_IRQ_EXTI10_15, LN_IRQ_RTCALARM, LN_IRQ_USBWAKEUP,
     LN_IRQ_TIMER7_BRK_TIMER12, LN_IRQ_TIMER7_UP_TIMER13, LN_IRQ_TIMER7_TRG_COM_TIMER14,
     LN_IRQ_TIMER7_CC, LN_IRQ_ADC2, LN_IRQ_FSMC, LN_IRQ_SDIO, LN_IRQ_TIMER4, LN_IRQ_SPI2,
     LN_IRQ_UART3, LN_IRQ_UART4, LN_IRQ_TIMER5, LN_IRQ_TIMER6, LN_IRQ_DMA1_Channel0,
     LN_IRQ_DMA1_Channel1, LN_IRQ_DMA1_Channel2, LN_IRQ_DMA1_Channel3, LN_IRQ_DMA1_Channel4,
     LN_IRQ_ARM_LAST]"

lemma LnIRQ_list_code: "LnIRQ_list ! nat (lnirq_code q + 13) = q"
  by (cases q) (simp_all add: LnIRQ_list_def)

lemma lnirq_code_inject [simp]: "lnirq_code q = lnirq_code q' \<longleftrightarrow> q = q'"
  using LnIRQ_list_code by metis

lemma lnirq_code_range: "- 13 \<le> lnirq_code q" "lnirq_code q \<le> 61"
  by (cases q; simp)+

instantiation LnIRQ :: linorder
begin

definition less_eq_LnIRQ :: "LnIRQ \<Rightarrow> LnIRQ \<Rightarrow> bool" where
  "less_eq_LnIRQ q q' \<longleftrightarrow> lnirq_code q \<le> lnirq_code q'"

definition less_LnIRQ :: "LnIRQ \<Rightarrow> LnIRQ \<Rightarrow> bool" where
  "less_LnIRQ q q' \<longleftrightarrow> lnirq_code q < lnirq_code q'"

instance
  by intro_classes (auto simp: less_eq_LnIRQ_def less_LnIRQ_def)

end

text \<open>The cast \<open>(LnIRQ)i\<close> of a valid number.\<close>

definition lnirq_of :: "int \<Rightarrow> LnIRQ" where
  "lnirq_of i = LnIRQ_list ! nat (i + 13)"

lemma lnirq_of_code [simp]: "lnirq_of (lnirq_code q) = q"
  by (simp add: lnirq_of_def LnIRQ_list_code)

lemma lnirq_code_of:
  assumes "- 13 \<le> i" "i \<le> 61"
  shows "lnirq_code (lnirq_of i) = i"
proof -
  have list: "map lnirq_code LnIRQ_list = [- 13 .. 61]" "length LnIRQ_list = 75"
    by (simp_all add: LnIRQ_list_def upto.simps)
  have n: "nat (i + 13) < 75" "- 13 + int (nat (i + 13)) = i" using assms by linarith+
  have "lnirq_code (lnirq_of i) = map lnirq_code LnIRQ_list ! nat (i + 13)"
    using n(1) list(2) by (simp only: lnirq_of_def nth_map)
  also have "\<dots> = - 13 + int (nat (i + 13))"
    unfolding list(1) by (rule nth_upto) (use n(2) assms(2) in simp)
  finally show ?thesis using n(2) by simp
qed

section \<open>State and registers\<close>

record 'h irq_world = "'h world" +
  adcIrqHandler :: "u32 option"
  curInterrupt :: u32
  curLnInterrupt :: int
  lnScratchRegister :: u32

abbreviation AIRCR_KEY :: u32 where "AIRCR_KEY \<equiv> 0x05FA0000"

datatype LN_SCB_Registers = SCB_CPU | SCB_ICSR | SCB_VTOR | SCB_AIRCR | SCB_SCR | SCB_CR | SCB_SHP | SCB_SHCSR

fun aSCB :: "LN_SCB_Registers \<Rightarrow> u32" where
  "aSCB SCB_CPU = 0xE000ED00"
| "aSCB SCB_ICSR = 0xE000ED04"
| "aSCB SCB_VTOR = 0xE000ED08"
| "aSCB SCB_AIRCR = 0xE000ED0C"
| "aSCB SCB_SCR = 0xE000ED10"
| "aSCB SCB_CR = 0xE000ED14"
| "aSCB SCB_SHP = 0xE000ED18"
| "aSCB SCB_SHCSR = 0xE000ED24"

text \<open>Each of the five banks is 32 words; the priorities follow 32 words after the last.\<close>

datatype LN_NVIC = ISER | ICER | ISPR | IPCR | IABR | IPR

fun anvic :: "LN_NVIC \<Rightarrow> u32" where
  "anvic ISER = 0xE000E100"
| "anvic ICER = 0xE000E180"
| "anvic ISPR = 0xE000E200"
| "anvic IPCR = 0xE000E280"
| "anvic IABR = 0xE000E300"
| "anvic IPR = 0xE000E400"

abbreviation configPRIO_BITS :: nat where "configPRIO_BITS \<equiv> 4"
abbreviation configLIBRARY_LOWEST_INTERRUPT_PRIORITY :: int where
  "configLIBRARY_LOWEST_INTERRUPT_PRIORITY \<equiv> 15"
abbreviation configLIBRARY_MAX_SYSCALL_INTERRUPT_PRIORITY :: int where
  "configLIBRARY_MAX_SYSCALL_INTERRUPT_PRIORITY \<equiv> 5"
abbreviation configMAX_SYSCALL_INTERRUPT_PRIORITY :: int where
  "configMAX_SYSCALL_INTERRUPT_PRIORITY \<equiv> 0x50"

section \<open>Resets\<close>

text \<open>The state in which the function spins.\<close>

definition system_reset :: "u32 \<Rightarrow> 'h bus \<Rightarrow> ('h, 'm) irq_world_scheme \<Rightarrow> ('h, 'm) irq_world_scheme" where
  "system_reset request b s =
     (let (v, s1) = rd32 b (aSCB SCB_AIRCR) s;
          s2 = s1\<lparr>lnScratchRegister := v\<rparr>;
          s3 = wr32 b (aSCB SCB_VTOR) 0 s2
      in wr32 b (aSCB SCB_AIRCR) (AIRCR_KEY + request) s3)"

definition lnSoftSystemReset :: "'h bus \<Rightarrow> ('h, 'm) irq_world_scheme \<Rightarrow> ('h, 'm) irq_world_scheme" where
  "lnSoftSystemReset = system_reset (push_bit 0 1)"

definition lnHardSystemReset :: "'h bus \<Rightarrow> ('h, 'm) irq_world_scheme \<Rightarrow> ('h, 'm) irq_world_scheme" where
  "lnHardSystemReset = system_reset (push_bit 2 1)"

section \<open>The interrupt controller\<close>

text \<open>The requested priority in the hardware's order, where low is urgent.\<close>

definition irq_level :: "int \<Rightarrow> int" where
  "irq_level prio =
     (let p = configLIBRARY_LOWEST_INTERRUPT_PRIORITY - prio;
          p = (if p > configLIBRARY_LOWEST_INTERRUPT_PRIORITY then configLIBRARY_LOWEST_INTERRUPT_PRIORITY else p)
      in if p < configLIBRARY_MAX_SYSCALL_INTERRUPT_PRIORITY then configLIBRARY_MAX_SYSCALL_INTERRUPT_PRIORITY
         else p)"

definition lnIrqSetPriority ::
  "'h bus \<Rightarrow> LnIRQ \<Rightarrow> int \<Rightarrow> ('h, 'm) world_scheme \<Rightarrow> ('h, 'm) world_scheme" where
  "lnIrqSetPriority b irq prio s =
     (let prio = irq_level prio in
      if irq < LN_IRQ_WWDG then s
      else wr8 b (anvic IPR + word_of_int (lnirq_code irq)) (push_bit (8 - configPRIO_BITS) (word_of_int prio)) s)"

definition enableDisable ::
  "'h bus \<Rightarrow> bool \<Rightarrow> LnIRQ \<Rightarrow> ('h, 'm) world_scheme \<Rightarrow> ('h, 'm) world_scheme option" where
  "enableDisable b enable zirq s =
     (let irq = lnirq_code zirq in
      if irq > 0 then
        let offset = irq div 32; bt = nat (irq mod 32) in
        Some (wr32 b (anvic (if enable then ISER else ICER) + 4 * word_of_int offset) (push_bit bt 1) s)
      else None)"

definition lnEnableInterrupt :: "'h bus \<Rightarrow> LnIRQ \<Rightarrow> ('h, 'm) world_scheme \<Rightarrow> ('h, 'm) world_scheme option" where
  "lnEnableInterrupt b irq = enableDisable b True irq"

definition lnDisableInterrupt :: "'h bus \<Rightarrow> LnIRQ \<Rightarrow> ('h, 'm) world_scheme \<Rightarrow> ('h, 'm) world_scheme option" where
  "lnDisableInterrupt b irq = enableDisable b False irq"

definition lnSetInterruptHandler ::
  "LnIRQ \<Rightarrow> u32 option \<Rightarrow> ('h, 'm) irq_world_scheme \<Rightarrow> ('h, 'm) irq_world_scheme option" where
  "lnSetInterruptHandler irq handler s =
     (if irq = LN_IRQ_ADC0_1 then Some (s\<lparr>adcIrqHandler := handler\<rparr>) else None)"

text \<open>\<open>vectors\<close> is the address of \<open>LnVectorTable\<close>.\<close>

definition sysinit_priorities :: "'h bus \<Rightarrow> ('h, 'm) world_scheme \<Rightarrow> ('h, 'm) world_scheme" where
  "sysinit_priorities b s =
     fold (\<lambda>i. lnIrqSetPriority b (lnirq_of i) 0) [lnirq_code LN_IRQ_WWDG .. lnirq_code LN_IRQ_ARM_LAST - 1] s"

definition lnIrqSysInit :: "u32 \<Rightarrow> 'h bus \<Rightarrow> ('h, 'm) world_scheme \<Rightarrow> ('h, 'm) world_scheme" where
  "lnIrqSysInit vectors b s =
     (let s = fold (\<lambda>i. wr32 b (anvic ICER + 4 * of_nat i) 0xFFFFFFFF) [0..<4] s;
          (v, s) = rd32 b (aSCB SCB_AIRCR) s;
          s = wr32 b (aSCB SCB_AIRCR) ((v AND 7) OR (AIRCR_KEY + push_bit 8 3)) s;
          s = sysinit_priorities b s;
          s = fold (\<lambda>i. wr8 b (aSCB SCB_SHP + of_nat i) (word_of_int configMAX_SYSCALL_INTERRUPT_PRIORITY)) [0..<4] s;
          s = wr32 b (aSCB SCB_VTOR) vectors s;
          s = mod32 b (aSCB SCB_CR) (\<lambda>v. v OR (push_bit 4 1 + push_bit 9 1)) s
      in mod32 b (aSCB SCB_SHCSR) (\<lambda>v. v OR push_bit 16 7) s)"

section \<open>Handlers\<close>

datatype irq_stub =
    RTC_stub | WDG_stub | Tamper_stub | RCU_stub | FMC_stub | HardFault_stub | NMI_stub | MemManage_stub
  | BusFault_stub | DebugMon_stub | UsageFault_stub

datatype irq_handler =
    Initial_msp | Exc_reset | Fault_IrqHandler irq_stub | UnsupportedInterrupt | UnsupportedInterrupt2
  | Port_SVCHandler | Port_PendSVHandler | Port_SysTickHandler | EXTI_IRQHandler int int
  | DMA_IRQHandler int int | ADC01_IRQHandler | USB_TX_IRQHandler | USB_RX_IRQHandler | USB_WAKEUP_IRQHandler
  | TIMER_IRQHandler int | I2C_IRQHandler int bool | USART_IRQHandler int

definition LnVectorTable :: "irq_handler list" where
  "LnVectorTable =
    [Initial_msp, Exc_reset, Fault_IrqHandler NMI_stub, Fault_IrqHandler HardFault_stub,
     Fault_IrqHandler MemManage_stub, Fault_IrqHandler BusFault_stub,
     Fault_IrqHandler UsageFault_stub, UnsupportedInterrupt2, UnsupportedInterrupt,
     UnsupportedInterrupt, UnsupportedInterrupt, Port_SVCHandler, Fault_IrqHandler DebugMon_stub,
     UnsupportedInterrupt, Port_PendSVHandler, Port_SysTickHandler, Fault_IrqHandler WDG_stub,
     UnsupportedInterrupt, Fault_IrqHandler Tamper_stub, Fault_IrqHandler RTC_stub,
     Fault_IrqHandler FMC_stub, Fault_IrqHandler RCU_stub, EXTI_IRQHandler 0 0,
     EXTI_IRQHandler 1 1, EXTI_IRQHandler 2 2, EXTI_IRQHandler 3 3, EXTI_IRQHandler 4 4,
     DMA_IRQHandler 0 0, DMA_IRQHandler 0 1, DMA_IRQHandler 0 2, DMA_IRQHandler 0 3,
     DMA_IRQHandler 0 4, DMA_IRQHandler 0 5, DMA_IRQHandler 0 6, ADC01_IRQHandler,
     USB_TX_IRQHandler, USB_RX_IRQHandler, UnsupportedInterrupt, UnsupportedInterrupt,
     EXTI_IRQHandler 5 9, UnsupportedInterrupt, UnsupportedInterrupt, UnsupportedInterrupt,
     UnsupportedInterrupt, TIMER_IRQHandler 1, TIMER_IRQHandler 2, TIMER_IRQHandler 3,
     I2C_IRQHandler 0 False, I2C_IRQHandler 0 True, I2C_IRQHandler 1 False, I2C_IRQHandler 1 True,
     UnsupportedInterrupt, UnsupportedInterrupt, USART_IRQHandler 0, USART_IRQHandler 1,
     USART_IRQHandler 2, EXTI_IRQHandler 10 15, Fault_IrqHandler RTC_stub, USB_WAKEUP_IRQHandler,
     UnsupportedInterrupt, UnsupportedInterrupt, UnsupportedInterrupt, UnsupportedInterrupt,
     UnsupportedInterrupt, UnsupportedInterrupt, UnsupportedInterrupt, UnsupportedInterrupt,
     UnsupportedInterrupt, UnsupportedInterrupt, UnsupportedInterrupt, TIMER_IRQHandler 5,
     TIMER_IRQHandler 6, DMA_IRQHandler 1 0, DMA_IRQHandler 1 1, DMA_IRQHandler 1 2,
     DMA_IRQHandler 1 3]"

text \<open>What a handler does; \<open>Elsewhere\<close> stands for handlers the repository only declares, and the
  argument of \<open>Crash\<close> for the code given to \<open>deadEnd\<close>.\<close>

datatype irq_action = Calls_dma int int | Calls_i2c int bool | Calls_handler u32 | Crash int | Elsewhere

definition unsupportedInterrupt ::
  "'h bus \<Rightarrow> ('h, 'm) irq_world_scheme \<Rightarrow> irq_action \<times> ('h, 'm) irq_world_scheme" where
  "unsupportedInterrupt b s =
     (let (v, s1) = rd32 b (aSCB SCB_ICSR) s;
          cur = v AND 0xff
      in (Crash 2, s1\<lparr>curInterrupt := cur, curLnInterrupt := sint (cur - 16)\<rparr>))"

definition ADC01_handler ::
  "('h, 'm) irq_world_scheme \<Rightarrow> irq_action \<times> ('h, 'm) irq_world_scheme" where
  "ADC01_handler s = (case adcIrqHandler s of None \<Rightarrow> Crash 2 | Some f \<Rightarrow> Calls_handler f, s)"

text \<open>\<open>i2c\<close>: LN_ENABLE_I2C is set. The USB handlers are the weak ones of the file.\<close>

fun irq_run ::
  "bool \<Rightarrow> 'h bus \<Rightarrow> irq_handler \<Rightarrow> ('h, 'm) irq_world_scheme \<Rightarrow> irq_action \<times> ('h, 'm) irq_world_scheme" where
  "irq_run i2c b UnsupportedInterrupt s = unsupportedInterrupt b s"
| "irq_run i2c b UnsupportedInterrupt2 s = unsupportedInterrupt b s"
| "irq_run i2c b (Fault_IrqHandler _) s = (Crash 0x90, s)"
| "irq_run i2c b (DMA_IRQHandler d c) s = (Calls_dma d c, s)"
| "irq_run i2c b (I2C_IRQHandler d err) s = ((if i2c then Calls_i2c d err else Crash 1), s)"
| "irq_run i2c b ADC01_IRQHandler s = ADC01_handler s"
| "irq_run i2c b USB_TX_IRQHandler s = (Crash 2, s)"
| "irq_run i2c b USB_RX_IRQHandler s = (Crash 2, s)"
| "irq_run i2c b USB_WAKEUP_IRQHandler s = (Crash 2, s)"
| "irq_run i2c b _ s = (Elsewhere, s)"

section \<open>An interrupt controller\<close>

lemma all_ones: "{32 * n + m | m. bit (0xFFFFFFFF :: u32) m} = {32 * n ..< 32 * Suc n}"
proof -
  have "(0xFFFFFFFF :: u32) = mask 32" by (simp add: mask_eq_exp_minus_1)
  then have "bit (0xFFFFFFFF :: u32) m \<longleftrightarrow> m < 32" for m by (simp only: bit_mask_iff) simp
  then have "{32 * n + m | m. bit (0xFFFFFFFF :: u32) m} = {32 * n + m | m. m < 32}" by (simp only:)
  also have "\<dots> = {32 * n ..< 32 * Suc n}"
  proof (intro set_eqI iffI)
    fix x assume "x \<in> {32 * n ..< 32 * Suc n}"
    then have "x = 32 * n + (x - 32 * n) \<and> x - 32 * n < 32" by auto
    then show "x \<in> {32 * n + m | m. m < 32}" by blast
  qed auto
  finally show ?thesis .
qed

text \<open>Documented behaviour: a store to a bank sets or clears the interrupts whose bits are one; the
  priorities are bytes; stores elsewhere change neither.\<close>

locale nvic =
  fixes b :: "'h bus" and enabled :: "'h \<Rightarrow> nat set" and prios :: "'h \<Rightarrow> nat \<Rightarrow> u8" and vtor :: "'h \<Rightarrow> u32"
  assumes set_enable: "k < 8 \<Longrightarrow>
      enabled (st32 b (0xE000E100 + 4 * of_nat k) v h) = enabled h \<union> {32 * k + n | n. bit v n}"
    and clear_enable: "k < 8 \<Longrightarrow>
      enabled (st32 b (0xE000E180 + 4 * of_nat k) v h) = enabled h - {32 * k + n | n. bit v n}"
    and set_prio: "i < 240 \<Longrightarrow> prios (st8 b (0xE000E400 + of_nat i) x h) = (prios h)(i := x)"
    and prio_other: "prios (st32 b a v h) = prios h"
      "a < 0xE000E400 \<or> 0xE000E4F0 \<le> a \<Longrightarrow> prios (st8 b a x h) = prios h"
    and enabled_other: "a < 0xE000E100 \<or> 0xE000E200 \<le> a \<Longrightarrow> enabled (st32 b a v h) = enabled h"
      "enabled (st8 b a x h) = enabled h"
    and vtor_set: "vtor (st32 b 0xE000ED08 v h) = v"
    and vtor_other: "a \<noteq> 0xE000ED08 \<Longrightarrow> vtor (st32 b a v h) = vtor h" "vtor (st8 b a x h) = vtor h"
    and loads: "enabled (snd (ld32 b a h)) = enabled h" "prios (snd (ld32 b a h)) = prios h"
      "vtor (snd (ld32 b a h)) = vtor h"
begin

lemmas nvic_simps [simp] = prio_other enabled_other vtor_set vtor_other loads

lemma priority_store:
  assumes "0 \<le> lnirq_code irq"
  shows "prios (hw (lnIrqSetPriority b irq p s)) =
      (prios (hw s))(nat (lnirq_code irq) := push_bit 4 (word_of_int (irq_level p)))"
    "enabled (hw (lnIrqSetPriority b irq p s)) = enabled (hw s)"
    "vtor (hw (lnIrqSetPriority b irq p s)) = vtor (hw s)"
proof -
  have i: "nat (lnirq_code irq) < 240" using lnirq_code_range(2) [of irq] by linarith
  have "(word_of_int (lnirq_code irq) :: u32) = of_nat (nat (lnirq_code irq))" using assms by simp
  then show "prios (hw (lnIrqSetPriority b irq p s)) =
      (prios (hw s))(nat (lnirq_code irq) := push_bit 4 (word_of_int (irq_level p)))"
    using assms set_prio [OF i] by (simp add: lnIrqSetPriority_def Let_def less_LnIRQ_def)
qed (simp_all add: lnIrqSetPriority_def Let_def)

lemma priorities_store:
  assumes "0 \<le> i" "j \<le> 60"
  shows "prios (hw (fold (\<lambda>i. lnIrqSetPriority b (lnirq_of i) p) [i .. j] s)) =
      (\<lambda>n. if i \<le> int n \<and> int n \<le> j then push_bit 4 (word_of_int (irq_level p)) else prios (hw s) n) \<and>
    enabled (hw (fold (\<lambda>i. lnIrqSetPriority b (lnirq_of i) p) [i .. j] s)) = enabled (hw s) \<and>
    vtor (hw (fold (\<lambda>i. lnIrqSetPriority b (lnirq_of i) p) [i .. j] s)) = vtor (hw s)"
  using assms
proof (induction "nat (j + 1 - i)" arbitrary: i s)
  case 0
  then have "j < i" by linarith
  then show ?case by (auto simp: fun_eq_iff)
next
  case (Suc m)
  then have list: "[i .. j] = i # [i + 1 .. j]" by (intro upto_rec1) linarith
  have code: "lnirq_code (lnirq_of i) = i" using Suc by (intro lnirq_code_of) linarith+
  have m: "m = nat (j + 1 - (i + 1))" "0 \<le> i + 1" using Suc by linarith+
  define s1 where "s1 = lnIrqSetPriority b (lnirq_of i) p s"
  have "0 \<le> lnirq_code (lnirq_of i)" using code Suc by simp
  note s1 = priority_store [OF this, of p s, folded s1_def, unfolded code]
  have first: "fold (\<lambda>i. lnIrqSetPriority b (lnirq_of i) p) [i .. j] s =
      fold (\<lambda>i. lnIrqSetPriority b (lnirq_of i) p) [i + 1 .. j] s1"
    by (simp only: list fold_simps s1_def)
  note IH = Suc.hyps(1) [OF m Suc.prems(2), of s1]
  have "(if i + 1 \<le> int n \<and> int n \<le> j then c else prios (hw s1) n) =
      (if i \<le> int n \<and> int n \<le> j then c else prios (hw s) n)"
    if "c = push_bit 4 (word_of_int (irq_level p))" for c n
    using Suc.hyps(2) Suc.prems(1) by (simp add: s1(1) that) linarith
  then show ?case unfolding first using IH s1(2, 3) by (simp only: refl)
qed

lemma enable_bit:
  assumes "0 < lnirq_code irq"
  shows "\<exists>s'. enableDisable b en irq s = Some s' \<and>
    enabled (hw s') = (if en then insert (nat (lnirq_code irq)) (enabled (hw s))
      else enabled (hw s) - {nat (lnirq_code irq)}) \<and> prios (hw s') = prios (hw s)"
proof -
  let ?i = "lnirq_code irq"
  define k where "k = nat (?i div 32)"
  have k: "k < 8" "(word_of_int (?i div 32) :: u32) = of_nat k"
    using assms lnirq_code_range(2) [of irq] by (simp_all add: k_def)
  have "bit (push_bit (nat (?i mod 32)) 1 :: u32) n \<longleftrightarrow> n = nat (?i mod 32)" for n
    using nat_less_iff [of "?i mod 32" 32] by (auto simp: bit_simps)
  then have "{32 * k + n | n. bit (push_bit (nat (?i mod 32)) 1 :: u32) n} = {32 * k + nat (?i mod 32)}" by auto
  also have "32 * k + nat (?i mod 32) = nat ?i"
  proof -
    have "int (32 * k + nat (?i mod 32)) = ?i" using assms by (simp add: k_def)
    then show ?thesis by linarith
  qed
  finally show ?thesis
    using assms set_enable [OF k(1)] clear_enable [OF k(1)] k(2)
    by (auto simp: enableDisable_def Let_def)
qed

lemma clear_all:
  fixes s :: "('h, 'm) world_scheme"
  defines "f \<equiv> \<lambda>i. wr32 b (anvic ICER + 4 * of_nat i) 0xFFFFFFFF"
  assumes "n \<le> 8"
  shows "enabled (hw (fold f [0..<n] s)) = enabled (hw s) - {..< 32 * n} \<and>
    prios (hw (fold f [0..<n] s)) = prios (hw s)"
  using assms(2)
proof (induction n)
  case (Suc n)
  let ?h = "hw (fold f [0..<n] s)"
  note bits = all_ones [of n]
  have last: "hw (fold f [0..<Suc n] s) = st32 b (0xE000E180 + 4 * of_nat n) 0xFFFFFFFF ?h"
    by (simp add: f_def)
  have "enabled (hw (fold f [0..<Suc n] s)) = enabled ?h - {32 * n ..< 32 * Suc n}"
  proof -
    have "n < 8" using Suc.prems by simp
    then show ?thesis by (simp only: last clear_enable bits)
  qed
  also have "\<dots> = enabled (hw s) - ({..< 32 * n} \<union> {32 * n ..< 32 * Suc n})"
    using Suc.IH Suc.prems by (simp only: Suc_leD) blast
  also have "{..< 32 * n} \<union> {32 * n ..< 32 * Suc n} = {..< 32 * Suc n}"
    by (rule ivl_disj_un_one(2)) simp
  finally have "enabled (hw (fold f [0..<Suc n] s)) = enabled (hw s) - {..< 32 * Suc n}" .
  moreover have "prios (hw (fold f [0..<Suc n] s)) = prios (hw s)"
    unfolding last prio_other using Suc.IH Suc.prems by (simp only: Suc_leD)
  ultimately show ?case ..
qed simp

lemma sysinit_effect:
  "enabled (hw (lnIrqSysInit vectors b s)) = enabled (hw s) - {..< 128} \<and>
   prios (hw (lnIrqSysInit vectors b s)) = (\<lambda>n. if n \<le> 60 then 0xF0 else prios (hw s) n) \<and>
   vtor (hw (lnIrqSysInit vectors b s)) = vectors"
proof -
  define s1 where "s1 = fold (\<lambda>i. wr32 b (anvic ICER + 4 * of_nat i) 0xFFFFFFFF) [0..<4] s"
  define s2 where "s2 = wr32 b (aSCB SCB_AIRCR)
    ((fst (rd32 b (aSCB SCB_AIRCR) s1) AND 7) OR (AIRCR_KEY + push_bit 8 3)) (snd (rd32 b (aSCB SCB_AIRCR) s1))"
  define s3 where "s3 = sysinit_priorities b s2"
  define s4 where "s4 = fold (\<lambda>i. wr8 b (aSCB SCB_SHP + of_nat i)
    (word_of_int configMAX_SYSCALL_INTERRUPT_PRIORITY)) [0..<4] s3"
  have init: "lnIrqSysInit vectors b s = mod32 b (aSCB SCB_SHCSR) (\<lambda>v. v OR push_bit 16 7)
      (mod32 b (aSCB SCB_CR) (\<lambda>v. v OR (push_bit 4 1 + push_bit 9 1)) (wr32 b (aSCB SCB_VTOR) vectors s4))"
    by (simp only: lnIrqSysInit_def Let_def case_prod_beta s1_def s2_def s3_def s4_def)
  have e1: "enabled (hw s1) = enabled (hw s) - {..< 128}" "prios (hw s1) = prios (hw s)"
    using clear_all [of 4 s] by (simp_all add: s1_def)
  have e2: "enabled (hw s2) = enabled (hw s1)" "prios (hw s2) = prios (hw s1)" by (simp_all add: s2_def)
  have level: "push_bit 4 (word_of_int (irq_level 0)) = (0xF0 :: u8)" by (simp add: irq_level_def)
  have e3: "enabled (hw s3) = enabled (hw s2)"
    "prios (hw s3) = (\<lambda>n. if n \<le> 60 then 0xF0 else prios (hw s) n)"
    using priorities_store [of 0 60 0 s2, unfolded level e1 e2] by (simp_all add: s3_def sysinit_priorities_def e2 e1)
  have e4: "enabled (hw s4) = enabled (hw s3)" "prios (hw s4) = prios (hw s3)"
    by (simp_all add: s4_def upt_rec)
  have "enabled (hw (lnIrqSysInit vectors b s)) = enabled (hw s4)"
    "prios (hw (lnIrqSysInit vectors b s)) = prios (hw s4)"
    "vtor (hw (lnIrqSysInit vectors b s)) = vectors"
    unfolding init by simp_all
  then show ?thesis using e1 e2 e3 e4 by simp
qed

end

section \<open>One controller that satisfies the laws\<close>

record nvic_dev =
  nv_enabled :: "nat set"
  nv_prios :: "nat \<Rightarrow> u8"
  nv_vtor :: u32

definition nvic_bank :: "u32 \<Rightarrow> u32 \<Rightarrow> u32 \<Rightarrow> nat set" where
  "nvic_bank base a v =
     (if a - base < 32 then {32 * (unat (a - base) div 4) + n | n. bit v n} else {})"

definition nvic_bus :: "nvic_dev bus" where
  "nvic_bus =
     \<lparr>ld8 = (\<lambda>a d. (0, d)), ld16 = (\<lambda>a d. (0, d)), ld32 = (\<lambda>a d. (0, d)),
      st8 = (\<lambda>a x d. if a - 0xE000E400 < 240 then d\<lparr>nv_prios := (nv_prios d)(unat (a - 0xE000E400) := x)\<rparr> else d),
      st16 = (\<lambda>a w d. d),
      st32 = (\<lambda>a v d. if a = 0xE000ED08 then d\<lparr>nv_vtor := v\<rparr>
        else d\<lparr>nv_enabled := nv_enabled d \<union> nvic_bank 0xE000E100 a v - nvic_bank 0xE000E180 a v\<rparr>)\<rparr>"

lemma unat_4k: "k < 8 \<Longrightarrow> unat (4 * of_nat k :: u32) = 4 * k"
  using unsigned_of_nat [of "4 * k", where 'b = 32 and 'a = nat] by (simp add: take_bit_nat_eq_self)

lemma bank_hit:
  assumes "k < 8"
  shows "nvic_bank base (base + 4 * of_nat k) v = {32 * k + n | n. bit v n}"
  using assms unat_4k [OF assms] by (simp add: nvic_bank_def word_less_nat_alt)

lemma outside:
  fixes a base n :: u32
  assumes "base \<le> base + n" "a < base \<or> base + n \<le> a"
  shows "\<not> a - base < n"
  using assms by unat_arith

lemma bank_miss:
  assumes "base \<le> base + 32" "a < base \<or> base + 32 \<le> a"
  shows "nvic_bank base a v = {}"
  using outside [OF assms] by (simp add: nvic_bank_def)

lemma below_8: "k < 8 \<Longrightarrow> k = 0 \<or> k = 1 \<or> k = 2 \<or> k = 3 \<or> k = 4 \<or> k = 5 \<or> k = 6 \<or> k = 7" for k :: nat
  by arith

interpretation nv: nvic nvic_bus nv_enabled nv_prios nv_vtor
proof (unfold_locales, goal_cases)
  case (1 k v h)
  have "(0xE000E100 + 4 * of_nat k :: u32) \<noteq> 0xE000ED08 \<and> (0xE000E100 + 4 * of_nat k :: u32) < 0xE000E180"
    using below_8 [OF 1] by (elim disjE) simp_all
  then show ?case using bank_hit [OF 1] bank_miss [of "0xE000E180" "0xE000E100 + 4 * of_nat k"]
    by (simp add: nvic_bus_def)
next
  case (2 k v h)
  have "(0xE000E180 + 4 * of_nat k :: u32) \<noteq> 0xE000ED08 \<and> 0xE000E120 \<le> (0xE000E180 + 4 * of_nat k :: u32)"
    using below_8 [OF 2] by (elim disjE) simp_all
  then show ?case using bank_hit [OF 2] bank_miss [of "0xE000E100" "0xE000E180 + 4 * of_nat k"]
    by (simp add: nvic_bus_def)
next
  case (3 i x h)
  then have "unat (of_nat i :: u32) = i" by (simp add: unsigned_of_nat take_bit_nat_eq_self)
  then show ?case using 3 by (simp add: nvic_bus_def word_less_nat_alt)
next
  case (5 a x h)
  then show ?case using outside [of "0xE000E400" 240 a] by (simp add: nvic_bus_def)
next
  case (6 a v h)
  then have "a < 0xE000E100 \<or> 0xE000E120 \<le> a" "a < 0xE000E180 \<or> 0xE000E1A0 \<le> a"
    by unat_arith+
  then show ?case
    using bank_miss [of "0xE000E100" a v] bank_miss [of "0xE000E180" a v] by (simp add: nvic_bus_def)
qed (simp_all add: nvic_bus_def)

section \<open>Properties\<close>

text \<open>C37: on a controller as documented, the interrupt setup leaves the interrupts 0 to 127 disabled,
  gives every interrupt of the enumeration the least urgent priority, and points the processor at
  the vector table. That priority is level 15, the byte 0xF0, where the comment in the code announces
  level 14: \<open>lnIrqSetPriority\<close> turns its least urgent 0 into 15, in the upper four bits of the byte.\<close>

theorem irq_sys_init:
  assumes "nvic b enabled prios vtor"
  shows "enabled (hw (lnIrqSysInit vectors b s)) = enabled (hw s) - {..< 128} \<and>
    prios (hw (lnIrqSysInit vectors b s)) = (\<lambda>n. if n \<le> 60 then 0xF0 else prios (hw s) n) \<and>
    vtor (hw (lnIrqSysInit vectors b s)) = vectors"
  by (rule nvic.sysinit_effect) (rule assms)

definition nvic_demo :: "nvic_dev irq_world" where
  "nvic_demo =
     \<lparr>hw = \<lparr>nv_enabled = {5, 200}, nv_prios = (\<lambda>_. 0), nv_vtor = 0\<rparr>, adcIrqHandler = None,
      curInterrupt = 0, curLnInterrupt = 0, lnScratchRegister = 0\<rparr>"

lemma irq_sys_init_witness:
  "nv_enabled (hw (lnIrqSysInit 0x20000000 nvic_bus nvic_demo)) = {200} \<and>
   nv_prios (hw (lnIrqSysInit 0x20000000 nvic_bus nvic_demo)) 37 = 0xF0"
  using irq_sys_init [OF nv.nvic_axioms, of "0x20000000" nvic_demo] by (auto simp: nvic_demo_def)

text \<open>C38: enabling an interrupt enables exactly that one, disabling disables exactly that one, and no
  priority changes; for the watchdog interrupt, number 0, and for exceptions the assertion fails.\<close>

theorem irq_enable_exact:
  assumes "nvic b enabled prios vtor"
  shows "if 0 < lnirq_code irq then
      \<exists>s' s''. lnEnableInterrupt b irq s = Some s' \<and>
        enabled (hw s') = insert (nat (lnirq_code irq)) (enabled (hw s)) \<and> prios (hw s') = prios (hw s) \<and>
        lnDisableInterrupt b irq s = Some s'' \<and>
        enabled (hw s'') = enabled (hw s) - {nat (lnirq_code irq)} \<and> prios (hw s'') = prios (hw s)
    else lnEnableInterrupt b irq s = None \<and> lnDisableInterrupt b irq s = None"
proof (cases "0 < lnirq_code irq")
  case True
  then show ?thesis
    using nvic.enable_bit [OF assms True, of True s] nvic.enable_bit [OF assms True, of False s]
    unfolding lnEnableInterrupt_def lnDisableInterrupt_def by auto
next
  case False
  then show ?thesis by (simp add: lnEnableInterrupt_def lnDisableInterrupt_def enableDisable_def Let_def)
qed

lemma irq_enable_exact_witness:
  "\<exists>s'. lnEnableInterrupt nvic_bus LN_IRQ_USART2 nvic_demo = Some s' \<and> nv_enabled (hw s') = {5, 39, 200}"
  using irq_enable_exact [OF nv.nvic_axioms, of LN_IRQ_USART2 nvic_demo] by (auto simp: nvic_demo_def)

text \<open>Whatever priority is asked for, the level stored for an interrupt lies between the most
  urgent one from which the kernel may be called and the least urgent one; a higher request is never
  less urgent; and requests 0 to 10, not 0 to 5, are told apart.\<close>

theorem irq_priority_bounds:
  assumes "nvic b enabled prios vtor" "LN_IRQ_WWDG \<le> irq"
  shows "prios (hw (lnIrqSetPriority b irq p s)) =
      (prios (hw s))(nat (lnirq_code irq) := word_of_int (16 * irq_level p)) \<and>
    5 \<le> irq_level p \<and> irq_level p \<le> 15 \<and> (p \<le> q \<longrightarrow> irq_level q \<le> irq_level p) \<and>
    (0 \<le> p \<and> p < q \<and> q \<le> 10 \<longrightarrow> irq_level q < irq_level p)"
proof -
  have "0 \<le> lnirq_code irq" using assms(2) by (simp add: less_eq_LnIRQ_def)
  moreover have "push_bit 4 (word_of_int n) = (word_of_int (16 * n) :: u8)" for n
    by (simp add: push_bit_eq_mult)
  ultimately show ?thesis
    using nvic.priority_store(1) [OF assms(1), of irq p s] by (auto simp: irq_level_def Let_def)
qed

lemma irq_priority_bounds_witness:
  "nv_prios (hw (lnIrqSetPriority nvic_bus LN_IRQ_USART2 10 nvic_demo)) 39 = 0x50"
  using irq_priority_bounds [OF nv.nvic_axioms, of LN_IRQ_USART2 10 nvic_demo 11]
  by (simp add: less_eq_LnIRQ_def irq_level_def)

text \<open>The vector table fits the enumeration: the interrupts with a handler of their own have it at
  16 plus their number, the exceptions from SVCALL on as well; it has no entry for
  \<open>LN_IRQ_DMA1_Channel4\<close>, the last of the enumeration.\<close>

theorem vector_table_routes:
  "map (\<lambda>irq. LnVectorTable ! nat (16 + lnirq_code irq))
     [LN_IRQ_EXTI0, LN_IRQ_EXTI1, LN_IRQ_EXTI2, LN_IRQ_EXTI3, LN_IRQ_EXTI4, LN_IRQ_EXTI5_9, LN_IRQ_EXTI10_15,
      LN_IRQ_DMA0_Channel0, LN_IRQ_DMA0_Channel6, LN_IRQ_DMA1_Channel0, LN_IRQ_DMA1_Channel3,
      LN_IRQ_ADC0_1, LN_IRQ_USB_HP_CAN_TX, LN_IRQ_USB_LP_CAN_RX0, LN_IRQ_USBWAKEUP,
      LN_IRQ_I2C0_EV, LN_IRQ_I2C0_ER, LN_IRQ_I2C1_EV, LN_IRQ_I2C1_ER,
      LN_IRQ_USART0, LN_IRQ_USART1, LN_IRQ_USART2, LN_IRQ_TIMER1, LN_IRQ_TIMER5, LN_IRQ_TIMER6,
      LN_IRQ_SVCALL, LN_IRQ_PENDSV, LN_IRQ_SYSTICK] =
     [EXTI_IRQHandler 0 0, EXTI_IRQHandler 1 1, EXTI_IRQHandler 2 2, EXTI_IRQHandler 3 3, EXTI_IRQHandler 4 4,
      EXTI_IRQHandler 5 9, EXTI_IRQHandler 10 15,
      DMA_IRQHandler 0 0, DMA_IRQHandler 0 6, DMA_IRQHandler 1 0, DMA_IRQHandler 1 3,
      ADC01_IRQHandler, USB_TX_IRQHandler, USB_RX_IRQHandler, USB_WAKEUP_IRQHandler,
      I2C_IRQHandler 0 False, I2C_IRQHandler 0 True, I2C_IRQHandler 1 False, I2C_IRQHandler 1 True,
      USART_IRQHandler 0, USART_IRQHandler 1, USART_IRQHandler 2, TIMER_IRQHandler 1, TIMER_IRQHandler 5,
      TIMER_IRQHandler 6, Port_SVCHandler, Port_PendSVHandler, Port_SysTickHandler] \<and>
   length LnVectorTable = 16 + nat (lnirq_code LN_IRQ_DMA1_Channel4)"
  by (simp add: LnVectorTable_def)

text \<open>The exceptions before SVCALL are numbered from another origin: for the reserved exception 7
  the handler records \<open>LN_IRQ_MEMMANAGE\<close>, not \<open>LN_IRQ_RESERVED\<close>, before it gives up.\<close>

theorem unsupported_misreports:
  assumes "irq_run i2c b (LnVectorTable ! nat (13 + lnirq_code LN_IRQ_RESERVED)) s = (act, s')"
    and "fst (ld32 b (aSCB SCB_ICSR) (hw s)) = 7"
  shows "act = Crash 2 \<and> lnirq_of (curLnInterrupt s') = LN_IRQ_MEMMANAGE"
  using assms
  by (auto simp: LnVectorTable_def unsupportedInterrupt_def rd32_def case_prod_beta lnirq_of_def LnIRQ_list_def)

lemma unsupported_misreports_witness:
  "lnirq_of (curLnInterrupt (snd (irq_run False (nvic_bus\<lparr>ld32 := \<lambda>a d. (7, d)\<rparr>) UnsupportedInterrupt2 nvic_demo)))
     = LN_IRQ_MEMMANAGE"
proof -
  let ?b = "nvic_bus\<lparr>ld32 := \<lambda>a d. (7, d)\<rparr>"
  obtain act s' where run: "irq_run False ?b (LnVectorTable ! nat (13 + lnirq_code LN_IRQ_RESERVED)) nvic_demo = (act, s')"
    by fastforce
  from unsupported_misreports [OF this] have "lnirq_of (curLnInterrupt s') = LN_IRQ_MEMMANAGE" by simp
  moreover have "irq_run False ?b UnsupportedInterrupt2 nvic_demo = (act, s')" using run by (simp add: LnVectorTable_def)
  ultimately show ?thesis by (simp only: snd_conv)
qed

end
