(* ===== verification/Crash.thy ===== *)
theory Crash
  imports BootPrelude
begin

text \<open>
  The error path: what a failed assertion, a fault or a stray interrupt ends in
  (\<open>stubs.cpp\<close>, \<open>systemHelper.cpp\<close>, \<open>start.cpp\<close>, \<open>deadEnd\<close> and \<open>crashHandler2\<close> of
  \<open>lnIRQ_arm_gd32fx.cpp\<close>), as a machine with a call stack; and the critical sections of
  \<open>lowlevel.cpp\<close>.
\<close>

section \<open>The functions\<close>

text \<open>A frame is a function and the number of its next statement.\<close>

datatype crash_frame = Do_assert nat | Dead_end int nat | Logger_crash nat

record crash_state =
  crash_stack :: "crash_frame list"
  irq_masked :: bool
  lastErrorCode :: int

text \<open>One statement of the topmost function; spinning is a state that is its own successor.\<close>

definition crash_step :: "crash_state \<Rightarrow> crash_state" where
  "crash_step s =
     (case crash_stack s of
        [] \<Rightarrow> s
      | Do_assert pc # fs \<Rightarrow>
          if pc = 0 then s\<lparr>crash_stack := Dead_end 2 0 # Do_assert 1 # fs\<rparr> else s
      | Dead_end code pc # fs \<Rightarrow>
          if pc = 0 then s\<lparr>irq_masked := True, crash_stack := Dead_end code 1 # fs\<rparr>
          else if pc = 1 then s\<lparr>lastErrorCode := code, crash_stack := Dead_end code 2 # fs\<rparr>
          else if pc \<le> 4 then s\<lparr>crash_stack := Logger_crash 0 # Dead_end code (pc + 1) # fs\<rparr>
          else if pc = 5 then s\<lparr>crash_stack := Dead_end code 6 # fs\<rparr>
          else s
      | Logger_crash pc # fs \<Rightarrow>
          if pc = 0 then s\<lparr>crash_stack := Do_assert 0 # Logger_crash 1 # fs\<rparr>
          else s\<lparr>crash_stack := fs\<rparr>)"

text \<open>The ways into it.\<close>

datatype crash_cause =
    Failed_assert | Throw_out_of_range | Throw_length_error | Cxa_pure_virtual | Core_exception_handler
  | Handle_trap | UnhandledException | Exit_call int | Start_fault | CrashHandler2 | Weak_usb_irq
  | Sbrk | I2c_irq

fun crash_entry :: "crash_cause \<Rightarrow> crash_frame" where
  "crash_entry Failed_assert = Do_assert 0"
| "crash_entry Throw_out_of_range = Do_assert 0"
| "crash_entry Throw_length_error = Do_assert 0"
| "crash_entry Cxa_pure_virtual = Do_assert 0"
| "crash_entry Core_exception_handler = Do_assert 0"
| "crash_entry Weak_usb_irq = Do_assert 0"
| "crash_entry Sbrk = Do_assert 0"
| "crash_entry Handle_trap = Dead_end 0xffff 0"
| "crash_entry UnhandledException = Dead_end 0x1000 0"
| "crash_entry (Exit_call code) = Dead_end (code + 0x2000) 0"
| "crash_entry Start_fault = Dead_end 5 0"
| "crash_entry CrashHandler2 = Dead_end 0x90 0"
| "crash_entry I2c_irq = Dead_end 1 0"

definition crash_start :: "crash_cause \<Rightarrow> bool \<Rightarrow> int \<Rightarrow> crash_state" where
  "crash_start cause msked code = \<lparr>crash_stack = [crash_entry cause], irq_masked = msked, lastErrorCode = code\<rparr>"

section \<open>The stack only grows\<close>

text \<open>Where the machine is in its round of five statements, and the depth of the stack.\<close>

definition crash_phase :: "nat \<Rightarrow> crash_state \<Rightarrow> bool" where
  "crash_phase r s \<longleftrightarrow>
     (\<exists>code fs. crash_stack s =
        (if r = 0 then Dead_end code 0 # fs
         else if r = 1 then Dead_end code 1 # fs
         else if r = 2 then Dead_end code 2 # fs
         else if r = 3 then Logger_crash 0 # Dead_end code 3 # fs
         else Do_assert 0 # Logger_crash 1 # Dead_end code 3 # fs))"

lemma crash_round:
  assumes "crash_phase r s" "r < 5"
  shows "crash_phase (Suc r mod 5) (crash_step s)" "crash_step s \<noteq> s"
    "length (crash_stack (crash_step s)) = length (crash_stack s) + (if 2 \<le> r then 1 else 0)"
proof -
  have "r = 0 \<or> r = 1 \<or> r = 2 \<or> r = 3 \<or> r = 4" using assms(2) by arith
  then have "crash_phase (Suc r mod 5) (crash_step s) \<and> crash_step s \<noteq> s \<and>
    length (crash_stack (crash_step s)) = length (crash_stack s) + (if 2 \<le> r then 1 else 0)"
    using assms(1)
    by (elim disjE) (cases s; auto simp: crash_phase_def crash_step_def)+
  then show "crash_phase (Suc r mod 5) (crash_step s)" "crash_step s \<noteq> s"
    "length (crash_stack (crash_step s)) = length (crash_stack s) + (if 2 \<le> r then 1 else 0)"
    by blast+
qed

lemma crash_rounds:
  assumes "crash_phase 0 s"
  shows "crash_phase (k mod 5) ((crash_step ^^ k) s) \<and>
    length (crash_stack ((crash_step ^^ k) s)) = length (crash_stack s) + 3 * (k div 5) + (k mod 5 - 2)"
proof (induction k)
  case 0
  then show ?case using assms by simp
next
  case (Suc k)
  let ?s = "(crash_step ^^ k) s"
  note round = crash_round [of "k mod 5" ?s]
  have lt: "k mod 5 < 5" by simp
  have phase: "crash_phase (k mod 5) ?s" using Suc by blast
  have "Suc (k mod 5) mod 5 = Suc k mod 5" by (simp add: mod_Suc_eq)
  then have "crash_phase (Suc k mod 5) (crash_step ?s)" using round(1) [OF phase lt] by simp
  moreover have "3 * (Suc k div 5) + (Suc k mod 5 - 2) = 3 * (k div 5) + (k mod 5 - 2) + (if 2 \<le> k mod 5 then 1 else 0)"
    by (simp add: div_Suc mod_Suc) arith
  ultimately show ?case using Suc round(3) [OF phase lt] by simp
qed

lemma phase_top:
  assumes "crash_phase r s" "crash_stack s = Dead_end c pc # fs"
  shows "pc < 5"
  using assms by (auto simp: crash_phase_def split: if_splits)

lemma crash_from_phase:
  assumes "crash_phase 0 s" "t = (crash_step ^^ k) s"
  shows "crash_step t \<noteq> t" "length (crash_stack s) + 3 * (k div 5) \<le> length (crash_stack t)"
    "crash_stack t = Dead_end c pc # fs \<Longrightarrow> pc < 5"
proof -
  note r = crash_rounds [OF assms(1), of k, folded assms(2)]
  then show "crash_step t \<noteq> t" by (intro crash_round(2) [of "k mod 5"]) simp_all
  show "length (crash_stack s) + 3 * (k div 5) \<le> length (crash_stack t)" using r by simp
  show "pc < 5" if "crash_stack t = Dead_end c pc # fs" using r that phase_top by blast
qed

text \<open>A cause is a call of \<open>deadEnd\<close>, or of \<open>do_assert\<close>, one statement earlier.\<close>

lemma crash_start_phase:
  "crash_phase 0 (crash_start cause msked code) \<or>
   crash_entry cause = Do_assert 0 \<and> crash_phase 0 (crash_step (crash_start cause msked code)) \<and>
   length (crash_stack (crash_step (crash_start cause msked code))) = 2"
  by (cases cause) (simp_all add: crash_start_def crash_phase_def crash_step_def)

section \<open>Critical sections\<close>

record critical =
  nesting :: int
  primask :: bool

definition vPortExitCritical :: "critical \<Rightarrow> critical" where
  "vPortExitCritical c =
     (let c = c\<lparr>nesting := nesting c - 1\<rparr> in if nesting c = 0 then c\<lparr>primask := False\<rparr> else c)"

definition vPortEnterCritical :: "critical \<Rightarrow> critical" where
  "vPortEnterCritical c = (let c = c\<lparr>primask := True\<rparr> in c\<lparr>nesting := nesting c + 1\<rparr>)"

definition interrupts :: "critical \<Rightarrow> critical" where
  "interrupts = vPortExitCritical"

definition noInterrupt :: "critical \<Rightarrow> critical" where
  "noInterrupt = vPortEnterCritical"

lemma enter_many:
  "(noInterrupt ^^ n) c = c\<lparr>nesting := nesting c + int n, primask := primask c \<or> 0 < n\<rparr>"
  by (induction n) (cases c; simp add: noInterrupt_def vPortEnterCritical_def Let_def)+

lemma exit_many:
  assumes "k \<le> n" "0 < n" "nesting c = int n" "primask c"
  shows "(interrupts ^^ k) c = c\<lparr>nesting := int (n - k), primask := k < n\<rparr>"
  using assms(1)
proof (induction k)
  case 0
  then show ?case using assms by (cases c) simp
next
  case (Suc k)
  then show ?case using assms(2) by (auto simp: interrupts_def vPortExitCritical_def Let_def)
qed

section \<open>Properties\<close>

text \<open>C40: no way into the error path ends: \<open>deadEnd\<close> logs, logging fails its assertion, and the
  assertion calls \<open>deadEnd\<close>. The machine never spins, and after \<open>k\<close> statements the stack holds more
  than \<open>3 * (k div 5)\<close> frames, so that any stack overflows; the breakpoint is never reached.\<close>

theorem crash_never_settles:
  "let t = (crash_step ^^ k) (crash_start cause msked code)
   in crash_step t \<noteq> t \<and> 3 * (k div 5) < length (crash_stack t) \<and>
      crash_stack t \<notin> {Dead_end c pc # fs | c pc fs. 5 \<le> pc}"
proof -
  let ?s = "crash_start cause msked code"
  have one: "length (crash_stack ?s) = 1" by (simp add: crash_start_def)
  consider "crash_phase 0 ?s" | "k = 0" "crash_stack ?s = [Do_assert 0]"
    | j where "k = Suc j" "crash_phase 0 (crash_step ?s)" "length (crash_stack (crash_step ?s)) = 2"
    using crash_start_phase [of cause msked code] by (cases k) (auto simp: crash_start_def)
  then show ?thesis
  proof cases
    case 1
    from crash_from_phase [OF this refl, of k] one show ?thesis by (fastforce simp: Let_def)
  next
    case 2
    then show ?thesis by (cases ?s) (simp add: crash_step_def)
  next
    case 3
    have t: "(crash_step ^^ k) ?s = (crash_step ^^ j) (crash_step ?s)"
      by (simp only: 3(1) funpow_Suc_right comp_apply)
    have "3 * (k div 5) < 2 + (3 * (j div 5) + (j mod 5 - 2))"
      unfolding 3(1) by (simp add: div_Suc) arith
    then show ?thesis
      using crash_from_phase [OF 3(2) t] crash_rounds [OF 3(2), of j, folded t] 3(3) by (fastforce simp: Let_def)
  qed
qed

text \<open>After \<open>n\<close> nested entries into a critical section the interrupts come back with the \<open>n\<close>-th
  exit and not before.\<close>

theorem critical_nested:
  assumes "nesting c = 0" "0 < n" "k \<le> n"
  shows "let c' = (interrupts ^^ k) ((noInterrupt ^^ n) c)
    in nesting c' = int (n - k) \<and> primask c' = (k < n)"
  using assms exit_many [of k n "(noInterrupt ^^ n) c"] by (simp add: enter_many Let_def)

lemma critical_nested_witness:
  "primask ((interrupts ^^ 2) ((noInterrupt ^^ 3) \<lparr>nesting = 0, primask = False\<rparr>)) \<and>
   \<not> primask ((interrupts ^^ 3) ((noInterrupt ^^ 3) \<lparr>nesting = 0, primask = False\<rparr>))"
  using critical_nested [of "\<lparr>nesting = 0, primask = False\<rparr>" 3 2]
    critical_nested [of "\<lparr>nesting = 0, primask = False\<rparr>" 3 3] by (simp add: Let_def)

text \<open>One exit without an entry and no later critical section gives the interrupts back.\<close>

theorem unmatched_exit:
  assumes "nesting c = 0" "0 < n"
  shows "primask (((interrupts \<circ> noInterrupt) ^^ n) (interrupts c))"
proof -
  have "nesting (((interrupts \<circ> noInterrupt) ^^ n) (interrupts c)) = - 1 \<and>
    (0 < n \<longrightarrow> primask (((interrupts \<circ> noInterrupt) ^^ n) (interrupts c)))" for n
    by (induction n)
      (use assms(1) in \<open>auto simp: interrupts_def noInterrupt_def vPortExitCritical_def vPortEnterCritical_def Let_def\<close>)
  then show ?thesis using assms(2) by blast
qed

lemma unmatched_exit_witness:
  "primask (((interrupts \<circ> noInterrupt) ^^ 1) (interrupts \<lparr>nesting = 0, primask = False\<rparr>))"
  using unmatched_exit [of "\<lparr>nesting = 0, primask = False\<rparr>" 1] by simp

end
