(* ===== verification/Start.thy ===== *)
theory Start
  imports Stage1 WordLoops
begin

text \<open>
  Start-up of the first stage (\<open>start_c\<close> of \<open>start.cpp\<close>), and the way from the application's request
  for the boot loader through the reset to the second stage.
\<close>

section \<open>\<open>start_c\<close>\<close>

text \<open>The symbols of the linker are arguments. \<open>init\<close> is \<open>__libc_init_array\<close>, which calls the
  constructors and is not code of the repository. The result is the state in which \<open>main\<close> is
  called.\<close>

definition RAM :: "u32 \<Rightarrow> u32" where
  "RAM off = 0x20000000 + off"

definition start_c ::
  "(('h, 'm) world_scheme \<Rightarrow> ('h, 'm) world_scheme) \<Rightarrow> u32 \<Rightarrow> u32 \<Rightarrow> u32 \<Rightarrow> u32 \<Rightarrow> u32 \<Rightarrow>
     'h bus \<Rightarrow> ('h, 'm) world_scheme \<Rightarrow> ('h, 'm) world_scheme option" where
  "start_c init cfgp data_start data_end bss_start bss_end b s = do {
     let (src, s) = rd32 b cfgp s;
     let (ram0, s) = rd32 b (RAM 0) s;
     let (ram1, s) = rd32 b (RAM 4) s;
     s \<leftarrow> data_loop b data_end src data_start s;
     s \<leftarrow> bss_loop b bss_end bss_start s;
     let s = init s;
     let s = wr32 b (RAM 0) ram0 s;
     Some (wr32 b (RAM 4) ram1 s)
   }"

text \<open>Memory as the loops leave it.\<close>

definition loaded :: "u32 \<Rightarrow> u32 \<Rightarrow> nat \<Rightarrow> u32 \<Rightarrow> nat \<Rightarrow> (u32 \<Rightarrow> u8) \<Rightarrow> u32 \<Rightarrow> u8" where
  "loaded cfgp data n bss k m =
     put_words (put_words m data (words_at m (word_at m cfgp) n)) bss (replicate k 0)"

text \<open>The two words at the start of the RAM taken over from \<open>m\<close>.\<close>

definition keep_marker :: "(u32 \<Rightarrow> u8) \<Rightarrow> (u32 \<Rightarrow> u8) \<Rightarrow> u32 \<Rightarrow> u8" where
  "keep_marker m m' = put_word (put_word m' RAM_START_ADDR (word_at m RAM_START_ADDR))
     (RAM_START_ADDR + 4) (word_at m (RAM_START_ADDR + 4))"

lemma keep_marker_set: "marker_set (keep_marker m m') = marker_set m"
  by (simp add: marker_set_def keep_marker_def word_at_other)

text \<open>What the linker script guarantees: both sections in the RAM, the load image outside the data
  section, and nothing at the end of the address space.\<close>

definition layout_ok :: "u32 set \<Rightarrow> u32 set \<Rightarrow> u32 \<Rightarrow> u32 \<Rightarrow> nat \<Rightarrow> u32 \<Rightarrow> nat \<Rightarrow> (u32 \<Rightarrow> u8) \<Rightarrow> bool" where
  "layout_ok M W cfgp data n bss k m \<longleftrightarrow>
     span cfgp 4 \<subseteq> M \<and> span RAM_START_ADDR 8 \<subseteq> W \<and>
     unat data + 4 * n < 2 ^ 32 \<and> span data (4 * n) \<subseteq> W \<and>
     unat bss + 4 * k < 2 ^ 32 \<and> span bss (4 * k) \<subseteq> W \<and>
     span (word_at m cfgp) (4 * n) \<subseteq> M \<and> span (word_at m cfgp) (4 * n) \<inter> span data (4 * n) = {}"

context soc begin

lemma load_word:
  assumes "span a 4 \<subseteq> M"
  obtains s' where "rd32 b a s = (word_at (mem (hw s)) a, s')" "mem (hw s') = mem (hw s)"
    "world.more s' = world.more s"
  using mem_value [OF assms, of "hw s"] that [of "snd (rd32 b a s)"] by (simp add: prod_eq_iff)

lemma start_loads:
  assumes "layout_ok M W cfgp data n bss k (mem (hw s))"
  shows "\<exists>s1 s'. start_c init cfgp data (data + 4 * of_nat n) bss (bss + 4 * of_nat k) b s = Some s' \<and>
    mem (hw s1) = loaded cfgp data n bss k (mem (hw s)) \<and> world.more s1 = world.more s \<and>
    mem (hw s') = keep_marker (mem (hw s)) (mem (hw (init s1))) \<and> world.more s' = world.more (init s1)"
proof -
  note lay = assms [unfolded layout_ok_def]
  let ?m = "mem (hw s)"
  have W: "span RAM_START_ADDR 4 \<subseteq> W" "span (RAM_START_ADDR + 4) 4 \<subseteq> W"
    using lay span_add [of 0 4 8 RAM_START_ADDR] span_add [of 4 4 8 RAM_START_ADDR] by auto
  then have M: "span RAM_START_ADDR 4 \<subseteq> M" "span (RAM_START_ADDR + 4) 4 \<subseteq> M" using ram by auto
  obtain sa where sa: "rd32 b cfgp s = (word_at ?m cfgp, sa)" "mem (hw sa) = ?m" "world.more sa = world.more s"
    by (rule load_word [of cfgp s]) (use lay in auto)
  obtain sb where sb: "rd32 b RAM_START_ADDR sa = (word_at ?m RAM_START_ADDR, sb)" "mem (hw sb) = ?m" "world.more sb = world.more s"
    by (rule load_word [OF M(1), of sa]) (use sa in auto)
  obtain sc where sc: "rd32 b (RAM_START_ADDR + 4) sb = (word_at ?m (RAM_START_ADDR + 4), sc)" "mem (hw sc) = ?m"
      "world.more sc = world.more s"
    by (rule load_word [OF M(2), of sb]) (use sb in auto)
  obtain s0 where s0: "data_loop b (data + 4 * of_nat n) (word_at ?m cfgp) data sc = Some s0"
    "mem (hw s0) = put_words ?m data (words_at ?m (word_at ?m cfgp) n)" "world.more s0 = world.more sc"
    using data_copies [of data n "word_at ?m cfgp" sc] lay sc(2) by auto
  obtain s1 where s1: "bss_loop b (bss + 4 * of_nat k) bss s0 = Some s1"
    "mem (hw s1) = put_words (mem (hw s0)) bss (replicate k 0)" "world.more s1 = world.more s0"
    using bss_clears [of bss k s0] lay by auto
  let ?s' = "wr32 b (RAM_START_ADDR + 4) (word_at ?m (RAM_START_ADDR + 4))
    (wr32 b RAM_START_ADDR (word_at ?m RAM_START_ADDR) (init s1))"
  have "start_c init cfgp data (data + 4 * of_nat n) bss (bss + 4 * of_nat k) b s = Some ?s'"
    using sa(1) sb(1) sc(1) s0(1) s1(1) by (simp add: start_c_def RAM_def)
  moreover have "mem (hw ?s') = keep_marker ?m (mem (hw (init s1)))"
    using store_ram [OF W(1)] store_ram [OF W(2)] by (simp add: keep_marker_def)
  moreover have "mem (hw s1) = loaded cfgp data n bss k ?m" using s1(2) s0(2) by (simp add: loaded_def)
  ultimately show ?thesis using s1(3) s0(3) sc(3)
    by (intro exI [of _ s1] exI [of _ ?s']) simp
qed

end

section \<open>Properties\<close>

text \<open>C20: whatever the constructors do, the start-up code ends and hands to \<open>main\<close> a RAM whose first
  eight bytes are those found after the reset; before the constructors run the data section is a
  copy of its load image, the bss section is zero, and nothing else has changed.\<close>

theorem start_keeps_marker:
  assumes "soc b mem crc crc_on istat M W" "layout_ok M W cfgp data n bss k (mem (hw s))"
  shows "\<exists>s1 s'. start_c init cfgp data (data + 4 * of_nat n) bss (bss + 4 * of_nat k) b s = Some s' \<and>
    mem (hw s1) = loaded cfgp data n bss k (mem (hw s)) \<and> world.more s1 = world.more s \<and>
    mem (hw s') = keep_marker (mem (hw s)) (mem (hw (init s1))) \<and>
    marker_set (mem (hw s')) = marker_set (mem (hw s))"
  using soc.start_loads [OF assms, of init] by (auto simp: keep_marker_set)

text \<open>Four words of data, two of bss, the load image at 0x8001100.\<close>

definition start_demo :: "u32 \<Rightarrow> u8" where
  "start_demo = put_word (\<lambda>_. 0) 0x8001000 0x8001100"

lemma span_between:
  assumes "unat lo \<le> unat a" "unat a + n \<le> unat hi" "unat hi < 2 ^ 32"
  shows "span a n \<subseteq> {lo .. hi}"
proof
  fix x assume "x \<in> span a n"
  then obtain k where k: "k < n" "x = a + of_nat k" by (auto simp: span_def)
  then have "unat (of_nat k :: u32) = k" using assms by (simp add: unsigned_of_nat take_bit_nat_eq_self)
  then have "unat x = unat a + k" using k assms by (simp add: unat_word_ariths(1))
  then show "x \<in> {lo .. hi}" using assms k(1) by (simp add: word_le_nat_alt)
qed

lemma demo_layout:
  assumes "word_at m 0x8001000 = 0x8001100"
  shows "layout_ok soc_mem soc_ram 0x8001000 RAM_START_ADDR 4 0x20000010 2 m"
proof -
  have "span 0x8001000 4 \<subseteq> {0x8000000 .. 0x8080000}" "span 0x8001100 16 \<subseteq> {0x8000000 .. 0x8080000}"
    "span RAM_START_ADDR 8 \<subseteq> {0x20000000 .. 0x20005000}" "span RAM_START_ADDR 16 \<subseteq> {0x20000000 .. 0x20005000}"
    "span 0x20000010 8 \<subseteq> {0x20000000 .. 0x20005000}"
    by (rule span_between; simp)+
  note r = this
  have "{0x8000000 .. 0x8080000 :: u32} \<inter> {0x20000000 .. 0x20005000} = {}" by (auto simp: word_le_nat_alt)
  then have "span 0x8001100 16 \<inter> span RAM_START_ADDR 16 = {}" using r(2, 4) by blast
  with r show ?thesis unfolding layout_ok_def assms by (auto simp: soc_mem_def soc_ram_def)
qed

lemma start_keeps_marker_witness:
  "\<exists>(s1 :: soc_dev stage1_world) s'. start_c id 0x8001000 RAM_START_ADDR 0x20000010 0x20000010 0x20000018 (soc_bus 0) (stage1_demo start_demo) = Some s' \<and>
    sd_mem (hw s1) = loaded 0x8001000 RAM_START_ADDR 4 0x20000010 2 start_demo \<and>
    \<not> marker_set (sd_mem (hw s'))"
proof -
  have m: "sd_mem (hw (stage1_demo start_demo)) = start_demo" by (simp add: stage1_demo_def)
  have "layout_ok soc_mem soc_ram 0x8001000 RAM_START_ADDR 4 0x20000010 2 (sd_mem (hw (stage1_demo start_demo)))"
    unfolding m by (rule demo_layout) (simp add: start_demo_def)
  from start_keeps_marker [OF soc0.soc_axioms this, of id 0]
  obtain s1 :: "soc_dev stage1_world" and s' where r: "start_c id 0x8001000 RAM_START_ADDR 0x20000010 0x20000010 0x20000018 (soc_bus 0) (stage1_demo start_demo) = Some s'"
    "sd_mem (hw s1) = loaded 0x8001000 RAM_START_ADDR 4 0x20000010 2 start_demo"
    "marker_set (sd_mem (hw s')) = marker_set start_demo"
    unfolding m by auto
  have "\<not> marker_set start_demo"
    by (simp add: marker_set_def start_demo_def word_at_def put_word_def mk32_def)
  with r show ?thesis by blast
qed

text \<open>C10: a request is served: when the application has written its marker and the chip is reset, the
  start-up code and the first stage together always end in the second stage, copied to the RAM,
  with the marker gone.\<close>

theorem reboot_request_served:
  assumes "soc b mem crc crc_on istat M W" "span 0x8002000 0x40010 \<subseteq> M"
    "span RAM_START_ADDR (max 8 (length payload)) \<subseteq> W" "length payload < 2 ^ 32"
    and "layout_ok M W cfgp data n bss k (mem (hw (reboot_into_bootloader b s)))"
    and "hw s0 = hw (reboot_into_bootloader b s)"
  shows "\<exists>s1 j s'. start_c init cfgp data (data + 4 * of_nat n) bss (bss + 4 * of_nat k) b s0 = Some s1 \<and>
    stage1_main speed0 value0 payload b s1 = Some (j, s') \<and>
    mem (hw s') = put_bytes (clear_marker (mem (hw s1))) RAM_START_ADDR payload \<and>
    j = vectors (mem (hw s')) RAM_START_ADDR"
proof -
  have W8: "span RAM_START_ADDR 8 \<subseteq> W" using assms(5) by (simp add: layout_ok_def)
  have marker: "marker_set (mem (hw s0))"
    using soc.marker_found [OF assms(1) W8, of s] soc.marker_value [OF assms(1), of "reboot_into_bootloader b s"]
      W8 soc.ram [OF assms(1)] assms(6) by auto
  have lay: "layout_ok M W cfgp data n bss k (mem (hw s0))" using assms(5, 6) by simp
  obtain s1 s2 where s1: "start_c init cfgp data (data + 4 * of_nat n) bss (bss + 4 * of_nat k) b s0 = Some s1"
    "mem (hw s1) = keep_marker (mem (hw s0)) (mem (hw (init s2)))"
    using soc.start_loads [OF assms(1) lay, of init] by blast
  then have "\<not> boots_app istat (mem (hw s1))" using marker by (simp add: boots_app_def keep_marker_set)
  with soc.main_decides [OF assms(1-4), of speed0 value0 s1] s1(1) show ?thesis by auto
qed

lemma reboot_request_served_witness:
  "\<exists>s1 j s'. start_c id 0x8001000 RAM_START_ADDR 0x20000010 0x20000010 0x20000018 (soc_bus 0x4000)
      (reboot_into_bootloader (soc_bus 0x4000) (stage1_demo start_demo)) = Some s1 \<and>
    stage1_main 0 0 [1, 2, 3, 4, 5, 6, 7, 8] (soc_bus 0x4000) s1 = Some (j, s') \<and> pc j = 0x08070605"
proof -
  let ?p = "[1, 2, 3, 4, 5, 6, 7, 8] :: u8 list"
  let ?s = "reboot_into_bootloader (soc_bus 0x4000) (stage1_demo start_demo)"
  have m: "sd_mem (hw ?s) = put_word (put_word start_demo RAM_START_ADDR 0xCC00FFEE) (RAM_START_ADDR + 4) 0xDEADBEEF"
  proof -
    have low: "(0xDEADBEEFCC00FFEE :: u32) = 0xCC00FFEE" by simp
    show ?thesis
      by (simp add: reboot_into_bootloader_def wr64_def soc_bus_def soc_st32_def stage1_demo_def drop_bit_eq_div
          wr32_def, subst low, rule refl)
  qed
  have lay: "layout_ok soc_mem soc_ram 0x8001000 RAM_START_ADDR 4 0x20000010 2 (sd_mem (hw ?s))"
    unfolding m by (rule demo_layout) (simp add: word_at_other start_demo_def)
  have W: "span RAM_START_ADDR (max 8 (length ?p)) \<subseteq> soc_ram" "length ?p < 2 ^ 32"
  proof -
    have "length ?p = 8" by simp
    then show "span RAM_START_ADDR (max 8 (length ?p)) \<subseteq> soc_ram" "length ?p < 2 ^ 32"
      using soc_spans(2) [of 8] by (simp_all only: max.idem) simp_all
  qed
  have "word_at (put_bytes m RAM_START_ADDR ?p) (RAM_START_ADDR + 4) = 0x08070605" for m
    by (simp add: word_at_def put_bytes_def mk32_def)
  with reboot_request_served [OF soc0.soc_axioms soc_spans(1) W lay refl, of id 0 0] show ?thesis
    by (fastforce simp: vectors_def)
qed

end
