(* ===== verification/Heap.thy ===== *)
theory Heap
  imports Soc
begin

text \<open>
  The allocator of \<open>systemAlloc.cpp\<close>: a pointer that moves down from the middle of the RAM, and no
  release. \<open>fakeHeap\<close> points to words, so that subtracting a number of bytes moves it four times
  as far.
\<close>

section \<open>The allocator\<close>

record 'h heap_world = "'h world" +
  fakeHeap :: u32

definition heap_start :: u32 where
  "heap_start = 0x20000000 + (20 - 10) * 1024"

text \<open>The size is an \<open>int\<close> of 32 bits. Where the C sum overflows, which the language leaves open, it wraps
  around as the machine's does.\<close>

definition sysAlloc :: "'h bus \<Rightarrow> int \<Rightarrow> ('h, 'm) heap_world_scheme \<Rightarrow> u32 \<times> ('h, 'm) heap_world_scheme" where
  "sysAlloc b sz s =
     (let rounded = (sint (word_of_int (sz + 3) :: u32) div 4) * 4;
          s = s\<lparr>fakeHeap := fakeHeap s - 4 * word_of_int rounded\<rparr>;
          z = fakeHeap s;
          s = fold (\<lambda>i. wr8 b (z + word_of_int i) 0) [0 .. sz - 1] s
      in (fakeHeap s, s))"

definition sysFree :: "u32 \<Rightarrow> ('h, 'm) heap_world_scheme \<Rightarrow> ('h, 'm) heap_world_scheme" where
  "sysFree p s = s"

text \<open>Sizes are 32-bit unsigned here and signed in \<open>sysAlloc\<close>.\<close>

definition calloc :: "'h bus \<Rightarrow> u32 \<Rightarrow> u32 \<Rightarrow> ('h, 'm) heap_world_scheme \<Rightarrow> u32 \<times> ('h, 'm) heap_world_scheme" where
  "calloc b n elem = sysAlloc b (sint (n * elem))"

definition malloc :: "'h bus \<Rightarrow> u32 \<Rightarrow> ('h, 'm) heap_world_scheme \<Rightarrow> u32 \<times> ('h, 'm) heap_world_scheme" where
  "malloc b n = sysAlloc b (sint n)"

definition operator_new :: "'h bus \<Rightarrow> u32 \<Rightarrow> ('h, 'm) heap_world_scheme \<Rightarrow> u32 \<times> ('h, 'm) heap_world_scheme" where
  "operator_new b n = sysAlloc b (sint n)"

definition operator_delete :: "u32 \<Rightarrow> ('h, 'm) heap_world_scheme \<Rightarrow> ('h, 'm) heap_world_scheme" where
  "operator_delete = sysFree"

text \<open>A series of requests, and the addresses handed out.\<close>

fun alloc_all :: "'h bus \<Rightarrow> int list \<Rightarrow> ('h, 'm) heap_world_scheme \<Rightarrow> u32 list \<times> ('h, 'm) heap_world_scheme" where
  "alloc_all b [] s = ([], s)"
| "alloc_all b (n # ns) s =
     (let (p, s) = sysAlloc b n s; (ps, s) = alloc_all b ns s in (p # ps, s))"

section \<open>Blocks\<close>

text \<open>What a request takes from the heap.\<close>

definition heap_step :: "int \<Rightarrow> nat" where
  "heap_step n = nat (16 * ((n + 3) div 4))"

lemma heap_step_ge: "0 \<le> n \<Longrightarrow> 4 * nat n \<le> heap_step n"
  by (simp add: heap_step_def)

lemma fakeHeap_more:
  fixes s s' :: "('h, 'm) heap_world_scheme"
  assumes "world.more s' = world.more s"
  shows "fakeHeap s' = fakeHeap s"
  using assms by (cases s; cases s'; simp)

lemma more_clear: "world.more (fold (\<lambda>i. wr8 b (z + word_of_int i) 0) is s) = world.more s"
  by (induction "is" arbitrary: s) simp_all

lemma alloc_pointer:
  "fst (sysAlloc b n s) = fakeHeap s - word_of_int (16 * (sint (word_of_int (n + 3) :: u32) div 4))"
  "fakeHeap (snd (sysAlloc b n s)) = fst (sysAlloc b n s)"
proof -
  have "fakeHeap (fold (\<lambda>i. wr8 b (z + word_of_int i) 0) is t) = fakeHeap t" for z "is" and t :: "('a, 'b) heap_world_scheme"
    by (rule fakeHeap_more [OF more_clear])
  then show "fst (sysAlloc b n s) = fakeHeap s - word_of_int (16 * (sint (word_of_int (n + 3) :: u32) div 4))"
    "fakeHeap (snd (sysAlloc b n s)) = fst (sysAlloc b n s)"
    by (simp_all add: sysAlloc_def Let_def)
qed

lemma alloc_unat:
  assumes "0 \<le> n" "heap_step n \<le> unat (fakeHeap s)"
  shows "unat (fst (sysAlloc b n s)) = unat (fakeHeap s) - heap_step n"
proof -
  have "4 * nat n < 2 ^ 32"
    using heap_step_ge [OF assms(1)] assms(2) unsigned_less [where 'a = nat, of "fakeHeap s"] by simp
  then have "sint (word_of_int (n + 3) :: u32) = n + 3"
    unfolding signed_of_int using assms(1) by (simp add: signed_take_bit_int_eq_self)
  then have "(word_of_int (16 * (sint (word_of_int (n + 3) :: u32) div 4)) :: u32) = of_nat (heap_step n)"
    using assms(1) by (simp add: heap_step_def)
  moreover have "unat (of_nat (heap_step n) :: u32) = heap_step n"
    using assms(2) unsigned_less [where 'a = nat, of "fakeHeap s"] by (simp add: unsigned_of_nat take_bit_nat_eq_self)
  ultimately show ?thesis using assms(2) by (simp add: alloc_pointer(1) unat_sub word_le_nat_alt)
qed

lemma alloc_all_below:
  assumes "\<forall>n\<in>set ns. 0 \<le> n" "sum_list (map heap_step ns) \<le> unat (fakeHeap s)"
  shows "(\<forall>k<length ns. unat (fst (alloc_all b ns s) ! k) + nat (ns ! k) \<le> unat (fakeHeap s)) \<and>
    sorted_wrt (\<lambda>(p, n) (q, m). unat q + nat m \<le> unat p) (zip (fst (alloc_all b ns s)) ns) \<and>
    length (fst (alloc_all b ns s)) = length ns"
  using assms
proof (induction ns arbitrary: s)
  case (Cons n ns)
  obtain p t where p: "sysAlloc b n s = (p, t)" by fastforce
  have pu: "unat p = unat (fakeHeap s) - heap_step n" "fakeHeap t = p"
    using alloc_unat [of n s b] alloc_pointer(2) [of b n s] Cons.prems p by auto
  then have rest: "sum_list (map heap_step ns) \<le> unat (fakeHeap t)" using Cons.prems by simp
  have all: "fst (alloc_all b (n # ns) s) = p # fst (alloc_all b ns t)"
    by (simp add: p case_prod_beta)
  have IH: "\<forall>k<length ns. unat (fst (alloc_all b ns t) ! k) + nat (ns ! k) \<le> unat p"
    "sorted_wrt (\<lambda>(p, n) (q, m). unat q + nat m \<le> unat p) (zip (fst (alloc_all b ns t)) ns)"
    "length (fst (alloc_all b ns t)) = length ns"
    using Cons.IH [OF _ rest] Cons.prems(1) pu(2) by auto
  have le: "unat p + nat n \<le> unat (fakeHeap s)"
    using heap_step_ge [of n] Cons.prems pu by auto
  have "unat (fst (alloc_all b (n # ns) s) ! k) + nat ((n # ns) ! k) \<le> unat (fakeHeap s)"
    if "k < length (n # ns)" for k
    using that le IH(1) pu(1) unfolding all by (cases k) force+
  moreover have "unat q + nat m \<le> unat p" if "(q, m) \<in> set (zip (fst (alloc_all b ns t)) ns)" for q m
    using that IH(1) by (auto simp: in_set_zip)
  ultimately show ?case using IH(2, 3) unfolding all by auto
qed simp

context soc begin

lemma clear_mem:
  assumes "span z n \<subseteq> W"
  shows "mem (hw (fold (\<lambda>i. wr8 b (z + word_of_int i) 0) [0 .. int n - 1] s)) =
    (\<lambda>x. if x \<in> span z n then 0 else mem (hw s) x)"
  using assms
proof (induction n)
  case (Suc n)
  have list: "[0 .. int (Suc n) - 1] = [0 .. int n - 1] @ [int n]"
    using upto_rec2 [of 0 "int n"] by simp
  have "span z n \<subseteq> W" "z + of_nat n \<in> W" using Suc.prems by (simp_all add: span_Suc)
  then show ?case
    using Suc.IH store_byte [of "z + of_nat n"] unfolding list by (auto simp: span_Suc fun_eq_iff)
qed (simp add: span_def)

end

section \<open>Properties\<close>

definition heap_demo :: "soc_dev heap_world" where
  "heap_demo = \<lparr>hw = \<lparr>sd_mem = (\<lambda>_. 7), sd_crc = 0, sd_on = False\<rparr>, fakeHeap = heap_start\<rparr>"

text \<open>As long as the sizes, four times over and rounded, fit below the heap pointer, the blocks of
  a series of requests lie below the pointer's first value and do not overlap: each ends at or
  before the one handed out before it.\<close>

theorem heap_blocks_disjoint:
  assumes "\<forall>n\<in>set ns. 0 \<le> n" "sum_list (map heap_step ns) \<le> unat (fakeHeap s)"
  shows "(\<forall>k<length ns. unat (fst (alloc_all b ns s) ! k) + nat (ns ! k) \<le> unat (fakeHeap s)) \<and>
    sorted_wrt (\<lambda>(p, n) (q, m). unat q + nat m \<le> unat p) (zip (fst (alloc_all b ns s)) ns)"
  using alloc_all_below [OF assms] by blast

lemma heap_blocks_disjoint_witness:
  "unat (fst (alloc_all (soc_bus 0) [5, 12] heap_demo) ! 1) + 12 \<le> 0x20002800"
  using heap_blocks_disjoint [of "[5, 12]" heap_demo "soc_bus 0"]
  by (simp add: heap_demo_def heap_start_def heap_step_def All_less_Suc2 del: alloc_all.simps)

text \<open>A block in the RAM is handed out zeroed, and no other byte of the memory changes.\<close>

theorem heap_block_zeroed:
  assumes "soc b mem crc crc_on istat M W" "span (fst (sysAlloc b (int n) s)) n \<subseteq> W"
  shows "mem (hw (snd (sysAlloc b (int n) s))) =
    (\<lambda>x. if x \<in> span (fst (sysAlloc b (int n) s)) n then 0 else mem (hw s) x)"
proof -
  define z where "z = fst (sysAlloc b (int n) s)"
  have "hw (snd (sysAlloc b (int n) s)) =
      hw (fold (\<lambda>i. wr8 b (z + word_of_int i) 0) [0 .. int n - 1] (s\<lparr>fakeHeap := z\<rparr>))"
    using alloc_pointer(1) [of b "int n" s] by (simp add: z_def sysAlloc_def Let_def)
  moreover have "hw (s\<lparr>fakeHeap := z\<rparr>) = hw s" by simp
  note soc.clear_mem [OF assms(1), of z n "s\<lparr>fakeHeap := z\<rparr>", unfolded this]
  ultimately show ?thesis using assms(2) by (simp add: z_def [symmetric])
qed

lemma heap_block_zeroed_witness:
  "sd_mem (hw (snd (sysAlloc (soc_bus 0) 4 heap_demo))) 0x200027F0 = 0 \<and>
   sd_mem (hw (snd (sysAlloc (soc_bus 0) 4 heap_demo))) 0x20002800 = 7"
proof -
  have p: "fst (sysAlloc (soc_bus 0) (int 4) heap_demo) = 0x200027F0"
    by (simp add: alloc_pointer heap_demo_def heap_start_def)
  have W: "span (fst (sysAlloc (soc_bus 0) (int 4) heap_demo)) 4 \<subseteq> soc_ram"
    unfolding p by (simp add: span_word soc_ram_def)
  from heap_block_zeroed [OF soc0.soc_axioms W] show ?thesis
    unfolding p by (simp add: span_word heap_demo_def)
qed

text \<open>The allocator never refuses: the first request of 2561 bytes, a quarter of the room below
  the pointer, already gets an address below the RAM.\<close>

theorem heap_runs_out:
  "fst (sysAlloc b 2561 (s\<lparr>fakeHeap := heap_start\<rparr>)) = 0x1FFFFFF0"
  by (simp add: alloc_pointer heap_start_def)

text \<open>\<open>calloc\<close> multiplies in 32 bits: 65536 elements of 65536 bytes get the heap pointer itself and
  no memory.\<close>

theorem calloc_wraps:
  "calloc b 0x10000 0x10000 s = (fakeHeap s, s)"
  by (simp add: calloc_def sysAlloc_def Let_def)

end
